(* ===== verification/Zlog_Prelude.thy ===== *)
theory Zlog_Prelude
  imports Main "HOL-Library.Word" "HOL-Library.Monad_Syntax"
begin

text \<open>
  Conventions and generic facts shared by every component of the zlog model.

  \<^item> A C function that can run into undefined behaviour (an access outside a block, through a
    null or freed pointer) or into a loop that does not end returns an \<open>option\<close>: \<open>None\<close> is that
    outcome. Return codes, as in the source, are \<open>int\<close>s, and a null pointer that the source
    returns as an error value is an inner \<open>None\<close>.
  \<^item> Every \<open>calloc\<close>, \<open>malloc\<close> and \<open>realloc\<close> of the source takes the next answer of an
    allocation script \<open>mem\<close> (\<open>True\<close>: the allocation succeeds). A script that is used up answers
    \<open>True\<close>, so a finite script describes every finite pattern of allocation failures.
  \<^item> C strings are \<open>string\<close>s without their terminating zero byte; characters are bytes.
\<close>

named_theorems zc_defs \<open>definitions of the base containers, for unfolding\<close>
named_theorems zc_inv \<open>invariants kept by the operations\<close>

type_synonym mem = "bool list"

fun alloc :: "mem \<Rightarrow> bool \<times> mem" where
  "alloc [] = (True, [])"
| "alloc (b # m) = (b, m)"

lemma alloc_Nil_fst [simp]: "fst (alloc []) = True"
  by simp

subsection \<open>Lists read and written by index\<close>

text \<open>Reading a cell of a block: outside the block the access is undefined behaviour.\<close>

definition cell :: "'a list \<Rightarrow> int \<Rightarrow> 'a option" where
  "cell xs i = (if 0 \<le> i \<and> nat i < length xs then Some (xs ! nat i) else None)"

lemma cell_nat [simp]: "i < length xs \<Longrightarrow> cell xs (int i) = Some (xs ! i)"
  by (simp add: cell_def)

lemma cell_SomeD: "cell xs i = Some x \<Longrightarrow> 0 \<le> i \<and> nat i < length xs \<and> x = xs ! nat i"
  by (simp add: cell_def split: if_splits)

lemma cell_None_iff: "cell xs i = None \<longleftrightarrow> i < 0 \<or> length xs \<le> nat i"
  by (auto simp: cell_def)

text \<open>Writing a run of cells, as \<open>memcpy\<close>, \<open>memset\<close> and \<open>memmove\<close> do.\<close>

definition write_at :: "'a list \<Rightarrow> nat \<Rightarrow> 'a list \<Rightarrow> 'a list option" where
  "write_at xs i ys =
     (if i + length ys \<le> length xs then Some (take i xs @ ys @ drop (i + length ys) xs) else None)"

lemma write_at_Some:
  "i + length ys \<le> length xs \<Longrightarrow> write_at xs i ys = Some (take i xs @ ys @ drop (i + length ys) xs)"
  by (simp add: write_at_def)

lemma write_at_length: "write_at xs i ys = Some zs \<Longrightarrow> length zs = length xs"
  by (auto simp: write_at_def split: if_splits)

lemma write_at_nil [simp]: "i \<le> length xs \<Longrightarrow> write_at xs i [] = Some xs"
  by (simp add: write_at_def)

lemma write_at_prefix:
  "write_at xs i ys = Some zs \<Longrightarrow> take (i + length ys) zs = take i xs @ ys"
  by (auto simp: write_at_def split: if_splits)

lemma write_at_append:
  assumes "write_at xs i ys = Some xs'" and "i + length ys + length zs \<le> length xs"
  shows "write_at xs' (i + length ys) zs = write_at xs i (ys @ zs)"
proof -
  from assms have "xs' = take i xs @ ys @ drop (i + length ys) xs" and "i \<le> length xs"
    by (auto simp: write_at_def split: if_splits)
  with assms(2) show ?thesis
    by (simp add: write_at_def add.assoc add.commute [of "length zs"])
qed

text \<open>The defined pointers of an array of pointers, in order.\<close>

definition somes :: "'a option list \<Rightarrow> 'a list" where
  "somes xs = map the (filter (\<lambda>x. x \<noteq> None) xs)"

lemma somes_simps [simp]:
  "somes [] = []"
  "somes (None # xs) = somes xs"
  "somes (Some x # xs) = x # somes xs"
  "somes (xs @ ys) = somes xs @ somes ys"
  by (simp_all add: somes_def)

lemma somes_replicate_None [simp]: "somes (replicate n None) = []"
  by (induction n) simp_all

lemma somes_map_Some [simp]: "somes (map Some xs) = xs"
  by (induction xs) simp_all

end
