(* ===== verification/Zc_Arraylist.thy ===== *)
theory Zc_Arraylist
  imports Zlog_Prelude
begin

text \<open>
  The growable array of pointers of \<^verbatim>\<open>zc_arraylist.c\<close> and \<^verbatim>\<open>zc_arraylist.h\<close>.

  The record keeps the block (\<open>None\<close> once it has been freed by a failed \<open>realloc\<close>), the
  number of used slots, the number of slots and whether a \<open>del\<close> callback is installed. The
  elements handed to that callback are returned as a list, in the order of the calls.
  The locale \<open>append_store\<close> is the contract clients that only build lists rely on.
\<close>

record 'a zc_arraylist =
  al_array :: "'a option list option"
  al_len :: nat
  al_size :: nat
  al_del :: bool

definition ARRAY_LIST_DEFAULT_SIZE :: nat where
  "ARRAY_LIST_DEFAULT_SIZE = 32"

definition zc_arraylist_new :: "bool \<Rightarrow> mem \<Rightarrow> 'a zc_arraylist option \<times> mem" where
  "zc_arraylist_new del m =
     (let (ok, m) = alloc m in
      if \<not> ok then (None, m)
      else let (ok, m) = alloc m in
        if \<not> ok then (None, m)
        else (Some \<lparr>al_array = Some (replicate ARRAY_LIST_DEFAULT_SIZE None), al_len = 0,
                    al_size = ARRAY_LIST_DEFAULT_SIZE, al_del = del\<rparr>, m))"

text \<open>
  Deleting the list: the result is the list of elements passed to \<open>del\<close>. The block is read
  and freed, so a list whose block is already freed faults.
\<close>

definition zc_arraylist_del :: "'a zc_arraylist option \<Rightarrow> 'a list option" where
  "zc_arraylist_del a_list =
     (case a_list of
        None \<Rightarrow> Some []
      | Some a \<Rightarrow>
          (case al_array a of
             None \<Rightarrow> None
           | Some arr \<Rightarrow>
               if \<not> al_del a then Some []
               else if length arr < al_len a then None
               else Some (somes (take (al_len a) arr))))"

definition zc_arraylist_expand_inner ::
  "'a zc_arraylist \<Rightarrow> nat \<Rightarrow> mem \<Rightarrow> (int \<times> 'a zc_arraylist \<times> mem) option" where
  "zc_arraylist_expand_inner a mx m =
     (case al_array a of
        None \<Rightarrow> None
      | Some arr \<Rightarrow>
          let new_size = max (al_size a * 2) mx;
              (ok, m) = alloc m
          in if \<not> ok then Some (-1, a\<lparr>al_array := None\<rparr>, m)
             else Some (0, a\<lparr>al_array := Some (arr @ replicate (new_size - al_size a) None),
                             al_size := new_size\<rparr>, m))"

text \<open>The write of one slot, after any expansion: the old element goes to \<open>del\<close>.\<close>

definition zc_arraylist_store ::
  "'a zc_arraylist \<Rightarrow> int \<Rightarrow> 'a option \<Rightarrow> ('a list \<times> 'a zc_arraylist) option" where
  "zc_arraylist_store a idx data = do {
     arr \<leftarrow> al_array a;
     old \<leftarrow> cell arr idx;
     let dead = (case old of Some x \<Rightarrow> if al_del a then [x] else [] | None \<Rightarrow> []);
     Some (dead, a\<lparr>al_array := Some (arr[nat idx := data]),
                   al_len := (if int (al_len a) \<le> idx then nat idx + 1 else al_len a)\<rparr>)
   }"

definition zc_arraylist_set ::
  "'a zc_arraylist \<Rightarrow> int \<Rightarrow> 'a option \<Rightarrow> mem \<Rightarrow> (int \<times> 'a list \<times> 'a zc_arraylist \<times> mem) option" where
  "zc_arraylist_set a idx data m =
     (if idx > int (al_size a) - 1 then do {
        (rc, a, m) \<leftarrow> zc_arraylist_expand_inner a (nat idx) m;
        if rc \<noteq> 0 then Some (-1, [], a, m)
        else do {
          (dead, a) \<leftarrow> zc_arraylist_store a idx data;
          Some (0, dead, a, m)
        }
      }
      else do {
        (dead, a) \<leftarrow> zc_arraylist_store a idx data;
        Some (0, dead, a, m)
      })"

definition zc_arraylist_add ::
  "'a zc_arraylist \<Rightarrow> 'a option \<Rightarrow> mem \<Rightarrow> (int \<times> 'a list \<times> 'a zc_arraylist \<times> mem) option" where
  "zc_arraylist_add a data m = zc_arraylist_set a (int (al_len a)) data m"

text \<open>The macro \<open>zc_arraylist_get\<close>: only the upper bound is tested.\<close>

definition zc_arraylist_get :: "'a zc_arraylist \<Rightarrow> int \<Rightarrow> 'a option option" where
  "zc_arraylist_get a i =
     (if i \<ge> int (al_len a) then Some None
      else do { arr \<leftarrow> al_array a; cell arr i })"

text \<open>
  The macro \<open>zc_arraylist_foreach\<close>: the pointers it visits. Its initialisation reads \<open>array[0]\<close>, of an
  empty list too.
\<close>

definition zc_arraylist_foreach :: "'a zc_arraylist \<Rightarrow> 'a option list option" where
  "zc_arraylist_foreach a_list = do {
     arr \<leftarrow> al_array a_list;
     if length arr < max 1 (al_len a_list) then None else Some (take (al_len a_list) arr)
   }"

text \<open>Inserting before an occupied slot; the source assumes \<open>idx < len\<close>.\<close>

definition zc_arraylist_shift ::
  "'a zc_arraylist \<Rightarrow> nat \<Rightarrow> 'a option \<Rightarrow> 'a zc_arraylist option" where
  "zc_arraylist_shift a idx data = do {
     arr \<leftarrow> al_array a;
     if length arr < al_len a then None
     else do {
       arr \<leftarrow> write_at arr (idx + 1) (take (al_len a - idx) (drop idx arr));
       Some (a\<lparr>al_array := Some (arr[idx := data]), al_len := al_len a + 1\<rparr>)
     }
   }"

definition zc_arraylist_insert_inner ::
  "'a zc_arraylist \<Rightarrow> nat \<Rightarrow> 'a option \<Rightarrow> mem \<Rightarrow> (int \<times> 'a zc_arraylist \<times> mem) option" where
  "zc_arraylist_insert_inner a idx data m = do {
     arr \<leftarrow> al_array a;
     old \<leftarrow> cell arr (int idx);
     if old = None then Some (0, a\<lparr>al_array := Some (arr[idx := data])\<rparr>, m)
     else if int (al_len a) > int (al_size a) - 1 then do {
       (rc, a, m) \<leftarrow> zc_arraylist_expand_inner a 0 m;
       if rc \<noteq> 0 then Some (-1, a, m)
       else do { a \<leftarrow> zc_arraylist_shift a idx data; Some (0, a, m) }
     }
     else do { a \<leftarrow> zc_arraylist_shift a idx data; Some (0, a, m) }
   }"

text \<open>
  The loop of \<open>zc_arraylist_sortadd\<close>: the first index whose element compares greater than the
  new one, or \<open>len\<close>. The comparison reads its first argument, so a null slot faults.
\<close>

fun sortadd_pos :: "('a \<Rightarrow> 'a \<Rightarrow> int) \<Rightarrow> 'a \<Rightarrow> 'a option list \<Rightarrow> nat \<Rightarrow> nat option" where
  "sortadd_pos cmp data [] i = Some i"
| "sortadd_pos cmp data (None # xs) i = None"
| "sortadd_pos cmp data (Some x # xs) i =
     (if cmp x data > 0 then Some i else sortadd_pos cmp data xs (i + 1))"

definition zc_arraylist_sortadd ::
  "'a zc_arraylist \<Rightarrow> ('a \<Rightarrow> 'a \<Rightarrow> int) \<Rightarrow> 'a \<Rightarrow> mem \<Rightarrow> (int \<times> 'a list \<times> 'a zc_arraylist \<times> mem) option" where
  "zc_arraylist_sortadd a cmp data m = do {
     arr \<leftarrow> al_array a;
     if length arr < al_len a then None
     else do {
       i \<leftarrow> sortadd_pos cmp data (take (al_len a) arr) 0;
       if i = al_len a then zc_arraylist_add a (Some data) m
       else do {
         (rc, a, m) \<leftarrow> zc_arraylist_insert_inner a i (Some data) m;
         Some (rc, [], a, m)
       }
     }
   }"

subsection \<open>Invariant and abstraction\<close>

text \<open>
  \<open>al_rep a xs\<close>: the block is live, the used slots hold \<open>xs\<close> and every slot above them is null.
\<close>

definition al_rep :: "'a zc_arraylist \<Rightarrow> 'a option list \<Rightarrow> bool" where
  "al_rep a xs \<longleftrightarrow> al_array a = Some (xs @ replicate (al_size a - length xs) None) \<and>
     al_len a = length xs \<and> length xs \<le> al_size a \<and> 0 < al_size a"

definition al_inv :: "'a zc_arraylist \<Rightarrow> bool" where
  "al_inv a \<longleftrightarrow> (case al_array a of None \<Rightarrow> False
     | Some arr \<Rightarrow> length arr = al_size a \<and> al_len a \<le> al_size a \<and> 0 < al_size a \<and>
         list_all (\<lambda>x. x = None) (drop (al_len a) arr))"

definition al_slots :: "'a zc_arraylist \<Rightarrow> 'a option list" where
  "al_slots a = (case al_array a of None \<Rightarrow> [] | Some arr \<Rightarrow> take (al_len a) arr)"

text \<open>What storing at an index does to the used slots: gaps are filled with null.\<close>

definition slots_set :: "'a option list \<Rightarrow> nat \<Rightarrow> 'a option \<Rightarrow> 'a option list" where
  "slots_set xs i d = (xs @ replicate (Suc i - length xs) None)[i := d]"

lemma al_rep_slots: "al_rep a xs \<Longrightarrow> al_slots a = xs"
  by (simp add: al_rep_def al_slots_def)

lemma al_rep_unique: "al_rep a xs \<Longrightarrow> al_rep a ys \<Longrightarrow> xs = ys"
  using al_rep_slots by metis

lemma al_inv_iff_rep: "al_inv a \<longleftrightarrow> al_rep a (al_slots a)"
proof
  assume inv: "al_inv a"
  then obtain arr where arr: "al_array a = Some arr" "length arr = al_size a" "al_len a \<le> al_size a"
      "0 < al_size a" "\<forall>x \<in> set (drop (al_len a) arr). x = None"
    by (auto simp: al_inv_def list_all_iff split: option.splits)
  have "drop (al_len a) arr = replicate (length arr - al_len a) None"
    using arr(5) by (metis length_drop replicate_length_same)
  then have "arr = take (al_len a) arr @ replicate (length arr - al_len a) None"
    by (metis append_take_drop_id)
  then show "al_rep a (al_slots a)"
    using arr by (simp add: al_rep_def al_slots_def min_def)
next
  assume rep: "al_rep a (al_slots a)"
  then show "al_inv a"
    by (auto simp: al_rep_def al_inv_def list_all_iff)
qed

lemma al_rep_inv: "al_rep a xs \<Longrightarrow> al_inv a"
  by (simp add: al_inv_iff_rep al_rep_slots)

lemma slots_set_length [simp]: "length (slots_set xs i d) = max (length xs) (Suc i)"
  by (simp add: slots_set_def max_def)

lemma slots_set_end [simp]: "slots_set xs (length xs) d = xs @ [d]"
  by (simp add: slots_set_def)

lemma slots_set_inside: "i < length xs \<Longrightarrow> slots_set xs i d = xs[i := d]"
  by (simp add: slots_set_def)

lemma slots_set_nth:
  "j < max (length xs) (Suc i) \<Longrightarrow>
   slots_set xs i d ! j = (if j = i then d else if j < length xs then xs ! j else None)"
  by (auto simp: slots_set_def nth_append nth_list_update)

lemma list_update_pad:
  assumes "i < n" and "length xs \<le> n"
  shows "(xs @ replicate (n - length xs) None)[i := d] =
    slots_set xs i d @ replicate (n - max (length xs) (Suc i)) None"
  using assms by (auto intro!: nth_equalityI simp: slots_set_nth nth_append nth_list_update)

subsection \<open>The operations\<close>

lemma zc_arraylist_new_rep:
  "zc_arraylist_new del m = (Some a, m') \<Longrightarrow> al_rep a [] \<and> al_del a = del \<and> al_size a = 32"
  by (auto simp: zc_arraylist_new_def al_rep_def ARRAY_LIST_DEFAULT_SIZE_def
      split: prod.splits if_splits)

lemma zc_arraylist_del_rep:
  "al_rep a xs \<Longrightarrow> zc_arraylist_del (Some a) = Some (if al_del a then somes xs else [])"
  by (simp add: zc_arraylist_del_def al_rep_def)

lemma zc_arraylist_get_rep:
  assumes "al_rep a xs" and "0 \<le> i"
  shows "zc_arraylist_get a i = Some (if nat i < length xs then xs ! nat i else None)"
  using assms by (auto simp: zc_arraylist_get_def al_rep_def cell_def nth_append)

lemma expand_inner_fail:
  assumes "al_rep a xs" and "alloc m = (False, m')"
  shows "zc_arraylist_expand_inner a mx m = Some (-1, a\<lparr>al_array := None\<rparr>, m')"
  using assms by (simp add: zc_arraylist_expand_inner_def al_rep_def)

lemma expand_inner_ok:
  assumes "al_rep a xs" and "alloc m = (True, m')"
  obtains a' where "zc_arraylist_expand_inner a mx m = Some (0, a', m')" and "al_rep a' xs"
    and "al_size a' = max (al_size a * 2) mx" and "al_del a' = al_del a"
proof
  let ?a = "a\<lparr>al_array := Some (the (al_array a) @ replicate (max (al_size a * 2) mx - al_size a) None),
              al_size := max (al_size a * 2) mx\<rparr>"
  show "zc_arraylist_expand_inner a mx m = Some (0, ?a, m')"
    using assms by (simp add: zc_arraylist_expand_inner_def al_rep_def Let_def)
  have "(al_size a - length xs) + (max (al_size a * 2) mx - al_size a) =
      max (al_size a * 2) mx - length xs"
    using assms(1) by (simp add: al_rep_def)
  then show "al_rep ?a xs"
    using assms(1) by (auto simp: al_rep_def replicate_add [symmetric])
qed simp_all

lemma store_rep:
  assumes "al_rep a xs" and "0 \<le> idx" and "nat idx < al_size a"
  obtains dead a' where "zc_arraylist_store a idx d = Some (dead, a')"
    and "al_rep a' (slots_set xs (nat idx) d)" and "al_size a' = al_size a"
    and "al_del a' = al_del a"
    and "dead = (if al_del a \<and> nat idx < length xs then somes [xs ! nat idx] else [])"
proof
  let ?arr = "xs @ replicate (al_size a - length xs) None"
  let ?dead = "if al_del a \<and> nat idx < length xs then somes [xs ! nat idx] else []"
  let ?a = "a\<lparr>al_array := Some (?arr[nat idx := d]),
              al_len := (if int (al_len a) \<le> idx then nat idx + 1 else al_len a)\<rparr>"
  have arr: "al_array a = Some ?arr" and len: "al_len a = length xs" "length xs \<le> al_size a"
    using assms(1) by (auto simp: al_rep_def)
  have "cell ?arr idx = Some (?arr ! nat idx)"
    using assms len by (simp add: cell_def)
  then show "zc_arraylist_store a idx d = Some (?dead, ?a)"
    using assms len by (auto simp: zc_arraylist_store_def arr nth_append split: option.splits)
  show "al_rep ?a (slots_set xs (nat idx) d)"
    using assms len by (auto simp: al_rep_def list_update_pad max_def)
qed simp_all

text \<open>The behaviour of \<open>zc_arraylist_set\<close> within its safe range of indices.\<close>

lemma zc_arraylist_set_rep:
  assumes "al_rep a xs" and "0 \<le> idx" and "idx < 2 * int (al_size a)"
  obtains (ok) dead a' m' where "zc_arraylist_set a idx d m = Some (0, dead, a', m')"
      and "al_rep a' (slots_set xs (nat idx) d)" and "al_del a' = al_del a"
      and "al_size a \<le> al_size a'"
      and "dead = (if al_del a \<and> nat idx < length xs then somes [xs ! nat idx] else [])"
  | (fail) m' where "zc_arraylist_set a idx d m = Some (-1, [], a\<lparr>al_array := None\<rparr>, m')"
      and "fst (alloc m) = False" and "int (al_size a) \<le> idx"
proof (cases "idx > int (al_size a) - 1")
  case False
  then have "nat idx < al_size a"
    using assms(2) by linarith
  then obtain dead a' where st: "zc_arraylist_store a idx d = Some (dead, a')"
      and a': "al_rep a' (slots_set xs (nat idx) d)" "al_size a' = al_size a" "al_del a' = al_del a"
      and dead: "dead = (if al_del a \<and> nat idx < length xs then somes [xs ! nat idx] else [])"
    using store_rep assms by metis
  have "zc_arraylist_set a idx d m = Some (0, dead, a', m)"
    using False st by (simp add: zc_arraylist_set_def)
  from ok [OF this] a' dead show ?thesis
    by simp
next
  case True
  show ?thesis
  proof (cases "alloc m")
    case (Pair b m')
    show ?thesis
    proof (cases b)
      case False
      then have "zc_arraylist_set a idx d m = Some (-1, [], a\<lparr>al_array := None\<rparr>, m')"
        using True Pair expand_inner_fail [OF assms(1)] by (simp add: zc_arraylist_set_def)
      from fail [OF this] False Pair True show ?thesis
        by simp
    next
      case b: True
      with Pair obtain a1 where ex: "zc_arraylist_expand_inner a (nat idx) m = Some (0, a1, m')"
          and a1: "al_rep a1 xs" "al_size a1 = max (al_size a * 2) (nat idx)" "al_del a1 = al_del a"
        using expand_inner_ok [OF assms(1)] by metis
      have "nat idx < al_size a1"
        using assms(2,3) a1(2) by auto
      then obtain dead a' where st: "zc_arraylist_store a1 idx d = Some (dead, a')"
          and a': "al_rep a' (slots_set xs (nat idx) d)" "al_size a' = al_size a1" "al_del a' = al_del a1"
          and dead: "dead = (if al_del a1 \<and> nat idx < length xs then somes [xs ! nat idx] else [])"
        using store_rep a1(1) assms(2) by metis
      have "zc_arraylist_set a idx d m = Some (0, dead, a', m')"
        using True ex st by (simp add: zc_arraylist_set_def)
      from ok [OF this] a' a1 dead show ?thesis
        by simp
    qed
  qed
qed

lemma zc_arraylist_set_overrun:
  assumes "al_rep a xs" and "2 * int (al_size a) \<le> idx" and "alloc m = (True, m')"
  shows "zc_arraylist_set a idx d m = None"
proof -
  obtain a1 where ex: "zc_arraylist_expand_inner a (nat idx) m = Some (0, a1, m')"
      and a1: "al_rep a1 xs" "al_size a1 = max (al_size a * 2) (nat idx)"
    using expand_inner_ok [OF assms(1,3)] by metis
  have big: "idx > int (al_size a) - 1"
    using assms(2) by linarith
  have "al_size a1 \<le> nat idx"
    using a1(2) assms(2) by auto
  then have "zc_arraylist_store a1 idx d = None"
    using a1(1) by (simp add: zc_arraylist_store_def al_rep_def cell_def)
  then show ?thesis
    using big ex by (simp add: zc_arraylist_set_def)
qed

lemma zc_arraylist_add_rep:
  assumes "al_rep a xs"
  obtains (ok) a' m' where "zc_arraylist_add a d m = Some (0, [], a', m')"
      and "al_rep a' (xs @ [d])" and "al_del a' = al_del a"
  | (fail) m' where "zc_arraylist_add a d m = Some (-1, [], a\<lparr>al_array := None\<rparr>, m')"
      and "fst (alloc m) = False"
proof -
  have len: "al_len a = length xs" and bnd: "int (length xs) < 2 * int (al_size a)"
    using assms by (auto simp: al_rep_def)
  show thesis
    by (rule zc_arraylist_set_rep [OF assms _ bnd, of d m])
      (auto simp: zc_arraylist_add_def len intro: ok fail)
qed

lemma sortadd_pos_takeWhile:
  "sortadd_pos cmp d (map Some ys) i = Some (i + length (takeWhile (\<lambda>x. cmp x d \<le> 0) ys))"
  by (induction ys arbitrary: i) auto

lemma shift_rep:
  assumes "al_rep a (map Some ys)" and "i < length ys" and "length ys < al_size a"
  obtains a' where "zc_arraylist_shift a i d = Some a'"
    and "al_rep a' (map Some (take i ys) @ [d] @ map Some (drop i ys))" and "al_del a' = al_del a"
proof
  let ?arr = "map Some ys @ replicate (al_size a - length ys) None"
  let ?new = "map Some (take i ys) @ [d] @ map Some (drop i ys)"
  let ?a = "a\<lparr>al_array := Some (?new @ replicate (al_size a - Suc (length ys)) None),
              al_len := Suc (length ys)\<rparr>"
  have arr: "al_array a = Some ?arr" "al_len a = length ys"
    using assms(1) by (auto simp: al_rep_def)
  have mv: "take (length ys - i) (drop i ?arr) = map Some (drop i ys)"
    using assms(2) by (simp add: drop_map)
  have "write_at ?arr (i + 1) (map Some (drop i ys)) =
      Some (map Some (take (Suc i) ys) @ map Some (drop i ys) @
            replicate (al_size a - Suc (length ys)) None)"
    using assms(2,3) by (simp add: write_at_def take_map)
  moreover have "(map Some (take (Suc i) ys) @ zs)[i := d] = map Some (take i ys) @ [d] @ zs" for zs
    using assms(2) by (simp add: list_update_append take_Suc_conv_app_nth)
  ultimately show "zc_arraylist_shift a i d = Some ?a"
    using assms(2,3) by (simp add: zc_arraylist_shift_def arr mv drop_map)
  show "al_rep ?a ?new"
    using assms by (auto simp: al_rep_def)
qed simp

lemma insert_inner_rep:
  assumes "al_rep a (map Some ys)" and "i < length ys"
  obtains (ok) a' m' where "zc_arraylist_insert_inner a i d m = Some (0, a', m')"
      and "al_rep a' (map Some (take i ys) @ [d] @ map Some (drop i ys))" and "al_del a' = al_del a"
  | (fail) m' where "zc_arraylist_insert_inner a i d m = Some (-1, a\<lparr>al_array := None\<rparr>, m')"
      and "fst (alloc m) = False"
proof -
  have arr: "al_array a = Some (map Some ys @ replicate (al_size a - length ys) None)"
      "al_len a = length ys" "length ys \<le> al_size a" "0 < al_size a"
    using assms(1) by (auto simp: al_rep_def)
  have old: "cell (map Some ys @ replicate (al_size a - length ys) None) (int i) = Some (Some (ys ! i))"
    using assms(2) by (simp add: cell_def nth_append)
  show thesis
  proof (cases "length ys < al_size a")
    case True
    then obtain a' where "zc_arraylist_shift a i d = Some a'"
        and a': "al_rep a' (map Some (take i ys) @ [d] @ map Some (drop i ys))" "al_del a' = al_del a"
      using shift_rep [OF assms] by metis
    then have "zc_arraylist_insert_inner a i d m = Some (0, a', m)"
      using True by (simp add: zc_arraylist_insert_inner_def arr old)
    from ok [OF this a'] show thesis .
  next
    case False
    then have full: "length ys = al_size a"
      using arr by simp
    obtain b m' where al: "alloc m = (b, m')"
      by (cases "alloc m")
    show thesis
    proof (cases b)
      case False
      then have "zc_arraylist_insert_inner a i d m = Some (-1, a\<lparr>al_array := None\<rparr>, m')"
        using full expand_inner_fail [OF assms(1)] al assms(2)
        by (simp add: zc_arraylist_insert_inner_def arr)
      from fail [OF this] al False show thesis by simp
    next
      case b: True
      with al obtain a1 where ex: "zc_arraylist_expand_inner a 0 m = Some (0, a1, m')"
          and a1: "al_rep a1 (map Some ys)" "al_size a1 = max (al_size a * 2) 0" "al_del a1 = al_del a"
        using expand_inner_ok [OF assms(1)] by metis
      have "length ys < al_size a1"
        using a1(2) arr by simp
      then obtain a' where "zc_arraylist_shift a1 i d = Some a'"
          and a': "al_rep a' (map Some (take i ys) @ [d] @ map Some (drop i ys))" "al_del a' = al_del a1"
        using shift_rep [OF a1(1) assms(2)] by metis
      then have "zc_arraylist_insert_inner a i d m = Some (0, a', m')"
        using full ex assms(2) by (simp add: zc_arraylist_insert_inner_def arr)
      from ok [OF this] a' a1(3) show thesis by simp
    qed
  qed
qed

text \<open>\<open>zc_arraylist_sortadd\<close> puts the element after every element that does not compare greater.\<close>

definition insert_after :: "('a \<Rightarrow> 'a \<Rightarrow> int) \<Rightarrow> 'a \<Rightarrow> 'a list \<Rightarrow> 'a list" where
  "insert_after cmp d ys =
     takeWhile (\<lambda>x. cmp x d \<le> 0) ys @ d # dropWhile (\<lambda>x. cmp x d \<le> 0) ys"

lemma insert_after_sorted:
  assumes "\<And>x. cmp x d > 0 \<longleftrightarrow> key d < (key x :: 'b :: linorder)" and "sorted (map key ys)"
  shows "sorted (map key (insert_after cmp d ys))"
proof -
  have le: "(cmp x d \<le> 0) = (key x \<le> key d)" for x
    using assms(1) [of x] by (simp add: not_less [symmetric])
  show ?thesis
    using assms(2)
  proof (induction ys)
    case (Cons y ys)
    then show ?case
      by (auto simp: insert_after_def le dest: set_takeWhileD set_dropWhileD)
  qed (simp add: insert_after_def)
qed

lemma set_insert_after [simp]: "set (insert_after cmp d ys) = insert d (set ys)"
  by (induction ys) (auto simp: insert_after_def)

lemma length_insert_after [simp]: "length (insert_after cmp d ys) = Suc (length ys)"
  by (induction ys) (auto simp: insert_after_def)

lemma sortadd_rep:
  assumes "al_rep a (map Some ys)"
  obtains (ok) a' m' where "zc_arraylist_sortadd a cmp d m = Some (0, [], a', m')"
      and "al_rep a' (map Some (insert_after cmp d ys))" and "al_del a' = al_del a"
  | (fail) m' where "zc_arraylist_sortadd a cmp d m = Some (-1, [], a\<lparr>al_array := None\<rparr>, m')"
      and "fst (alloc m) = False"
proof -
  let ?P = "\<lambda>x. cmp x d \<le> 0"
  let ?i = "length (takeWhile ?P ys)"
  have arr: "al_array a = Some (map Some ys @ replicate (al_size a - length ys) None)"
      "al_len a = length ys" "length ys \<le> al_size a"
    using assms by (auto simp: al_rep_def)
  have ins: "insert_after cmp d ys = take ?i ys @ d # drop ?i ys"
    by (simp add: insert_after_def takeWhile_eq_take [symmetric] dropWhile_eq_drop [symmetric])
  show thesis
  proof (cases "?i = length ys")
    case True
    then have eq: "zc_arraylist_sortadd a cmp d m = zc_arraylist_add a (Some d) m"
      using arr(3) by (simp add: zc_arraylist_sortadd_def arr(1,2) sortadd_pos_takeWhile)
    show thesis
      by (rule zc_arraylist_add_rep [OF assms, of "Some d" m]) (auto simp: eq ins True intro: ok fail)
  next
    case False
    then have lt: "?i < length ys"
      using length_takeWhile_le [of ?P ys] by linarith
    show thesis
    proof (rule insert_inner_rep [OF assms lt, of "Some d" m])
      fix a' m'
      assume "zc_arraylist_insert_inner a ?i (Some d) m = Some (0, a', m')"
        and a': "al_rep a' (map Some (take ?i ys) @ [Some d] @ map Some (drop ?i ys))" "al_del a' = al_del a"
      then have "zc_arraylist_sortadd a cmp d m = Some (0, [], a', m')"
        using False arr(3) by (simp add: zc_arraylist_sortadd_def arr(1,2) sortadd_pos_takeWhile)
      from ok [OF this] a' show thesis by (simp add: ins)
    next
      fix m'
      assume "zc_arraylist_insert_inner a ?i (Some d) m = Some (-1, a\<lparr>al_array := None\<rparr>, m')"
        and al: "fst (alloc m) = False"
      then have "zc_arraylist_sortadd a cmp d m = Some (-1, [], a\<lparr>al_array := None\<rparr>, m')"
        using False arr(3) by (simp add: zc_arraylist_sortadd_def arr(1,2) sortadd_pos_takeWhile)
      from fail [OF this al] show thesis .
    qed
  qed
qed

subsection \<open>The contract of a list that is only appended to\<close>

text \<open>
  The loops of the library that fill a list (specs of a format, rules of a category) call
  \<open>add\<close> once per element and stop at the first failure.
\<close>

fun add_each :: "('l \<Rightarrow> 'a \<Rightarrow> mem \<Rightarrow> (int \<times> 'a list \<times> 'l \<times> mem) option) \<Rightarrow> 'l \<Rightarrow> 'a list \<Rightarrow> mem \<Rightarrow>
    (int \<times> 'l \<times> mem) option" where
  "add_each add l [] m = Some (0, l, m)"
| "add_each add l (x # xs) m = do {
     (rc, dead, l, m) \<leftarrow> add l x m;
     if rc \<noteq> 0 then Some (rc, l, m) else add_each add l xs m
   }"

locale append_store =
  fixes add :: "'l \<Rightarrow> 'a \<Rightarrow> mem \<Rightarrow> (int \<times> 'a list \<times> 'l \<times> mem) option"
    and rep :: "'l \<Rightarrow> 'a list \<Rightarrow> bool"
  assumes add_total: "rep l xs \<Longrightarrow> \<exists>rc dead l' m'. add l x m = Some (rc, dead, l', m')"
    and add_ok: "rep l xs \<Longrightarrow> add l x m = Some (0, dead, l', m') \<Longrightarrow> rep l' (xs @ [x]) \<and> dead = []"
    and add_err: "rep l xs \<Longrightarrow> add l x m = Some (rc, dead, l', m') \<Longrightarrow> rc \<noteq> 0 \<Longrightarrow> rc = -1 \<and> False \<in> set m"
    and add_mem: "rep l xs \<Longrightarrow> add l x m = Some (rc, dead, l', m') \<Longrightarrow> set m' \<subseteq> set m"
begin

lemma add_each_total: "rep l xs \<Longrightarrow> \<exists>rc l' m'. add_each add l ys m = Some (rc, l', m')"
proof (induction ys arbitrary: l xs m)
  case (Cons y ys)
  then obtain rc dead l1 m1 where ad: "add l y m = Some (rc, dead, l1, m1)"
    using add_total by blast
  show ?case
  proof (cases "rc = 0")
    case True
    with ad Cons.prems add_ok have "rep l1 (xs @ [y])" by blast
    then show ?thesis using Cons.IH ad True by simp
  qed (simp add: ad)
qed simp

lemma add_each_ok: "rep l xs \<Longrightarrow> add_each add l ys m = Some (0, l', m') \<Longrightarrow> rep l' (xs @ ys)"
proof (induction ys arbitrary: l xs m)
  case (Cons y ys)
  then obtain dead l1 m1 where ad: "add l y m = Some (0, dead, l1, m1)"
      and rest: "add_each add l1 ys m1 = Some (0, l', m')"
    by (auto simp: Option.bind_eq_Some_conv split: if_splits)
  from add_ok [OF Cons.prems(1) ad] have "rep l1 (xs @ [y])" by simp
  from Cons.IH [OF this rest] show ?case by simp
qed simp

lemma add_each_err:
  "rep l xs \<Longrightarrow> add_each add l ys m = Some (rc, l', m') \<Longrightarrow> rc \<noteq> 0 \<Longrightarrow> rc = -1 \<and> False \<in> set m"
proof (induction ys arbitrary: l xs m)
  case (Cons y ys)
  then obtain rc1 dead l1 m1 where ad: "add l y m = Some (rc1, dead, l1, m1)"
      and rest: "if rc1 \<noteq> 0 then Some (rc1, l1, m1) = Some (rc, l', m')
                 else add_each add l1 ys m1 = Some (rc, l', m')"
    by (auto simp: Option.bind_eq_Some_conv split: if_splits)
  show ?case
  proof (cases "rc1 = 0")
    case True
    with ad Cons.prems(1) add_ok have "rep l1 (xs @ [y])" by blast
    then show ?thesis
      using Cons.IH Cons.prems(3) rest True add_mem [OF Cons.prems(1) ad] by auto
  next
    case False
    then show ?thesis using rest add_err [OF Cons.prems(1) ad] by simp
  qed
qed simp

lemma add_each_no_failure:
  "rep l xs \<Longrightarrow> False \<notin> set m \<Longrightarrow> \<exists>l' m'. add_each add l ys m = Some (0, l', m') \<and> rep l' (xs @ ys)"
  using add_each_total add_each_ok add_each_err by metis

end

lemma alloc_suffix: "set (snd (alloc m)) \<subseteq> set m"
  by (cases m) auto

lemma alloc_False: "fst (alloc m) = False \<Longrightarrow> False \<in> set m"
  by (cases m) auto

lemma set_mem_suffix: "zc_arraylist_set a i d m = Some (rc, dead, a', m') \<Longrightarrow> set m' \<subseteq> set m"
  using alloc_suffix [of m]
  by (auto simp: zc_arraylist_set_def zc_arraylist_expand_inner_def Option.bind_eq_Some_conv Let_def
      split: if_splits prod.splits option.splits)

text \<open>An operation that succeeds does so in the same way when no allocation fails.\<close>

lemma arraylist_new_success: "zc_arraylist_new d m = (Some a, m') \<Longrightarrow> zc_arraylist_new d [] = (Some a, [])"
  by (auto simp: zc_arraylist_new_def Let_def split: if_splits prod.splits)

lemma expand_success: "zc_arraylist_expand_inner a n m = Some (0, a', m') \<Longrightarrow> zc_arraylist_expand_inner a n [] = Some (0, a', [])"
  by (auto simp: zc_arraylist_expand_inner_def Let_def split: if_splits prod.splits option.splits)

lemma set_success: "zc_arraylist_set a idx d m = Some (0, dead, a', m') \<Longrightarrow> zc_arraylist_set a idx d [] = Some (0, dead, a', [])"
  by (auto simp: zc_arraylist_set_def bind_eq_Some_conv dest: expand_success split: if_splits prod.splits)

definition al_elems :: "'a zc_arraylist \<Rightarrow> 'a list \<Rightarrow> bool" where
  "al_elems a ys \<longleftrightarrow> al_rep a (map Some ys)"

lemma foreach_elems: "al_elems a ys \<Longrightarrow> zc_arraylist_foreach a = Some (map Some ys)"
  by (auto simp: zc_arraylist_foreach_def al_elems_def al_rep_def)

lemma al_elems_unique: "al_elems a xs \<Longrightarrow> al_elems a ys \<Longrightarrow> xs = ys"
  by (auto dest!: foreach_elems simp: inj_map_eq_map)

definition zc_arraylist_put ::
  "'a zc_arraylist \<Rightarrow> 'a \<Rightarrow> mem \<Rightarrow> (int \<times> 'a list \<times> 'a zc_arraylist \<times> mem) option" where
  "zc_arraylist_put a x m = zc_arraylist_add a (Some x) m"

interpretation al: append_store zc_arraylist_put al_elems
proof
  fix a :: "'a zc_arraylist" and ys x m
  assume rep: "al_elems a ys"
  then have rep': "al_rep a (map Some ys)" by (simp add: al_elems_def)
  show "\<exists>rc dead a' m'. zc_arraylist_put a x m = Some (rc, dead, a', m')"
    unfolding zc_arraylist_put_def by (rule zc_arraylist_add_rep [OF rep', of "Some x" m]) auto
  show "al_elems a' (ys @ [x]) \<and> dead = []" if "zc_arraylist_put a x m = Some (0, dead, a', m')" for dead a' m'
    using that unfolding zc_arraylist_put_def al_elems_def
    by (cases rule: zc_arraylist_add_rep [OF rep', of "Some x" m]) auto
  show "rc = -1 \<and> False \<in> set m" if "zc_arraylist_put a x m = Some (rc, dead, a', m')" "rc \<noteq> 0" for rc dead a' m'
    using that unfolding zc_arraylist_put_def
    by (cases rule: zc_arraylist_add_rep [OF rep', of "Some x" m]) (auto simp: alloc_False)
  show "set m' \<subseteq> set m" if "zc_arraylist_put a x m = Some (rc, dead, a', m')" for rc dead a' m'
    using that set_mem_suffix unfolding zc_arraylist_put_def zc_arraylist_add_def by blast
qed

subsection \<open>Properties\<close>

text \<open>C24: for every index below twice the current capacity, \<open>zc_arraylist_set\<close> stays inside its
  block; on success the list holds the new pointer at that index and is otherwise unchanged (gaps
  are null), and the replaced element is handed to \<open>del\<close> exactly when there is one; the only
  failure is a failed \<open>realloc\<close>, which loses the block.\<close>

theorem zc_arraylist_set_correct:
  assumes "al_inv a" and "0 \<le> idx" and "idx < 2 * int (al_size a)"
  shows "\<exists>rc dead a' m'. zc_arraylist_set a idx d m = Some (rc, dead, a', m') \<and>
    (rc = 0 \<longrightarrow> al_inv a' \<and> al_slots a' = slots_set (al_slots a) (nat idx) d \<and>
       dead = (if al_del a \<and> nat idx < al_len a then somes [al_slots a ! nat idx] else [])) \<and>
    (rc \<noteq> 0 \<longrightarrow> rc = -1 \<and> al_array a' = None \<and> fst (alloc m) = False)"
proof -
  have rep: "al_rep a (al_slots a)" and len: "al_len a = length (al_slots a)"
    using assms(1) by (auto simp: al_inv_iff_rep al_rep_def)
  show ?thesis
    by (rule zc_arraylist_set_rep [OF rep assms(2,3), of d m])
      (auto simp: len al_rep_slots intro: al_rep_inv)
qed

theorem zc_arraylist_set_correct_witness:
  "al_inv \<lparr>al_array = Some [Some (7::nat), None], al_len = 1, al_size = 2, al_del = True\<rparr> \<and>
   (\<exists>rc dead a' m'. zc_arraylist_set
      \<lparr>al_array = Some [Some (7::nat), None], al_len = 1, al_size = 2, al_del = True\<rparr> 3 (Some 9) [] =
      Some (rc, dead, a', m') \<and> (rc = 0 \<longrightarrow> al_slots a' = [Some 7, None, None, Some 9]))"
proof -
  let ?a = "\<lparr>al_array = Some [Some (7::nat), None], al_len = 1, al_size = 2, al_del = True\<rparr>"
  have inv: "al_inv ?a" by (simp add: al_inv_def)
  have "slots_set (al_slots ?a) 3 (Some 9) = [Some 7, None, None, Some 9]"
    by (simp add: slots_set_def al_slots_def numeral_eq_Suc)
  with zc_arraylist_set_correct [OF inv, of 3 "Some 9" "[]"] inv show ?thesis
    by fastforce
qed

text \<open>an index of at least twice the capacity makes \<open>zc_arraylist_set\<close> write outside the block
  it has just enlarged: the expansion asks for \<open>idx\<close> slots where \<open>idx + 1\<close> are needed.\<close>

theorem zc_arraylist_set_overruns_block:
  assumes "al_inv a" and "2 * int (al_size a) \<le> idx" and "fst (alloc m)"
  shows "zc_arraylist_set a idx d m = None"
  using zc_arraylist_set_overrun [of a "al_slots a" idx m "snd (alloc m)" d] assms
  by (cases "alloc m") (simp add: al_inv_iff_rep)

theorem zc_arraylist_set_overruns_block_witness:
  "al_inv (the (fst (zc_arraylist_new True [])) :: nat zc_arraylist) \<and>
   zc_arraylist_set (the (fst (zc_arraylist_new True []))) 64 (Some (5::nat)) [] = None"
proof -
  let ?a = "the (fst (zc_arraylist_new True [])) :: nat zc_arraylist"
  have "zc_arraylist_new True [] = (Some ?a, [])"
    by (simp add: zc_arraylist_new_def)
  then have "al_rep ?a []" "al_size ?a = 32"
    using zc_arraylist_new_rep by blast+
  then show ?thesis
    using zc_arraylist_set_overruns_block [of ?a 64 "[]" "Some 5"] al_rep_inv [of ?a "[]"] by simp
qed

text \<open>C25: \<open>zc_arraylist_sortadd\<close> on a list without null slots that is sorted by a key keeps it
  sorted, adds exactly the new element (after the elements with an equal key), and calls \<open>del\<close>
  on nothing; it fails only when \<open>realloc\<close> does.\<close>

theorem zc_arraylist_sortadd_sorted:
  assumes "al_elems a ys" and "sorted (map key ys)"
    and "\<And>x y. cmp x y > 0 \<longleftrightarrow> key y < (key x :: 'b :: linorder)"
  shows "\<exists>rc a' m'. zc_arraylist_sortadd a cmp d m = Some (rc, [], a', m') \<and>
    (rc = 0 \<longrightarrow> (\<exists>ys'. al_elems a' ys' \<and> sorted (map key ys') \<and>
        length ys' = Suc (length ys) \<and> set ys' = insert d (set ys) \<and>
        ys' = insert_after cmp d ys)) \<and>
    (rc \<noteq> 0 \<longrightarrow> rc = -1 \<and> fst (alloc m) = False)"
proof -
  have rep: "al_rep a (map Some ys)" using assms(1) by (simp add: al_elems_def)
  have "sorted (map key (insert_after cmp d ys))"
    using insert_after_sorted [of cmp d key ys] assms(2,3) by blast
  then show ?thesis
    by (cases rule: sortadd_rep [OF rep, of cmp d m]) (auto simp: al_elems_def)
qed

theorem zc_arraylist_sortadd_sorted_witness:
  "\<exists>rc a' m'. zc_arraylist_sortadd
     \<lparr>al_array = Some [Some (3::nat), Some 8], al_len = 2, al_size = 2, al_del = False\<rparr>
     (\<lambda>x y. if x > y then 1 else 0) 5 [] = Some (rc, [], a', m') \<and>
     (rc = 0 \<longrightarrow> al_elems a' [3, 5, 8])"
proof -
  let ?a = "\<lparr>al_array = Some [Some (3::nat), Some 8], al_len = 2, al_size = 2, al_del = False\<rparr>"
  have "al_elems ?a [3, 8]" by (simp add: al_elems_def al_rep_def)
  moreover have "sorted (map id [3, 8 :: nat])" by simp
  moreover have "(if x > y then 1 else 0) > (0 :: int) \<longleftrightarrow> id y < id x" for x y :: nat by simp
  ultimately show ?thesis
    using zc_arraylist_sortadd_sorted [of ?a "[3, 8]" id "\<lambda>x y. if x > y then 1 else 0" 5 "[]"]
    by (fastforce simp: insert_after_def)
qed

end
