(* ===== verification/Zc_Hashtable.thy ===== *)
theory Zc_Hashtable
  imports Zlog_Prelude "HOL-Library.Multiset"
begin

text \<open>
  The chained hash table of \<^verbatim>\<open>zc_hashtable.c\<close> and \<^verbatim>\<open>zc_hashtable.h\<close>, with its entries in an
  explicit store: an entry is a node with \<open>prev\<close> and \<open>next\<close> pointers (addresses are \<open>nat\<close>s),
  a bucket is a pointer to the first node of a doubly linked list. Walks along a chain are
  \<^theory_text>\<open>partial_function (option)\<close>s: \<open>None\<close> is an access through a dangling pointer, or a cycle.
  The calls of the \<open>key_del\<close> and \<open>value_del\<close> callbacks are returned as a list of events.
  The locale \<open>hash_key\<close> states what the table needs of its two callbacks; the operations are proved
  correct in it once and it is interpreted on the string hash and comparison of the same file.
\<close>

record ('k, 'v) ht_entry =
  he_hash_key :: "32 word"
  he_key :: 'k
  he_value :: 'v
  he_prev :: "nat option"
  he_next :: "nat option"

type_synonym ('k, 'v) ht_store = "nat \<rightharpoonup> ('k, 'v) ht_entry"

record ('k, 'v) zc_hashtable =
  ht_nelem :: nat
  ht_tab :: "nat option list"
  ht_tab_size :: nat
  ht_hash :: "'k \<Rightarrow> 32 word"
  ht_equal :: "'k \<Rightarrow> 'k \<Rightarrow> bool"
  ht_key_del :: bool
  ht_value_del :: bool
  ht_store :: "('k, 'v) ht_store"
  ht_brk :: nat

datatype ('k, 'v) ht_del = DelKey 'k | DelValue 'v

definition zc_hashtable_new ::
  "nat \<Rightarrow> ('k \<Rightarrow> 32 word) \<Rightarrow> ('k \<Rightarrow> 'k \<Rightarrow> bool) \<Rightarrow> bool \<Rightarrow> bool \<Rightarrow> mem \<Rightarrow> ('k, 'v) zc_hashtable option \<times> mem" where
  "zc_hashtable_new a_size hash equal key_del value_del m =
     (let (ok, m) = alloc m in
      if \<not> ok then (None, m)
      else let (ok, m) = alloc m in
        if \<not> ok then (None, m)
        else (Some \<lparr>ht_nelem = 0, ht_tab = replicate a_size None, ht_tab_size = a_size,
                    ht_hash = hash, ht_equal = equal, ht_key_del = key_del,
                    ht_value_del = value_del, ht_store = Map.empty, ht_brk = 0\<rparr>, m))"

text \<open>The callbacks for one entry.\<close>

definition ht_dels :: "('k, 'v) zc_hashtable \<Rightarrow> ('k, 'v) ht_entry \<Rightarrow> ('k, 'v) ht_del list" where
  "ht_dels t e = (if ht_key_del t then [DelKey (he_key e)] else []) @
     (if ht_value_del t then [DelValue (he_value e)] else [])"

text \<open>Freeing the nodes of one chain (the inner loop of \<open>zc_hashtable_del\<close> and \<open>zc_hashtable_clean\<close>).\<close>

partial_function (option) ht_free_chain ::
  "('k, 'v) zc_hashtable \<Rightarrow> ('k, 'v) ht_store \<Rightarrow> ('k, 'v) ht_del list \<Rightarrow> nat option \<Rightarrow>
   (('k, 'v) ht_store \<times> ('k, 'v) ht_del list) option" where
  "ht_free_chain t h acc p =
     (case p of
        None \<Rightarrow> Some (h, acc)
      | Some a \<Rightarrow>
          (case h a of
             None \<Rightarrow> None
           | Some e \<Rightarrow> ht_free_chain t (h(a := None)) (acc @ ht_dels t e) (he_next e)))"

fun ht_free_chains ::
  "('k, 'v) zc_hashtable \<Rightarrow> ('k, 'v) ht_store \<Rightarrow> ('k, 'v) ht_del list \<Rightarrow> nat option list \<Rightarrow>
   (('k, 'v) ht_store \<times> ('k, 'v) ht_del list) option" where
  "ht_free_chains t h acc [] = Some (h, acc)"
| "ht_free_chains t h acc (p # ps) = do {
     (h, acc) \<leftarrow> ht_free_chain t h acc p;
     ht_free_chains t h acc ps
   }"

text \<open>\<open>zc_hashtable_del\<close>: the store that is left and the callbacks made.\<close>

definition zc_hashtable_del ::
  "('k, 'v) zc_hashtable \<Rightarrow> (('k, 'v) ht_store \<times> ('k, 'v) ht_del list) option" where
  "zc_hashtable_del t =
     (if length (ht_tab t) < ht_tab_size t then None
      else ht_free_chains t (ht_store t) [] (take (ht_tab_size t) (ht_tab t)))"

definition zc_hashtable_clean ::
  "('k, 'v) zc_hashtable \<Rightarrow> (('k, 'v) zc_hashtable \<times> ('k, 'v) ht_del list) option" where
  "zc_hashtable_clean t =
     (if length (ht_tab t) < ht_tab_size t then None
      else do {
        (h, dels) \<leftarrow> ht_free_chains t (ht_store t) [] (take (ht_tab_size t) (ht_tab t));
        Some (t\<lparr>ht_store := h,
                ht_tab := replicate (ht_tab_size t) None @ drop (ht_tab_size t) (ht_tab t),
                ht_nelem := 0\<rparr>, dels)
      })"

text \<open>
  Linking node \<open>a\<close> in front of bucket \<open>j\<close>: the four lines that \<open>zc_hashtable_rehash\<close> and
  \<open>zc_hashtable_put\<close> share.
\<close>

definition ht_link_front ::
  "('k, 'v) ht_store \<Rightarrow> nat option list \<Rightarrow> nat \<Rightarrow> nat \<Rightarrow> (('k, 'v) ht_store \<times> nat option list) option" where
  "ht_link_front h tab j a = do {
     first \<leftarrow> cell tab (int j);
     h \<leftarrow> (case first of
            None \<Rightarrow> Some h
          | Some b \<Rightarrow> do {
              eb \<leftarrow> h b;
              let h = h(b \<mapsto> eb\<lparr>he_prev := Some a\<rparr>);
              ea \<leftarrow> h a;
              Some (h(a \<mapsto> ea\<lparr>he_next := Some b\<rparr>))
            });
     Some (h, tab[j := Some a])
   }"

partial_function (option) ht_rehash_chain ::
  "nat \<Rightarrow> ('k, 'v) ht_store \<Rightarrow> nat option list \<Rightarrow> nat option \<Rightarrow> (('k, 'v) ht_store \<times> nat option list) option" where
  "ht_rehash_chain n h tab p =
     (case p of
        None \<Rightarrow> Some (h, tab)
      | Some a \<Rightarrow>
          (case h a of
             None \<Rightarrow> None
           | Some e \<Rightarrow>
               Option.bind
                 (ht_link_front (h(a \<mapsto> e\<lparr>he_next := None, he_prev := None\<rparr>)) tab
                    (unat (he_hash_key e) mod n) a)
                 (\<lambda>(h, tab). ht_rehash_chain n h tab (he_next e))))"

fun ht_rehash_chains ::
  "nat \<Rightarrow> ('k, 'v) ht_store \<Rightarrow> nat option list \<Rightarrow> nat option list \<Rightarrow> (('k, 'v) ht_store \<times> nat option list) option" where
  "ht_rehash_chains n h tab [] = Some (h, tab)"
| "ht_rehash_chains n h tab (p # ps) = do {
     (h, tab) \<leftarrow> ht_rehash_chain n h tab p;
     ht_rehash_chains n h tab ps
   }"

definition zc_hashtable_rehash ::
  "('k, 'v) zc_hashtable \<Rightarrow> mem \<Rightarrow> (int \<times> ('k, 'v) zc_hashtable \<times> mem) option" where
  "zc_hashtable_rehash t m =
     (let tab_size = 2 * ht_tab_size t; (ok, m) = alloc m in
      if \<not> ok then Some (-1, t, m)
      else if length (ht_tab t) < ht_tab_size t then None
      else do {
        (h, tab) \<leftarrow> ht_rehash_chains tab_size (ht_store t) (replicate tab_size None)
                     (take (ht_tab_size t) (ht_tab t));
        Some (0, t\<lparr>ht_store := h, ht_tab := tab, ht_tab_size := tab_size\<rparr>, m)
      })"

text \<open>The search loop along a chain.\<close>

partial_function (option) ht_find ::
  "('k, 'v) ht_store \<Rightarrow> ('k \<Rightarrow> 'k \<Rightarrow> bool) \<Rightarrow> 'k \<Rightarrow> nat option \<Rightarrow> nat option option" where
  "ht_find h equal k p =
     (case p of
        None \<Rightarrow> Some None
      | Some a \<Rightarrow>
          (case h a of
             None \<Rightarrow> None
           | Some e \<Rightarrow> if equal k (he_key e) then Some (Some a) else ht_find h equal k (he_next e)))"

definition zc_hashtable_get_entry :: "('k, 'v) zc_hashtable \<Rightarrow> 'k \<Rightarrow> nat option option" where
  "zc_hashtable_get_entry t k = do {
     p \<leftarrow> cell (ht_tab t) (int (unat (ht_hash t k) mod ht_tab_size t));
     ht_find (ht_store t) (ht_equal t) k p
   }"

definition zc_hashtable_get :: "('k, 'v) zc_hashtable \<Rightarrow> 'k \<Rightarrow> 'v option option" where
  "zc_hashtable_get t k = do {
     p \<leftarrow> cell (ht_tab t) (int (unat (ht_hash t k) mod ht_tab_size t));
     r \<leftarrow> ht_find (ht_store t) (ht_equal t) k p;
     (case r of
        None \<Rightarrow> Some None
      | Some a \<Rightarrow> do { e \<leftarrow> ht_store t a; Some (Some (he_value e)) })
   }"

text \<open>
  Adding a fresh entry, after any rehash. \<open>ht_brk\<close> is the address the next \<open>calloc\<close> of a node
  returns.
\<close>

definition ht_new_entry ::
  "('k, 'v) zc_hashtable \<Rightarrow> 'k \<Rightarrow> 'v \<Rightarrow> mem \<Rightarrow> (int \<times> ('k, 'v) zc_hashtable \<times> mem) option" where
  "ht_new_entry t k v m =
     (let (ok, m) = alloc m in
      if \<not> ok then Some (-1, t, m)
      else let a = ht_brk t;
               e = \<lparr>he_hash_key = ht_hash t k, he_key = k, he_value = v, he_prev = None, he_next = None\<rparr>
        in do {
          (h, tab) \<leftarrow> ht_link_front ((ht_store t)(a \<mapsto> e)) (ht_tab t)
                        (unat (he_hash_key e) mod ht_tab_size t) a;
          Some (0, t\<lparr>ht_store := h, ht_tab := tab, ht_nelem := ht_nelem t + 1, ht_brk := a + 1\<rparr>, m)
        })"

text \<open>
  The load test \<open>nelem > tab_size * 1.3\<close> is in double arithmetic; for sizes below \<open>2 ^ 50\<close> it is
  the comparison of integers written here.
\<close>

definition zc_hashtable_put ::
  "('k, 'v) zc_hashtable \<Rightarrow> 'k \<Rightarrow> 'v \<Rightarrow> mem \<Rightarrow>
   (int \<times> ('k, 'v) ht_del list \<times> ('k, 'v) zc_hashtable \<times> mem) option" where
  "zc_hashtable_put t k v m = do {
     p \<leftarrow> cell (ht_tab t) (int (unat (ht_hash t k) mod ht_tab_size t));
     r \<leftarrow> ht_find (ht_store t) (ht_equal t) k p;
     (case r of
        Some a \<Rightarrow> do {
          e \<leftarrow> ht_store t a;
          Some (0, ht_dels t e, t\<lparr>ht_store := (ht_store t)(a \<mapsto> e\<lparr>he_key := k, he_value := v\<rparr>)\<rparr>, m)
        }
      | None \<Rightarrow> do {
          (rc, t, m) \<leftarrow> (if 10 * ht_nelem t > 13 * ht_tab_size t then zc_hashtable_rehash t m
                          else Some (0, t, m));
          if rc \<noteq> 0 then Some (-1, [], t, m)
          else do {
            (rc, t, m) \<leftarrow> ht_new_entry t k v m;
            Some (rc, [], t, m)
          }
        })
   }"

text \<open>Unlinking and freeing node \<open>a\<close>, with its contents \<open>e\<close>.\<close>

definition ht_unlink ::
  "('k, 'v) zc_hashtable \<Rightarrow> nat \<Rightarrow> ('k, 'v) ht_entry \<Rightarrow> (('k, 'v) ht_store \<times> nat option list) option" where
  "ht_unlink t a e = do {
     h \<leftarrow> (case he_next e of
            None \<Rightarrow> Some (ht_store t)
          | Some c \<Rightarrow> do { ec \<leftarrow> ht_store t c; Some ((ht_store t)(c \<mapsto> ec\<lparr>he_prev := he_prev e\<rparr>)) });
     (h, tab) \<leftarrow> (case he_prev e of
            Some b \<Rightarrow> do { eb \<leftarrow> h b; Some (h(b \<mapsto> eb\<lparr>he_next := he_next e\<rparr>), ht_tab t) }
          | None \<Rightarrow> do {
              _ \<leftarrow> cell (ht_tab t) (int (unat (he_hash_key e) mod ht_tab_size t));
              Some (h, (ht_tab t)[unat (he_hash_key e) mod ht_tab_size t := he_next e])
            });
     Some (h(a := None), tab)
   }"

definition zc_hashtable_remove ::
  "('k, 'v) zc_hashtable \<Rightarrow> 'k \<Rightarrow> (('k, 'v) ht_del list \<times> ('k, 'v) zc_hashtable) option" where
  "zc_hashtable_remove t k = do {
     p \<leftarrow> cell (ht_tab t) (int (unat (ht_hash t k) mod ht_tab_size t));
     r \<leftarrow> ht_find (ht_store t) (ht_equal t) k p;
     (case r of
        None \<Rightarrow> Some ([], t)
      | Some a \<Rightarrow> do {
          e \<leftarrow> ht_store t a;
          (h, tab) \<leftarrow> ht_unlink t a e;
          Some (ht_dels t e, t\<lparr>ht_store := h, ht_tab := tab, ht_nelem := ht_nelem t - 1\<rparr>)
        })
   }"

text \<open>Iteration: the first node of the first non-empty bucket from index \<open>j\<close> on.\<close>

definition ht_first_from :: "('k, 'v) zc_hashtable \<Rightarrow> nat \<Rightarrow> nat option option" where
  "ht_first_from t j =
     (if length (ht_tab t) < ht_tab_size t then None
      else Some (case somes (drop j (take (ht_tab_size t) (ht_tab t))) of [] \<Rightarrow> None | a # _ \<Rightarrow> Some a))"

definition zc_hashtable_begin :: "('k, 'v) zc_hashtable \<Rightarrow> nat option option" where
  "zc_hashtable_begin t = ht_first_from t 0"

definition zc_hashtable_next :: "('k, 'v) zc_hashtable \<Rightarrow> nat \<Rightarrow> nat option option" where
  "zc_hashtable_next t a = do {
     e \<leftarrow> ht_store t a;
     (case he_next e of
        Some b \<Rightarrow> Some (Some b)
      | None \<Rightarrow> ht_first_from t (unat (he_hash_key e) mod ht_tab_size t + 1))
   }"

text \<open>The macro \<open>zc_hashtable_foreach\<close>: the addresses of the entries its body is run on.\<close>

partial_function (option) ht_foreach_from ::
  "('k, 'v) zc_hashtable \<Rightarrow> nat list \<Rightarrow> nat option \<Rightarrow> nat list option" where
  "ht_foreach_from t acc p =
     (case p of
        None \<Rightarrow> Some acc
      | Some a \<Rightarrow> Option.bind (zc_hashtable_next t a) (ht_foreach_from t (acc @ [a])))"

declare ht_free_chain.simps [code] ht_rehash_chain.simps [code] ht_find.simps [code] ht_foreach_from.simps [code]

definition zc_hashtable_foreach :: "('k, 'v) zc_hashtable \<Rightarrow> nat list option" where
  "zc_hashtable_foreach t = do { p \<leftarrow> zc_hashtable_begin t; ht_foreach_from t [] p }"

text \<open>The string callbacks. A \<open>char\<close> is signed, so it is sign-extended before it is added.\<close>

definition schar :: "char \<Rightarrow> 32 word" where
  "schar c = (let n = of_char c :: int in word_of_int (if n < 128 then n else n - 256))"

fun str_hash_loop :: "32 word \<Rightarrow> string \<Rightarrow> 32 word" where
  "str_hash_loop h [] = h"
| "str_hash_loop h (c # cs) = str_hash_loop ((push_bit 5 h + h) + schar c) cs"

definition zc_hashtable_str_hash :: "string \<Rightarrow> 32 word" where
  "zc_hashtable_str_hash str = str_hash_loop 5381 str"

definition zc_hashtable_str_equal :: "string \<Rightarrow> string \<Rightarrow> bool" where
  "zc_hashtable_str_equal key1 key2 \<longleftrightarrow> key1 = key2"

subsection \<open>Doubly linked chains\<close>

text \<open>
  \<open>dseg h pv p as pv' p'\<close>: from pointer \<open>p\<close> whose predecessor is \<open>pv\<close>, following \<open>next\<close> runs
  through the nodes \<open>as\<close>, whose \<open>prev\<close> pointers agree, and ends at \<open>p'\<close> with predecessor \<open>pv'\<close>.
\<close>

fun dseg :: "('k, 'v) ht_store \<Rightarrow> nat option \<Rightarrow> nat option \<Rightarrow> nat list \<Rightarrow> nat option \<Rightarrow> nat option \<Rightarrow> bool" where
  "dseg h pv p [] pv' p' \<longleftrightarrow> pv = pv' \<and> p = p'"
| "dseg h pv p (a # as) pv' p' \<longleftrightarrow> p = Some a \<and>
     (case h a of None \<Rightarrow> False
      | Some e \<Rightarrow> he_prev e = pv \<and> dseg h (Some a) (he_next e) as pv' p')"

definition dll :: "('k, 'v) ht_store \<Rightarrow> nat option \<Rightarrow> nat list \<Rightarrow> bool" where
  "dll h p as \<longleftrightarrow> (\<exists>pv'. dseg h None p as pv' None)"

definition links :: "('k, 'v) ht_entry \<Rightarrow> nat option \<times> nat option" where
  "links e = (he_prev e, he_next e)"

definition payload :: "('k, 'v) ht_entry \<Rightarrow> 32 word \<times> 'k \<times> 'v" where
  "payload e = (he_hash_key e, he_key e, he_value e)"

abbreviation same_payload :: "('k, 'v) ht_store \<Rightarrow> ('k, 'v) ht_store \<Rightarrow> bool" where
  "same_payload h h' \<equiv> \<forall>a. map_option payload (h' a) = map_option payload (h a)"

lemma dseg_append:
  "dseg h pv p (xs @ ys) pv' p' \<longleftrightarrow> (\<exists>pv1 p1. dseg h pv p xs pv1 p1 \<and> dseg h pv1 p1 ys pv' p')"
  by (induction xs arbitrary: pv p) (auto split: option.splits)

lemma dseg_cong:
  "(\<And>a. a \<in> set as \<Longrightarrow> map_option links (h a) = map_option links (h' a)) \<Longrightarrow>
   dseg h pv p as pv' p' = dseg h' pv p as pv' p'"
proof (induction as arbitrary: pv p)
  case (Cons a as)
  have "map_option links (h a) = map_option links (h' a)"
    using Cons.prems by simp
  moreover have "dseg h pv p as pv' p' = dseg h' pv p as pv' p'" for pv p
    using Cons by simp
  ultimately show ?case
    by (auto simp: links_def split: option.splits)
qed simp

lemma dll_cong:
  "(\<And>a. a \<in> set as \<Longrightarrow> map_option links (h a) = map_option links (h' a)) \<Longrightarrow> dll h p as = dll h' p as"
  unfolding dll_def using dseg_cong by metis

lemma dseg_upd [simp]: "a \<notin> set as \<Longrightarrow> dseg (h(a := v)) pv p as pv' p' = dseg h pv p as pv' p'"
  by (rule dseg_cong) auto

lemma dll_upd [simp]: "a \<notin> set as \<Longrightarrow> dll (h(a := v)) p as = dll h p as"
  by (rule dll_cong) auto

lemma dll_Nil [simp]: "dll h p [] \<longleftrightarrow> p = None"
  by (auto simp: dll_def)

lemma dll_hd: "dll h p as \<Longrightarrow> p = (case as of [] \<Rightarrow> None | a # _ \<Rightarrow> Some a)"
  by (cases as) (auto simp: dll_def)

lemma dseg_dom: "dseg h pv p as pv' p' \<Longrightarrow> a \<in> set as \<Longrightarrow> \<exists>e. h a = Some e"
  by (induction as arbitrary: pv p) (auto split: option.splits)

lemma dll_dom: "dll h p as \<Longrightarrow> a \<in> set as \<Longrightarrow> \<exists>e. h a = Some e"
  unfolding dll_def using dseg_dom by metis

text \<open>The search loop ends on every chain and returns the first node whose key is equal.\<close>

lemma ht_find_chain:
  "dseg h pv p as pv' None \<Longrightarrow>
   ht_find h eq k p = Some (List.find (\<lambda>a. eq k (he_key (the (h a)))) as)"
proof (induction as arbitrary: pv p)
  case Nil
  then show ?case by (subst ht_find.simps) simp
next
  case (Cons a as)
  then show ?case by (subst ht_find.simps) (auto split: option.splits)
qed

lemma ht_find_dll:
  "dll h p as \<Longrightarrow> ht_find h eq k p = Some (List.find (\<lambda>a. eq k (he_key (the (h a)))) as)"
  unfolding dll_def using ht_find_chain by metis

lemma dll_push:
  assumes "dll h (tab ! j) as" and "j < length tab" and "a \<notin> set as"
    and "h a = Some e" and "he_prev e = None" and "he_next e = None" and "distinct as"
  obtains h' where "ht_link_front h tab j a = Some (h', tab[j := Some a])"
    and "dll h' (Some a) (a # as)" and "same_payload h h'"
    and "\<And>x. x \<noteq> a \<Longrightarrow> x \<notin> set as \<Longrightarrow> h' x = h x"
proof (cases as)
  case Nil
  then have "ht_link_front h tab j a = Some (h, tab[j := Some a])"
    using assms(1,2) by (simp add: ht_link_front_def dll_def)
  moreover have "dll h (Some a) (a # as)"
    using Nil assms(4-6) by (simp add: dll_def)
  ultimately show thesis using that by blast
next
  case (Cons b bs)
  with assms(1) obtain eb pv' where eb: "tab ! j = Some b" "h b = Some eb" "he_prev eb = None"
      and seg: "dseg h (Some b) (he_next eb) bs pv' None"
    by (auto simp: dll_def split: option.splits)
  have ne: "a \<noteq> b" "a \<notin> set bs" using Cons assms(3) by auto
  have bb: "b \<notin> set bs" using Cons assms(7) by simp
  let ?h1 = "h(b \<mapsto> eb\<lparr>he_prev := Some a\<rparr>)"
  let ?h = "?h1(a \<mapsto> e\<lparr>he_next := Some b\<rparr>)"
  have "ht_link_front h tab j a = Some (?h, tab[j := Some a])"
    using assms(2,4) eb ne by (simp add: ht_link_front_def)
  moreover have "dll ?h (Some a) (a # as)"
  proof -
    have "dseg ?h (Some b) (he_next eb) bs pv' None"
      using seg ne bb by simp
    then show ?thesis
      using Cons assms(5) ne by (auto simp: dll_def)
  qed
  moreover have "same_payload h ?h"
    using assms(4) eb by (simp add: payload_def)
  moreover have "x \<noteq> a \<Longrightarrow> x \<notin> set as \<Longrightarrow> ?h x = h x" for x
    using Cons by auto
  ultimately show thesis by (rule that)
qed

subsection \<open>The array of chains\<close>

definition ht_chains :: "('k, 'v) ht_store \<Rightarrow> nat option list \<Rightarrow> nat list list \<Rightarrow> bool" where
  "ht_chains h tab css \<longleftrightarrow> length css = length tab \<and> (\<forall>i < length tab. dll h (tab ! i) (css ! i)) \<and>
     distinct (concat css)"

definition ht_slot :: "nat \<Rightarrow> ('k, 'v) ht_store \<Rightarrow> nat \<Rightarrow> nat" where
  "ht_slot n h a = unat (he_hash_key (the (h a))) mod n"

definition placed :: "nat \<Rightarrow> ('k, 'v) ht_store \<Rightarrow> nat list list \<Rightarrow> bool" where
  "placed n h css \<longleftrightarrow> (\<forall>i < length css. \<forall>a \<in> set (css ! i). ht_slot n h a = i)"

lemma mset_concat_update:
  "i < length xss \<Longrightarrow> mset (concat (xss[i := ys])) + mset (xss ! i) = mset (concat xss) + mset ys"
  by (subst (3) id_take_nth_drop [of i xss]) (simp_all add: upd_conv_take_nth_drop)

lemma mset_concat_push:
  "i < length xss \<Longrightarrow> mset (concat (xss[i := a # xss ! i])) = add_mset a (mset (concat xss))"
  using mset_concat_update [of i xss "a # xss ! i"] by simp

lemma in_concat_nth: "i < length xss \<Longrightarrow> a \<in> set (xss ! i) \<Longrightarrow> a \<in> set (concat xss)"
  by auto

lemma in_concatE:
  assumes "a \<in> set (concat xss)"
  obtains k where "k < length xss" and "a \<in> set (xss ! k)"
proof -
  from assms obtain ws where "ws \<in> set xss" "a \<in> set ws" by auto
  then show thesis using that by (auto simp: in_set_conv_nth [of ws])
qed

lemma distinct_concat_disjoint:
  assumes "distinct (concat xss)" "i < length xss" "j < length xss" "a \<in> set (xss ! i)" "a \<in> set (xss ! j)"
  shows "i = j"
proof (rule ccontr)
  assume "i \<noteq> j"
  with assms(2,3) have "xss[i := []] ! j = xss ! j" "j < length (xss[i := []])" by auto
  then have "a \<in> set (concat (xss[i := []]))" using assms(5) by (metis in_concat_nth)
  then have "a \<in># mset (concat (xss[i := []]))" by simp
  moreover have "a \<in># mset (xss ! i)" using assms(4) by simp
  ultimately have "2 \<le> count (mset (concat (xss[i := []])) + mset (xss ! i)) a"
    by (metis add_mono count_greater_eq_one_iff count_union one_add_one)
  also have "\<dots> = count (mset (concat xss)) a"
    using mset_concat_update [OF assms(2), of "[]"] by simp
  finally show False
    using assms(1) by (simp add: distinct_count_atmost_1 split: if_splits)
qed

lemma distinct_concat_nth: "distinct (concat xss) \<Longrightarrow> i < length xss \<Longrightarrow> distinct (xss ! i)"
  by (simp add: distinct_concat_iff)

lemma ht_slot_payload: "same_payload h h' \<Longrightarrow> ht_slot n h' a = ht_slot n h a"
  by (cases "h a"; cases "h' a"; force simp: ht_slot_def payload_def dest: spec [of _ a])

lemma placed_payload: "same_payload h h' \<Longrightarrow> placed n h' css = placed n h css"
  by (simp add: placed_def ht_slot_payload [of h h'])

lemma placed_push:
  "placed n h css \<Longrightarrow> j < length css \<Longrightarrow> ht_slot n h a = j \<Longrightarrow> placed n h (css[j := a # css ! j])"
  by (auto simp: placed_def nth_list_update)

lemma ht_chains_push:
  assumes "ht_chains h tab css" and "j < length tab" and "a \<notin> set (concat css)"
    and "h a = Some e" and "he_prev e = None" and "he_next e = None"
  obtains h' where "ht_link_front h tab j a = Some (h', tab[j := Some a])"
    and "ht_chains h' (tab[j := Some a]) (css[j := a # css ! j])" and "same_payload h h'"
    and "\<And>x. x \<noteq> a \<Longrightarrow> x \<notin> set (concat css) \<Longrightarrow> h' x = h x"
proof -
  have css: "length css = length tab" "distinct (concat css)" "dll h (tab ! j) (css ! j)"
    using assms(1,2) by (auto simp: ht_chains_def)
  have sub: "set (css ! j) \<subseteq> set (concat css)"
    using assms(2) css(1) in_concat_nth [of j css] by auto
  then have fresh: "a \<notin> set (css ! j)" using assms(3) by blast
  obtain h' where lf: "ht_link_front h tab j a = Some (h', tab[j := Some a])"
      and d: "dll h' (Some a) (a # css ! j)" and pl: "same_payload h h'"
      and fr: "\<And>x. x \<noteq> a \<Longrightarrow> x \<notin> set (css ! j) \<Longrightarrow> h' x = h x"
    using dll_push [OF css(3) assms(2) fresh assms(4-6)] distinct_concat_nth css assms(2) by metis
  have "dll h' (tab[j := Some a] ! i) ((css[j := a # css ! j]) ! i)" if i: "i < length tab" for i
  proof (cases "i = j")
    case True then show ?thesis using d css(1) assms(2) by simp
  next
    case False
    have "dll h (tab ! i) (css ! i)" using assms(1) i by (simp add: ht_chains_def)
    moreover have "h' x = h x" if "x \<in> set (css ! i)" for x
      using that False i css assms(2,3) fr [of x] distinct_concat_disjoint [of css i j x]
        in_concat_nth [of i css x] by auto
    ultimately show ?thesis
      using False dll_cong [of "css ! i" h' h] by simp
  qed
  moreover have "distinct (concat (css[j := a # css ! j]))"
    using mset_concat_push [of j css a] css assms(2,3)
      mset_eq_imp_distinct_iff [of "concat (css[j := a # css ! j])" "a # concat css"] by simp
  ultimately have "ht_chains h' (tab[j := Some a]) (css[j := a # css ! j])"
    using css(1) by (simp add: ht_chains_def)
  then show thesis using that lf pl fr sub by blast
qed

text \<open>What is left of a chain while it is taken apart: only the \<open>next\<close> pointers matter.\<close>

fun nlist :: "('k, 'v) ht_store \<Rightarrow> nat option \<Rightarrow> nat list \<Rightarrow> bool" where
  "nlist h p [] \<longleftrightarrow> p = None"
| "nlist h p (a # as) \<longleftrightarrow> p = Some a \<and>
     (case h a of None \<Rightarrow> False | Some e \<Rightarrow> nlist h (he_next e) as)"

lemma dll_nlist: "dll h p as \<Longrightarrow> nlist h p as"
proof -
  have "dseg h pv p as pv' None \<Longrightarrow> nlist h p as" for pv pv'
    by (induction as arbitrary: pv p) (auto split: option.splits)
  then show "dll h p as \<Longrightarrow> nlist h p as" by (auto simp: dll_def)
qed

lemma nlist_cong: "(\<And>a. a \<in> set as \<Longrightarrow> h a = h' a) \<Longrightarrow> nlist h p as = nlist h' p as"
  by (induction as arbitrary: p) (auto split: option.splits)

lemma ht_rehash_chain_correct:
  assumes "nlist h p as" and "distinct as" and "set as \<inter> set (concat css) = {}"
    and "ht_chains h tab css" and "placed n h css" and "length tab = n" and "0 < n"
  shows "\<exists>h' tab' css'. ht_rehash_chain n h tab p = Some (h', tab') \<and> ht_chains h' tab' css' \<and>
    placed n h' css' \<and> length tab' = n \<and> same_payload h h' \<and>
    mset (concat css') = mset (concat css) + mset as \<and>
    (\<forall>x. x \<notin> set as \<longrightarrow> x \<notin> set (concat css) \<longrightarrow> h' x = h x)"
  using assms
proof (induction as arbitrary: h p tab css)
  case Nil
  then have "ht_rehash_chain n h tab p = Some (h, tab)"
    by (subst ht_rehash_chain.simps) simp
  then show ?case using Nil by fastforce
next
  case (Cons a as)
  then obtain e where e: "p = Some a" "h a = Some e" and nx: "nlist h (he_next e) as"
    by (auto split: option.splits)
  let ?e = "e\<lparr>he_next := None, he_prev := None\<rparr>" and ?h0 = "h(a \<mapsto> e\<lparr>he_next := None, he_prev := None\<rparr>)"
  let ?j = "unat (he_hash_key e) mod n" and ?css = "css[unat (he_hash_key e) mod n :=
    a # css ! (unat (he_hash_key e) mod n)]"
  have fresh: "a \<notin> set (concat css)" and len: "length css = n" and dist: "distinct (concat css)"
    using Cons.prems by (auto simp: ht_chains_def)
  have j: "?j < length tab" using Cons.prems(6,7) by simp
  have "a \<notin> set (css ! i)" if "i < length tab" for i
    using fresh that len Cons.prems(6) in_concat_nth [of i css a] by auto
  then have ch0: "ht_chains ?h0 tab css"
    using Cons.prems(4) by (simp add: ht_chains_def)
  have pl0: "same_payload h ?h0" by (simp add: e payload_def)
  obtain h1 where lf: "ht_link_front ?h0 tab ?j a = Some (h1, tab[?j := Some a])"
      and ch1: "ht_chains h1 (tab[?j := Some a]) ?css" and pl1: "same_payload ?h0 h1"
      and fr1: "\<And>x. x \<noteq> a \<Longrightarrow> x \<notin> set (concat css) \<Longrightarrow> h1 x = ?h0 x"
    using ht_chains_push [OF ch0 j fresh, of ?e] by auto
  have pl: "same_payload h h1" using pl0 pl1 by simp
  have ms: "mset (concat ?css) = add_mset a (mset (concat css))"
    using mset_concat_push [of ?j css a] j len Cons.prems(6) by simp
  then have st: "set (concat ?css) = insert a (set (concat css))"
    by (metis set_mset_add_mset_insert set_mset_mset)
  have "ht_slot n h1 a = ?j" using ht_slot_payload [OF pl, of n a] e by (simp add: ht_slot_def)
  then have p1: "placed n h1 ?css"
    using placed_push [of n h1 css ?j a] placed_payload [OF pl] Cons.prems(5,6) j len by simp
  have as: "distinct as" "set as \<inter> set (concat ?css) = {}"
    using Cons.prems(2,3) st by auto
  have "h x = h1 x" if "x \<in> set as" for x
  proof -
    have "x \<noteq> a" "x \<notin> set (concat css)" using that Cons.prems(2,3) by auto
    then show ?thesis using fr1 [of x] by simp
  qed
  then have n1: "nlist h1 (he_next e) as" using nx nlist_cong by metis
  obtain h' tab' css' where IH: "ht_rehash_chain n h1 (tab[?j := Some a]) (he_next e) = Some (h', tab')"
      "ht_chains h' tab' css'" "placed n h' css'" "length tab' = n" "same_payload h1 h'"
      "mset (concat css') = mset (concat ?css) + mset as"
      "\<forall>x. x \<notin> set as \<longrightarrow> x \<notin> set (concat ?css) \<longrightarrow> h' x = h1 x"
    using Cons.IH [OF n1 as(1,2) ch1 p1] Cons.prems(6,7) by auto
  have "ht_rehash_chain n h tab p = Some (h', tab')"
    using e lf IH(1) by (subst ht_rehash_chain.simps) simp
  moreover have "mset (concat css') = mset (concat css) + mset (a # as)" using IH(6) ms by simp
  moreover have "\<forall>x. x \<notin> set (a # as) \<longrightarrow> x \<notin> set (concat css) \<longrightarrow> h' x = h x"
    using IH(7) fr1 st by auto
  ultimately show ?case using IH(2-5) pl by (metis (no_types, lifting))
qed

lemma ht_rehash_chains_correct:
  assumes "list_all2 (nlist h) ps ass" and "distinct (concat ass)"
    and "set (concat ass) \<inter> set (concat css) = {}"
    and "ht_chains h tab css" and "placed n h css" and "length tab = n" and "0 < n"
  shows "\<exists>h' tab' css'. ht_rehash_chains n h tab ps = Some (h', tab') \<and> ht_chains h' tab' css' \<and>
    placed n h' css' \<and> length tab' = n \<and> same_payload h h' \<and>
    mset (concat css') = mset (concat css) + mset (concat ass)"
  using assms
proof (induction ps arbitrary: h tab css ass)
  case Nil
  then show ?case by fastforce
next
  case (Cons p ps)
  then obtain as rest where ass: "ass = as # rest" and np: "nlist h p as"
      and nps: "list_all2 (nlist h) ps rest"
    by (auto simp: list_all2_Cons1)
  have disj: "distinct as" "set as \<inter> set (concat css) = {}"
    using Cons.prems(2,3) by (auto simp: ass)
  obtain h1 tab1 css1 where r: "ht_rehash_chain n h tab p = Some (h1, tab1)" "ht_chains h1 tab1 css1"
      "placed n h1 css1" "length tab1 = n" "same_payload h h1"
      "mset (concat css1) = mset (concat css) + mset as"
      "\<forall>x. x \<notin> set as \<longrightarrow> x \<notin> set (concat css) \<longrightarrow> h1 x = h x"
    using ht_rehash_chain_correct [OF np disj Cons.prems(4-7)] by blast
  have st: "set (concat css1) = set (concat css) \<union> set as"
    using r(6) by (metis set_mset_mset set_mset_union)
  have keep: "h1 x = h x" if "x \<in> set (concat rest)" for x
  proof -
    have "x \<notin> set as" using that Cons.prems(2) by (auto simp: ass)
    moreover have "x \<notin> set (concat css)" using that Cons.prems(3) by (auto simp: ass)
    ultimately show ?thesis using r(7) by blast
  qed
  have "nlist h1 (ps ! i) (rest ! i)" if "i < length rest" for i
    using that nps keep nlist_cong [of "rest ! i" h h1] in_concat_nth [of i rest]
    by (auto simp: list_all2_conv_all_nth)
  then have n1: "list_all2 (nlist h1) ps rest"
    using nps by (simp add: list_all2_conv_all_nth)
  have "distinct (concat rest)" "set (concat rest) \<inter> set (concat css1) = {}"
    using Cons.prems(2,3) st by (auto simp: ass)
  from Cons.IH [OF n1 this r(2-4) Cons.prems(7)] obtain h' tab' css' where
      IH: "ht_rehash_chains n h1 tab1 ps = Some (h', tab')" "ht_chains h' tab' css'"
      "placed n h' css'" "length tab' = n" "same_payload h1 h'"
      "mset (concat css') = mset (concat css1) + mset (concat rest)"
    by blast
  have "ht_rehash_chains n h tab (p # ps) = Some (h', tab')"
    using r(1) IH(1) by simp
  moreover have "mset (concat css') = mset (concat css) + mset (concat ass)"
    using IH(6) r(6) by (simp add: ass)
  ultimately show ?case using IH(2-5) r(5) by (metis (no_types, lifting))
qed

subsection \<open>The table invariant\<close>

text \<open>
  \<open>ht_rep t css\<close>: bucket \<open>i\<close> is the chain \<open>css ! i\<close>, every node of the store is in exactly one
  chain, in the bucket of its hash; \<open>nelem\<close> counts the nodes and no two nodes have equal keys.
\<close>

definition ents_ok ::
  "('k \<Rightarrow> 32 word) \<Rightarrow> ('k \<Rightarrow> 'k \<Rightarrow> bool) \<Rightarrow> nat \<Rightarrow> ('k, 'v) ht_store \<Rightarrow> bool" where
  "ents_ok hash equal brk h \<longleftrightarrow>
     (\<forall>a e. h a = Some e \<longrightarrow> a < brk \<and> he_hash_key e = hash (he_key e)) \<and>
     (\<forall>a e b e'. h a = Some e \<longrightarrow> h b = Some e' \<longrightarrow> equal (he_key e) (he_key e') \<longrightarrow> a = b)"

lemma ents_ok_sub:
  assumes "ents_ok hash equal brk h"
    and "\<And>a e'. h' a = Some e' \<Longrightarrow> \<exists>e. h a = Some e \<and> payload e = payload e'"
  shows "ents_ok hash equal brk h'"
proof -
  have *: "\<exists>e. h a = Some e \<and> he_hash_key e = he_hash_key e' \<and> he_key e = he_key e'" if "h' a = Some e'" for a e'
    using assms(2) [OF that] by (auto simp: payload_def)
  show ?thesis
    using assms(1) unfolding ents_ok_def by (metis *)
qed

lemma ents_ok_replace:
  assumes ok: "ents_ok hash equal brk h" and a: "h a = Some e" and hk: "he_hash_key e = hash k"
    and eq: "\<And>k'. equal k' k \<Longrightarrow> equal k' (he_key e)" "\<And>k'. equal k k' \<Longrightarrow> equal (he_key e) k'"
  shows "ents_ok hash equal brk (h(a \<mapsto> e\<lparr>he_key := k, he_value := v\<rparr>))"
proof -
  let ?h = "h(a \<mapsto> e\<lparr>he_key := k, he_value := v\<rparr>)"
  have u: "x = y" if "h x = Some e1" "h y = Some e2" "equal (he_key e1) (he_key e2)" for x y e1 e2
    using ok that unfolding ents_ok_def by blast
  have "x = y" if "?h x = Some e1" "?h y = Some e2" "equal (he_key e1) (he_key e2)" for x y e1 e2
    using that a eq(2) [of "he_key e2"] eq(1) [of "he_key e1"] u [of x e y e2] u [of x e1 y e] u [of x e1 y e2]
    by (auto split: if_splits)
  moreover have "x < brk \<and> he_hash_key e1 = hash (he_key e1)" if "?h x = Some e1" for x e1
    using that ok a hk unfolding ents_ok_def by (auto split: if_splits)
  ultimately show ?thesis unfolding ents_ok_def by blast
qed

definition ht_rep :: "('k, 'v) zc_hashtable \<Rightarrow> nat list list \<Rightarrow> bool" where
  "ht_rep t css \<longleftrightarrow> length (ht_tab t) = ht_tab_size t \<and> 0 < ht_tab_size t \<and>
     ht_chains (ht_store t) (ht_tab t) css \<and> placed (ht_tab_size t) (ht_store t) css \<and>
     dom (ht_store t) = set (concat css) \<and> ht_nelem t = length (concat css) \<and>
     ents_ok (ht_hash t) (ht_equal t) (ht_brk t) (ht_store t)"

definition ht_inv :: "('k, 'v) zc_hashtable \<Rightarrow> bool" where
  "ht_inv t \<longleftrightarrow> (\<exists>css. ht_rep t css)"

text \<open>The finite map a table stands for, read through \<open>zc_hashtable_get\<close>.\<close>

definition ht_abs :: "('k, 'v) zc_hashtable \<Rightarrow> 'k \<Rightarrow> 'v option" where
  "ht_abs t k = Option.bind (zc_hashtable_get t k) (\<lambda>r. r)"

lemma ht_rep_new:
  "zc_hashtable_new n hash equal kd vd m = (Some t, m') \<Longrightarrow> 0 < n \<Longrightarrow>
   ht_rep t (replicate n []) \<and> ht_hash t = hash \<and> ht_equal t = equal \<and> ht_key_del t = kd \<and> ht_value_del t = vd"
  by (auto simp: zc_hashtable_new_def ht_rep_def ht_chains_def placed_def ents_ok_def split: prod.splits if_splits)

lemma ht_rehash_rep:
  assumes "ht_rep t css" and "alloc m = (True, m')"
  obtains t' css' where "zc_hashtable_rehash t m = Some (0, t', m')" and "ht_rep t' css'"
    and "same_payload (ht_store t) (ht_store t')" and "ht_brk t' = ht_brk t"
    and "ht_hash t' = ht_hash t" and "ht_equal t' = ht_equal t"
    and "ht_key_del t' = ht_key_del t" and "ht_value_del t' = ht_value_del t"
    and "ht_nelem t' = ht_nelem t" and "ht_tab_size t' = 2 * ht_tab_size t"
proof -
  let ?n = "2 * ht_tab_size t"
  have t: "length (ht_tab t) = ht_tab_size t" "0 < ht_tab_size t" "ht_chains (ht_store t) (ht_tab t) css"
      "dom (ht_store t) = set (concat css)" "ht_nelem t = length (concat css)"
    using assms(1) by (auto simp: ht_rep_def)
  have "list_all2 (nlist (ht_store t)) (ht_tab t) css"
    using t by (simp add: list_all2_conv_all_nth ht_chains_def dll_nlist)
  moreover have "distinct (concat css)" "length css = length (ht_tab t)"
    using t by (auto simp: ht_chains_def)
  moreover have "ht_chains (ht_store t) (replicate ?n None) (replicate ?n [])"
      "placed ?n (ht_store t) (replicate ?n [])"
    by (simp_all add: ht_chains_def placed_def)
  ultimately obtain h' tab' css' where
      r: "ht_rehash_chains ?n (ht_store t) (replicate ?n None) (ht_tab t) = Some (h', tab')"
      "ht_chains h' tab' css'" "placed ?n h' css'" "length tab' = ?n"
      "same_payload (ht_store t) h'" "mset (concat css') = mset (concat css)"
    using ht_rehash_chains_correct [of "ht_store t" "ht_tab t" css "replicate ?n []" "replicate ?n None" ?n] t(2)
    by auto
  let ?t = "t\<lparr>ht_store := h', ht_tab := tab', ht_tab_size := ?n\<rparr>"
  have eq: "zc_hashtable_rehash t m = Some (0, ?t, m')"
    using assms(2) t(1) r(1) by (simp add: zc_hashtable_rehash_def Let_def)
  have "dom h' = dom (ht_store t)"
  proof -
    have "h' x = None \<longleftrightarrow> ht_store t x = None" for x
      using r(5) by (metis map_option_is_None)
    then show ?thesis by (simp add: dom_def)
  qed
  moreover have "set (concat css') = set (concat css)" using r(6) by (metis set_mset_mset)
  moreover have "length (concat css') = length (concat css)" using r(6) by (metis size_mset)
  moreover have ent: "\<exists>e0. ht_store t a = Some e0 \<and> payload e0 = payload e" if "h' a = Some e" for a e
    using that r(5) [rule_format, of a] by (cases "ht_store t a") auto
  moreover have "ents_ok (ht_hash t) (ht_equal t) (ht_brk t) h'"
    using assms(1) ent ents_ok_sub [of _ _ _ "ht_store t" h'] by (simp add: ht_rep_def)
  ultimately have "ht_rep ?t css'"
    using assms(1) t r(2-4) by (simp add: ht_rep_def)
  with eq r(5) show thesis using that by simp
qed

subsection \<open>Unlinking a node\<close>

lemma dseg_Some: "dseg h pv (Some a) (b # as) pv' p' \<longleftrightarrow> a = b \<and>
    (case h a of None \<Rightarrow> False | Some e \<Rightarrow> he_prev e = pv \<and> dseg h (Some a) (he_next e) as pv' p')"
  by auto

lemma ht_unlink_dll:
  assumes "dll (ht_store t) (ht_tab t ! i) (xs @ a # ys)" and "distinct (xs @ a # ys)"
    and "ht_store t a = Some e" and "i = unat (he_hash_key e) mod ht_tab_size t" and "i < length (ht_tab t)"
  obtains h' tab' where "ht_unlink t a e = Some (h', tab')"
    and "tab' = (if xs = [] then (ht_tab t)[i := he_next e] else ht_tab t)"
    and "dll h' (tab' ! i) (xs @ ys)" and "h' a = None"
    and "\<And>x. x \<noteq> a \<Longrightarrow> map_option payload (h' x) = map_option payload (ht_store t x)"
    and "\<And>x. x \<notin> set (xs @ a # ys) \<Longrightarrow> h' x = ht_store t x"
proof -
  let ?h = "ht_store t" and ?p = "ht_tab t ! i"
  obtain pv1 pv' where s1: "dseg ?h None ?p xs pv1 (Some a)" and pv: "he_prev e = pv1"
      and s2: "dseg ?h (Some a) (he_next e) ys pv' None"
    using assms(1,3) by (auto simp: dll_def dseg_append split: option.splits)
  let ?h1 = "case he_next e of None \<Rightarrow> ?h | Some c \<Rightarrow> ?h(c \<mapsto> (the (?h c))\<lparr>he_prev := he_prev e\<rparr>)"
  let ?h2 = "case he_prev e of None \<Rightarrow> ?h1 | Some b \<Rightarrow> ?h1(b \<mapsto> (the (?h1 b))\<lparr>he_next := he_next e\<rparr>)"
  let ?tab = "if xs = [] then (ht_tab t)[i := he_next e] else ht_tab t"
  have nxt: "(ys = [] \<and> he_next e = None) \<or>
      (\<exists>c ys' ec. ys = c # ys' \<and> he_next e = Some c \<and> ?h c = Some ec \<and> he_prev ec = Some a \<and>
         dseg ?h (Some c) (he_next ec) ys' pv' None)"
    using s2 by (cases ys) (auto split: option.splits)
  have prv: "(xs = [] \<and> he_prev e = None \<and> ?p = Some a) \<or>
      (\<exists>b xs' eb. xs = xs' @ [b] \<and> he_prev e = Some b \<and> ?h b = Some eb \<and> he_next eb = Some a \<and>
         dseg ?h None ?p xs' (he_prev eb) (Some b))"
    using s1 pv by (cases xs rule: rev_cases) (auto simp: dseg_append split: option.splits)
  show thesis
  proof
    show "ht_unlink t a e = Some (?h2(a := None), ?tab)"
      using nxt prv assms(2,5) by (auto simp: ht_unlink_def assms(4) [symmetric])
    show "dll (?h2(a := None)) (?tab ! i) (xs @ ys)"
      using nxt prv assms(2,5) s2 by (auto simp: dll_def dseg_append)
    show "map_option payload ((?h2(a := None)) x) = map_option payload (?h x)" if "x \<noteq> a" for x
      using that nxt prv assms(2) by (auto simp: payload_def)
    show "(?h2(a := None)) x = ?h x" if "x \<notin> set (xs @ a # ys)" for x
      using that nxt prv by auto
  qed simp_all
qed

text \<open>Chains without the node \<open>a\<close>.\<close>

lemma chains_without:
  assumes "i < length css" and "css ! i = xs @ a # ys" and "distinct (concat css)"
  shows "insert a (set (concat (css[i := xs @ ys]))) = set (concat css)"
    and "Suc (length (concat (css[i := xs @ ys]))) = length (concat css)"
    and "a \<notin> set (concat (css[i := xs @ ys])) \<and> distinct (concat (css[i := xs @ ys]))"
proof -
  let ?css = "css[i := xs @ ys]"
  have "mset (a # concat ?css) = mset (concat css)"
    using mset_concat_update [of i css "xs @ ys"] assms(1,2) by (simp add: ac_simps)
  from mset_eq_setD [OF this] mset_eq_length [OF this] mset_eq_imp_distinct_iff [OF this] assms(3)
  show "insert a (set (concat ?css)) = set (concat css)" "Suc (length (concat ?css)) = length (concat css)"
    "a \<notin> set (concat ?css) \<and> distinct (concat ?css)" by auto
qed

lemma chains_unlinked:
  assumes "ht_chains h tab css" and "i < length css" and "css ! i = xs @ a # ys"
    and "tab' = (if xs = [] then tab[i := n] else tab)" and "dll h' (tab' ! i) (xs @ ys)" and "\<And>x. x \<notin> set (xs @ a # ys) \<Longrightarrow> h' x = h x"
  shows "ht_chains h' tab' (css[i := xs @ ys])"
proof -
  have t: "length css = length tab" "distinct (concat css)" and ch: "\<And>j. j < length tab \<Longrightarrow> dll h (tab ! j) (css ! j)"
    using assms(1) by (auto simp: ht_chains_def)
  have "dll h' (tab' ! j) (css[i := xs @ ys] ! j)" if j: "j < length tab" for j
  proof (cases "j = i")
    case True then show ?thesis using assms(2,5) by simp
  next
    case False
    then have "x \<notin> set (xs @ a # ys)" if "x \<in> set (css ! j)" for x
      using distinct_concat_disjoint [of css j i x] that assms(2,3) j t by auto
    then have "h' x = h x" if "x \<in> set (css ! j)" for x using that assms(6) by blast
    then have "dll h' (tab ! j) (css ! j)" using dll_cong [of "css ! j" h' h] ch j by simp
    then show ?thesis using False by (simp add: assms(4))
  qed
  moreover have "length tab' = length tab" by (simp add: assms(4))
  ultimately show ?thesis using t(1) chains_without(3) [OF assms(2,3) t(2)] by (simp add: ht_chains_def)
qed

lemma ht_remove_rep:
  assumes "ht_rep t css" and "ht_store t a = Some e"
  obtains h' tab' css' where "ht_unlink t a e = Some (h', tab')"
    and "ht_rep (t\<lparr>ht_store := h', ht_tab := tab', ht_nelem := ht_nelem t - 1\<rparr>) css'"
    and "\<And>x. map_option payload (h' x) = (if x = a then None else map_option payload (ht_store t x))"
proof -
  have t: "length (ht_tab t) = ht_tab_size t" "0 < ht_tab_size t"
      "length css = length (ht_tab t)" "distinct (concat css)" "placed (ht_tab_size t) (ht_store t) css"
      "dom (ht_store t) = set (concat css)"
    and ch: "\<And>i. i < ht_tab_size t \<Longrightarrow> dll (ht_store t) (ht_tab t ! i) (css ! i)"
    using assms(1) by (auto simp: ht_rep_def ht_chains_def)
  let ?i = "unat (he_hash_key e) mod ht_tab_size t"
  have i: "?i < length (ht_tab t)" using t by simp
  have "a \<in> set (concat css)" using t(6) assms(2) by auto
  then obtain k where k: "k < length css" "a \<in> set (css ! k)" by (rule in_concatE)
  then have "ht_slot (ht_tab_size t) (ht_store t) a = k" using t(5) by (simp add: placed_def)
  then have "k = ?i" using assms(2) by (simp add: ht_slot_def)
  with k obtain xs ys where xy: "css ! ?i = xs @ a # ys" by (auto simp: in_set_conv_decomp)
  have di: "distinct (xs @ a # ys)" using distinct_concat_nth [of css ?i] t(3,4) i xy by simp
  obtain h' tab' where u: "ht_unlink t a e = Some (h', tab')"
      and tab': "tab' = (if xs = [] then (ht_tab t)[?i := he_next e] else ht_tab t)"
      and d: "dll h' (tab' ! ?i) (xs @ ys)" and ha: "h' a = None"
      and pl: "\<And>x. x \<noteq> a \<Longrightarrow> map_option payload (h' x) = map_option payload (ht_store t x)"
      and fr: "\<And>x. x \<notin> set (xs @ a # ys) \<Longrightarrow> h' x = ht_store t x"
    using ht_unlink_dll [of t ?i xs a ys e] ch [of ?i] xy di assms(2) i t(1,2) by auto
  let ?css = "css[?i := xs @ ys]" and ?t = "t\<lparr>ht_store := h', ht_tab := tab', ht_nelem := ht_nelem t - 1\<rparr>"
  have ic: "?i < length css" using i t(3) by simp
  note st = chains_without(1) [OF ic xy t(4)] and ln = chains_without(2) [OF ic xy t(4)] and ds = chains_without(3) [OF ic xy t(4)]
  have pl': "map_option payload (h' x) = (if x = a then None else map_option payload (ht_store t x))" for x
    using pl ha by simp
  have none: "h' x = None \<longleftrightarrow> x = a \<or> ht_store t x = None" for x
    using pl [of x] ha by (cases "x = a"; cases "h' x"; cases "ht_store t x") auto
  have "ht_chains (ht_store t) (ht_tab t) css" using assms(1) by (simp add: ht_rep_def)
  then have "ht_chains h' tab' ?css" by (rule chains_unlinked [OF _ ic xy tab' d fr])
  moreover have lt: "length tab' = ht_tab_size t" by (simp add: tab' t(1))
  moreover have "placed (ht_tab_size t) h' ?css"
  proof -
    have "ht_slot (ht_tab_size t) h' x = ht_slot (ht_tab_size t) (ht_store t) x" if "x \<noteq> a" for x
      using that pl [of x] by (cases "h' x"; cases "ht_store t x") (auto simp: ht_slot_def payload_def)
    moreover have "x \<noteq> a" if "x \<in> set (?css ! j)" "j < length ?css" for x j
      using ds that in_concat_nth [of j ?css x] by auto
    ultimately show ?thesis
      using t(5) xy i t(3) unfolding placed_def by (auto simp: nth_list_update)
  qed
  moreover have "dom h' = set (concat ?css)"
  proof -
    have "dom h' = dom (ht_store t) - {a}" by (auto simp: set_eq_iff domIff none simp del: not_None_eq)
    then show ?thesis using st ds t(6) by (metis Diff_insert_absorb)
  qed
  moreover have ent: "\<exists>e0. ht_store t x = Some e0 \<and> payload e0 = payload e'" if "h' x = Some e'" for x e'
    using pl' [of x] that by (cases "ht_store t x") (auto split: if_splits)
  moreover have "ents_ok (ht_hash t) (ht_equal t) (ht_brk t) h'"
    using assms(1) ent ents_ok_sub [of _ _ _ "ht_store t" h'] by (simp add: ht_rep_def)
  moreover have "ht_nelem t = length (concat css)" using assms(1) by (simp add: ht_rep_def)
  ultimately have "ht_rep ?t ?css"
    using t(2) lt ln by (simp add: ht_rep_def)
  with u pl' show thesis using that by blast
qed

subsection \<open>The contract of the callbacks, and the operations as operations on a map\<close>

locale hash_key =
  fixes hash :: "'k \<Rightarrow> 32 word" and equal :: "'k \<Rightarrow> 'k \<Rightarrow> bool"
  assumes equal_refl: "equal k k"
    and equal_sym: "equal k k' \<Longrightarrow> equal k' k"
    and equal_trans: "equal k k' \<Longrightarrow> equal k' k'' \<Longrightarrow> equal k k''"
    and hash_cong: "equal k k' \<Longrightarrow> hash k = hash k'"
begin

definition uses :: "('k, 'v) zc_hashtable \<Rightarrow> bool" where
  "uses t \<longleftrightarrow> ht_hash t = hash \<and> ht_equal t = equal"

lemma entry_hit:
  assumes "ht_rep t css" and "uses t" and "ht_store t a = Some e" and "equal k (he_key e)"
  shows "zc_hashtable_get_entry t k = Some (Some a)"
proof -
  let ?i = "unat (hash k) mod ht_tab_size t"
  have t: "length (ht_tab t) = ht_tab_size t" "0 < ht_tab_size t" "length css = ht_tab_size t"
      "dll (ht_store t) (ht_tab t ! ?i) (css ! ?i)" "placed (ht_tab_size t) (ht_store t) css"
      "dom (ht_store t) = set (concat css)" "ht_hash t = hash" "ht_equal t = equal"
    using assms(1,2) by (auto simp: ht_rep_def ht_chains_def uses_def)
  have uniq: "b = a" if "ht_store t b = Some e'" "equal k (he_key e')" for b e'
    using assms that t(8) equal_sym equal_trans unfolding ht_rep_def ents_ok_def by metis
  have "a \<in> set (concat css)" using t(6) assms(3) by auto
  then obtain j where j: "j < length css" "a \<in> set (css ! j)" by (rule in_concatE)
  have "he_hash_key e = hash k"
    using assms(1,3,4) t(7) hash_cong unfolding ht_rep_def ents_ok_def by metis
  moreover have "ht_slot (ht_tab_size t) (ht_store t) a = j"
    using t(5) j by (simp add: placed_def)
  ultimately have "j = ?i"
    using assms(3) by (simp add: ht_slot_def)
  then have a: "a \<in> set (css ! ?i)" using j by simp
  have "List.find (\<lambda>b. equal k (he_key (the (ht_store t b)))) (css ! ?i) = Some a"
  proof -
    have "\<exists>x. List.find (\<lambda>b. equal k (he_key (the (ht_store t b)))) (css ! ?i) = Some x"
      using a assms(3,4) by (auto simp: find_None_iff simp flip: not_None_eq)
    then obtain x where x: "List.find (\<lambda>b. equal k (he_key (the (ht_store t b)))) (css ! ?i) = Some x"
      by blast
    then have "x \<in> set (css ! ?i)" "equal k (he_key (the (ht_store t x)))"
      by (auto simp: find_Some_iff)
    then have "x = a" using uniq dll_dom [OF t(4)] by fastforce
    then show ?thesis using x by simp
  qed
  then show ?thesis
    using t by (simp add: zc_hashtable_get_entry_def ht_find_dll)
qed

lemma entry_miss:
  assumes "ht_rep t css" and "uses t"
    and "\<And>a e. ht_store t a = Some e \<Longrightarrow> \<not> equal k (he_key e)"
  shows "zc_hashtable_get_entry t k = Some None"
proof -
  let ?i = "unat (hash k) mod ht_tab_size t"
  have t: "length (ht_tab t) = ht_tab_size t" "0 < ht_tab_size t"
      "dll (ht_store t) (ht_tab t ! ?i) (css ! ?i)" "ht_hash t = hash" "ht_equal t = equal"
    using assms(1,2) by (auto simp: ht_rep_def ht_chains_def uses_def)
  have "List.find (\<lambda>b. equal k (he_key (the (ht_store t b)))) (css ! ?i) = None"
    using assms(3) dll_dom [OF t(3)] by (fastforce simp: find_None_iff)
  then show ?thesis
    using t by (simp add: zc_hashtable_get_entry_def ht_find_dll)
qed

lemma get_via_entry:
  "zc_hashtable_get t k = do {
     r \<leftarrow> zc_hashtable_get_entry t k;
     (case r of None \<Rightarrow> Some None
      | Some a \<Rightarrow> do { e \<leftarrow> ht_store t a; Some (Some (he_value e)) }) }"
  by (simp add: zc_hashtable_get_def zc_hashtable_get_entry_def)

lemma get_hit:
  assumes "ht_rep t css" and "uses t" and "map_option payload (ht_store t a) = Some (hk, k', v)"
    and "equal k k'"
  shows "zc_hashtable_get t k = Some (Some v)"
proof -
  obtain e where "ht_store t a = Some e" "he_key e = k'" "he_value e = v"
    using assms(3) by (auto simp: payload_def)
  then show ?thesis
    using entry_hit [OF assms(1,2)] assms(4) by (simp add: get_via_entry)
qed

lemma get_miss:
  assumes "ht_rep t css" and "uses t"
    and "\<And>a hk k' v. map_option payload (ht_store t a) = Some (hk, k', v) \<Longrightarrow> \<not> equal k k'"
  shows "zc_hashtable_get t k = Some None"
proof -
  have "\<not> equal k (he_key e)" if "ht_store t a = Some e" for a e
    using assms(3) [of a] that by (auto simp: payload_def)
  then show ?thesis
    using entry_miss [OF assms(1,2)] by (simp add: get_via_entry)
qed

lemma get_total:
  assumes "ht_rep t css" and "uses t"
  shows "\<exists>r. zc_hashtable_get t k = Some r"
  using get_hit [OF assms] get_miss [OF assms] by blast

text \<open>Two tables with the same entries, wherever they are linked, answer alike.\<close>

lemma get_same:
  assumes "ht_rep t css" "uses t" "ht_rep t' css'" "uses t'"
    and "\<And>a. map_option payload (ht_store t' a) = map_option payload (ht_store t a)"
  shows "zc_hashtable_get t' k = zc_hashtable_get t k"
proof (cases "\<exists>a hk k' v. map_option payload (ht_store t a) = Some (hk, k', v) \<and> equal k k'")
  case True
  then show ?thesis
    using get_hit [OF assms(1,2)] get_hit [OF assms(3,4)] assms(5) by metis
next
  case False
  then have "zc_hashtable_get t k = Some None" "zc_hashtable_get t' k = Some None"
    using get_miss [OF assms(1,2)] get_miss [OF assms(3,4)] assms(5) by metis+
  then show ?thesis by simp
qed

end

text \<open>The part of a table no operation changes.\<close>

definition same_conf :: "('k, 'v) zc_hashtable \<Rightarrow> ('k, 'v) zc_hashtable \<Rightarrow> bool" where
  "same_conf t t' \<longleftrightarrow> ht_hash t' = ht_hash t \<and> ht_equal t' = ht_equal t \<and>
     ht_key_del t' = ht_key_del t \<and> ht_value_del t' = ht_value_del t"

lemma same_conf_refl [simp]: "same_conf t t"
  by (simp add: same_conf_def)

lemma same_conf_trans: "same_conf t t' \<Longrightarrow> same_conf t' t'' \<Longrightarrow> same_conf t t''"
  by (simp add: same_conf_def)

lemma ht_new_entry_rep:
  assumes "ht_rep t css" and "alloc m = (True, m')"
    and "\<And>a e. ht_store t a = Some e \<Longrightarrow> \<not> ht_equal t k (he_key e) \<and> \<not> ht_equal t (he_key e) k"
  obtains t' css' where "ht_new_entry t k v m = Some (0, t', m')" and "ht_rep t' css'" and "same_conf t t'"
    and "\<And>x. map_option payload (ht_store t' x) =
           (if x = ht_brk t then Some (ht_hash t k, k, v) else map_option payload (ht_store t x))"
proof -
  let ?a = "ht_brk t" and ?n = "ht_tab_size t"
  let ?e = "\<lparr>he_hash_key = ht_hash t k, he_key = k, he_value = v, he_prev = None, he_next = None\<rparr>"
  let ?h = "(ht_store t)(?a \<mapsto> ?e)" and ?j = "unat (ht_hash t k) mod ?n"
  have t: "length (ht_tab t) = ?n" "0 < ?n" "ht_chains (ht_store t) (ht_tab t) css"
      "placed ?n (ht_store t) css" "dom (ht_store t) = set (concat css)" "ht_nelem t = length (concat css)"
      "ents_ok (ht_hash t) (ht_equal t) ?a (ht_store t)" "length css = ?n"
    using assms(1) by (auto simp: ht_rep_def ht_chains_def)
  have new: "ht_store t ?a = None"
    using t(7) by (cases "ht_store t ?a") (auto simp: ents_ok_def)
  then have fresh: "?a \<notin> set (concat css)" using t(5) by auto
  have nin: "?a \<notin> set (css ! i)" if "i < ?n" for i
    using fresh that t(8) in_concat_nth [of i css ?a] by auto
  have j: "?j < length (ht_tab t)" using t by simp
  have ch0: "ht_chains ?h (ht_tab t) css" using t(1,3) nin by (simp add: ht_chains_def)
  have "?h ?a = Some ?e" "he_prev ?e = None" "he_next ?e = None" by simp_all
  from ht_chains_push [OF ch0 j fresh this] obtain h' where
      lf: "ht_link_front ?h (ht_tab t) ?j ?a = Some (h', (ht_tab t)[?j := Some ?a])"
      and ch: "ht_chains h' ((ht_tab t)[?j := Some ?a]) (css[?j := ?a # css ! ?j])"
      and pl: "same_payload ?h h'" by metis
  have plx: "map_option payload (h' x) =
      (if x = ?a then Some (ht_hash t k, k, v) else map_option payload (ht_store t x))" for x
    using pl by (simp add: payload_def)
  let ?t = "t\<lparr>ht_store := h', ht_tab := (ht_tab t)[?j := Some ?a], ht_nelem := ht_nelem t + 1, ht_brk := ?a + 1\<rparr>"
  let ?css = "css[?j := ?a # css ! ?j]"
  have eq: "ht_new_entry t k v m = Some (0, ?t, m')"
    using assms(2) lf by (simp add: ht_new_entry_def Let_def)
  have ms: "mset (concat ?css) = add_mset ?a (mset (concat css))"
    using mset_concat_push [of ?j css ?a] j t(1,8) by simp
  have "dom h' = insert ?a (dom (ht_store t))"
  proof -
    have "h' x = None \<longleftrightarrow> x \<noteq> ?a \<and> ht_store t x = None" for x
      using plx [of x] by (cases "x = ?a"; cases "h' x"; cases "ht_store t x") auto
    then show ?thesis by (auto simp: set_eq_iff domIff simp del: not_None_eq)
  qed
  then have dm: "dom h' = set (concat ?css)"
    using ms t(5) by (metis set_mset_add_mset_insert set_mset_mset)
  have ln: "length (concat ?css) = Suc (length (concat css))"
    using ms by (metis size_add_mset size_mset)
  have "placed ?n ?h css"
    using t(4,8) nin by (auto simp: placed_def ht_slot_def)
  then have "placed ?n h' css" by (rule placed_payload [OF pl, THEN iffD2])
  moreover have "ht_slot ?n h' ?a = ?j" using ht_slot_payload [OF pl] by (simp add: ht_slot_def)
  ultimately have pd: "placed ?n h' ?css" using placed_push j t(1,8) by metis
  have "ents_ok (ht_hash t) (ht_equal t) (?a + 1) ?h"
    using t(7) assms(3) new unfolding ents_ok_def by (auto simp: less_SucI)
  then have "ents_ok (ht_hash t) (ht_equal t) (?a + 1) h'"
    by (rule ents_ok_sub) (metis (no_types, lifting) map_option_eq_Some pl)
  then have "ht_rep ?t ?css"
    using ch pd dm ln t(1,2,6) by (simp add: ht_rep_def)
  then show thesis using that eq plx by (simp add: same_conf_def)
qed

context hash_key
begin

lemma replace_get:
  assumes "ht_rep t css" and "uses t" and "ht_store t a = Some e" and "equal k (he_key e)" and rep': "ht_rep t' css'" and u': "uses t'"
    and pl: "\<And>x. map_option payload (ht_store t' x) = (if x = a then Some (hash k, k, v) else map_option payload (ht_store t x))"
  shows "zc_hashtable_get t' k' = (if equal k' k then Some (Some v) else zc_hashtable_get t k')"
proof (cases "equal k' k")
  case True
  then show ?thesis using get_hit [OF rep' u', of a] pl by simp
next
  case False
  show ?thesis
  proof (cases "\<exists>b hk k2 v2. map_option payload (ht_store t b) = Some (hk, k2, v2) \<and> equal k' k2")
    case True
    then obtain b hk2 k2 v2 where b: "map_option payload (ht_store t b) = Some (hk2, k2, v2)" "equal k' k2"
      by blast
    have "b \<noteq> a"
    proof
      assume "b = a"
      then have "equal k' (he_key e)" using b assms(3) by (simp add: payload_def)
      then show False using False assms(4) equal_sym equal_trans by blast
    qed
    then have "map_option payload (ht_store t' b) = Some (hk2, k2, v2)" using b pl by simp
    then show ?thesis
      using False b get_hit [OF rep' u'] get_hit [OF assms(1,2)] by auto
  next
    case none: False
    then have "zc_hashtable_get t k' = Some None" using get_miss [OF assms(1,2)] by blast
    moreover have "zc_hashtable_get t' k' = Some None"
    proof (rule get_miss [OF rep' u'])
      fix b hk k2 v2
      assume "map_option payload (ht_store t' b) = Some (hk, k2, v2)"
      then have "k2 = k \<or> map_option payload (ht_store t b) = Some (hk, k2, v2)"
        using pl [of b] by (simp split: if_splits)
      then show "\<not> equal k' k2" using none False by blast
    qed
    ultimately show ?thesis using False by simp
  qed
qed

lemma put_replaces:
  assumes "ht_rep t css" and "uses t" and "ht_store t a = Some e" and "equal k (he_key e)"
    and t'_def: "t' = t\<lparr>ht_store := (ht_store t)(a \<mapsto> e\<lparr>he_key := k, he_value := v\<rparr>)\<rparr>"
  shows "zc_hashtable_put t k v m = Some (0, ht_dels t e, t', m)" and "ht_rep t' css" and "same_conf t t'"
    and "zc_hashtable_get t' k' = (if equal k' k then Some (Some v) else zc_hashtable_get t k')"
proof -
  let ?h = "(ht_store t)(a \<mapsto> e\<lparr>he_key := k, he_value := v\<rparr>)"
  have c: "ht_hash t = hash" "ht_equal t = equal" "ents_ok hash equal (ht_brk t) (ht_store t)"
    using assms(1,2) by (auto simp: uses_def ht_rep_def)
  have "zc_hashtable_get_entry t k = Some (Some a)" by (rule entry_hit [OF assms(1-4)])
  then show "zc_hashtable_put t k v m = Some (0, ht_dels t e, t', m)"
    using assms(3) unfolding t'_def zc_hashtable_get_entry_def zc_hashtable_put_def
    by (auto simp: Option.bind_eq_Some_conv)
  have lk: "map_option links (?h x) = map_option links (ht_store t x)" for x
    using assms(3) by (simp add: links_def)
  have "ht_chains ?h (ht_tab t) css"
    using assms(1) dll_cong [of _ ?h "ht_store t"] lk by (simp add: ht_rep_def ht_chains_def)
  moreover have "ht_slot n ?h x = ht_slot n (ht_store t) x" for n x
    using assms(3) by (simp add: ht_slot_def)
  then have "placed (ht_tab_size t) ?h css"
    using assms(1) by (simp add: ht_rep_def placed_def)
  moreover have hk: "he_hash_key e = hash k" using c assms(3,4) hash_cong by (metis ents_ok_def)
  moreover have "ents_ok hash equal (ht_brk t) ?h"
    by (rule ents_ok_replace [where hash = hash]) (use c(3) assms(3,4) hk equal_sym equal_trans in blast)+
  ultimately show rep': "ht_rep t' css"
    using assms(1,3) c unfolding t'_def ht_rep_def by (auto simp: insert_absorb)
  show conf: "same_conf t t'" by (simp add: t'_def same_conf_def)
  have u': "uses t'" using assms(2) by (simp add: uses_def t'_def)
  have pl: "map_option payload (ht_store t' x) =
      (if x = a then Some (hash k, k, v) else map_option payload (ht_store t x))" for x
    using hk by (simp add: t'_def payload_def)
  show "zc_hashtable_get t' k' = (if equal k' k then Some (Some v) else zc_hashtable_get t k')"
    by (rule replace_get [OF assms(1-4) rep' u' pl])
qed

lemma put_adds:
  assumes rep: "ht_rep t css" and u: "uses t" and m: "alloc m = (True, m')"
    and miss: "\<And>a e. ht_store t a = Some e \<Longrightarrow> \<not> equal k (he_key e)"
  obtains t' css' where "ht_new_entry t k v m = Some (0, t', m')" and "ht_rep t' css'" and "same_conf t t'"
    and "\<And>k'. zc_hashtable_get t' k' = (if equal k' k then Some (Some v) else zc_hashtable_get t k')"
proof -
  have fresh: "\<not> ht_equal t k (he_key e) \<and> \<not> ht_equal t (he_key e) k" if "ht_store t a = Some e" for a e
    using miss [OF that] u equal_sym by (auto simp: uses_def)
  obtain t' css' where
      eq: "ht_new_entry t k v m = Some (0, t', m')" and rep': "ht_rep t' css'" and c: "same_conf t t'"
      and pl: "\<And>x. map_option payload (ht_store t' x) =
           (if x = ht_brk t then Some (ht_hash t k, k, v) else map_option payload (ht_store t x))"
    by (rule ht_new_entry_rep [OF rep m, of k v]) (use fresh in blast)+
  have u': "uses t'" using u c by (simp add: uses_def same_conf_def)
  have new: "ht_store t (ht_brk t) = None"
    using rep by (cases "ht_store t (ht_brk t)") (auto simp: ht_rep_def ents_ok_def)
  have "zc_hashtable_get t' k' = (if equal k' k then Some (Some v) else zc_hashtable_get t k')" for k'
  proof (cases "equal k' k")
    case True
    then show ?thesis using get_hit [OF rep' u', of "ht_brk t"] pl by simp
  next
    case False
    show ?thesis
    proof (cases "\<exists>b hk k2 v2. map_option payload (ht_store t b) = Some (hk, k2, v2) \<and> equal k' k2")
      case True
      then obtain b hk2 k2 v2 where b: "map_option payload (ht_store t b) = Some (hk2, k2, v2)" "equal k' k2"
        by blast
      then have "b \<noteq> ht_brk t" using new by auto
      then have "map_option payload (ht_store t' b) = Some (hk2, k2, v2)" using b pl by simp
      then show ?thesis
        using False b get_hit [OF rep' u'] get_hit [OF rep u] by auto
    next
      case none: False
      then have "zc_hashtable_get t k' = Some None" using get_miss [OF rep u] by blast
      moreover have "zc_hashtable_get t' k' = Some None"
      proof (rule get_miss [OF rep' u'])
        fix b hk k2 v2
        assume "map_option payload (ht_store t' b) = Some (hk, k2, v2)"
        then have "k2 = k \<or> map_option payload (ht_store t b) = Some (hk, k2, v2)"
          using pl [of b] by (simp split: if_splits)
        then show "\<not> equal k' k2" using none False by blast
      qed
      ultimately show ?thesis using False by simp
    qed
  qed
  then show thesis using that eq rep' c by blast
qed

lemma get_Some_entry:
  assumes "ht_rep t css" "uses t" "zc_hashtable_get t k = Some (Some v)"
  obtains a e where "ht_store t a = Some e" "equal k (he_key e)" "he_value e = v"
proof -
  have "\<exists>a hk k' v'. map_option payload (ht_store t a) = Some (hk, k', v') \<and> equal k k'"
    using get_miss [OF assms(1,2)] assms(3) by fastforce
  then obtain a e where e: "ht_store t a = Some e" "equal k (he_key e)"
    by (auto simp: payload_def)
  then have "zc_hashtable_get t k = Some (Some (he_value e))"
    using get_hit [OF assms(1,2), of a] by (simp add: payload_def)
  then show thesis using that e assms(3) by simp
qed

lemma get_None_entry:
  "ht_rep t css \<Longrightarrow> uses t \<Longrightarrow> zc_hashtable_get t k = Some None \<Longrightarrow> ht_store t a = Some e \<Longrightarrow> \<not> equal k (he_key e)"
  using get_hit [of t css a "he_hash_key e" "he_key e" "he_value e" k] by (auto simp: payload_def)

text \<open>The table is enlarged when it is full, and then the entry is made; both may run out of memory.\<close>

lemma alloc_sub: "alloc m = (b, m1) \<Longrightarrow> set m1 \<subseteq> set m" "alloc m = (False, m1) \<Longrightarrow> False \<in> set m"
  by (cases m; auto)+

lemma put_room:
  assumes "ht_rep t css" and "alloc m = (b, m1)" and "full \<Longrightarrow> b"
  obtains t1 m2 css1 where "(if full then zc_hashtable_rehash t m else Some (0, t, m)) = Some (0, t1, m2)" "ht_rep t1 css1" "same_conf t t1"
    "same_payload (ht_store t) (ht_store t1)" "set m2 \<subseteq> set m"
proof (cases full)
  case True
  with assms(2,3) have "alloc m = (True, m1)" by simp
  from ht_rehash_rep [OF assms(1) this] obtain t' css' where
      r: "zc_hashtable_rehash t m = Some (0, t', m1)" "ht_rep t' css'" "same_payload (ht_store t) (ht_store t')"
      "ht_hash t' = ht_hash t" "ht_equal t' = ht_equal t" "ht_key_del t' = ht_key_del t"
      "ht_value_del t' = ht_value_del t" by blast
  show thesis by (rule that [of t' m1 css']) (use r True alloc_sub(1) [OF assms(2)] in \<open>simp_all add: same_conf_def\<close>)
next
  case False
  then show thesis using that [of t m css] assms(1) by simp
qed

lemma put_entry:
  assumes "ht_rep t css" and "uses t" and "\<And>a e. ht_store t a = Some e \<Longrightarrow> \<not> equal k (he_key e)"
  shows "\<exists>rc t' m' css'. ht_new_entry t k v m = Some (rc, t', m') \<and> ht_rep t' css' \<and> same_conf t t' \<and> set m' \<subseteq> set m \<and>
    (rc = 0 \<and> (\<forall>k'. zc_hashtable_get t' k' = (if equal k' k then Some (Some v) else zc_hashtable_get t k')) \<or>
     rc = -1 \<and> False \<in> set m \<and> t' = t)"
proof -
  obtain b m1 where al: "alloc m = (b, m1)" by (cases "alloc m")
  note sub = alloc_sub(1) [OF al]
  show ?thesis
  proof (cases b)
    case True
    with al have m: "alloc m = (True, m1)" by simp
    obtain t2 css2 where
        "ht_new_entry t k v m = Some (0, t2, m1)" "ht_rep t2 css2" "same_conf t t2"
        "\<And>k'. zc_hashtable_get t2 k' = (if equal k' k then Some (Some v) else zc_hashtable_get t k')"
      by (rule put_adds [OF assms(1,2) m, of k v]) (use assms(3) in blast)+
    then show ?thesis using sub by (intro exI [of _ 0] exI [of _ t2] exI [of _ m1] exI [of _ css2]) simp
  next
    case False
    then have "ht_new_entry t k v m = Some (-1, t, m1)" "False \<in> set m" using al alloc_sub(2) by (simp_all add: ht_new_entry_def)
    then show ?thesis using sub assms(1) by (intro exI [of _ "-1"] exI [of _ t] exI [of _ m1] exI [of _ css]) simp
  qed
qed

lemma put_miss:
  assumes rep: "ht_rep t css" and u: "uses t" and none: "zc_hashtable_get t k = Some None"
  shows "\<exists>rc t' m' css'. zc_hashtable_put t k v m = Some (rc, [], t', m') \<and> ht_rep t' css' \<and> same_conf t t' \<and>
    (rc = 0 \<longrightarrow> (\<forall>k'. zc_hashtable_get t' k' = (if equal k' k then Some (Some v) else zc_hashtable_get t k'))) \<and>
    (rc \<noteq> 0 \<longrightarrow> rc = -1 \<and> False \<in> set m \<and> (\<forall>k'. zc_hashtable_get t' k' = zc_hashtable_get t k')) \<and>
    set m' \<subseteq> set m"
proof -
  have miss: "\<not> equal k (he_key e)" if "ht_store t a = Some e" for a e
    using get_None_entry [OF rep u none that] .
  have ge: "zc_hashtable_get_entry t k = Some None" by (rule entry_miss [OF rep u miss])
  let ?full = "10 * ht_nelem t > 13 * ht_tab_size t"
  have put: "zc_hashtable_put t k v m = do {
      (rc, t, m) \<leftarrow> (if ?full then zc_hashtable_rehash t m else Some (0, t, m));
      if rc \<noteq> 0 then Some (-1, [], t, m)
      else do { (rc, t, m) \<leftarrow> ht_new_entry t k v m; Some (rc, [], t, m) } }"
    using ge unfolding zc_hashtable_put_def zc_hashtable_get_entry_def
    by (auto simp: Option.bind_eq_Some_conv)
  obtain b m1 where al: "alloc m = (b, m1)" by (cases "alloc m")
  show ?thesis
  proof (cases "?full \<and> \<not> b")
    case True
    then have "zc_hashtable_put t k v m = Some (-1, [], t, m1)" "False \<in> set m"
      using al alloc_sub(2) by (simp_all add: put zc_hashtable_rehash_def Let_def)
    then show ?thesis using rep alloc_sub(1) [OF al]
      by (intro exI [of _ "-1"] exI [of _ t] exI [of _ m1] exI [of _ css]) simp
  next
    case False
    then have fb: "?full \<Longrightarrow> b" by blast
    obtain t1 m2 css1 where t1: "(if ?full then zc_hashtable_rehash t m else Some (0, t, m)) = Some (0, t1, m2)"
        "ht_rep t1 css1" "same_conf t t1" "same_payload (ht_store t) (ht_store t1)" "set m2 \<subseteq> set m"
      by (rule put_room [OF rep al fb])
    have u1: "uses t1" using u t1(3) by (simp add: uses_def same_conf_def)
    have g1: "zc_hashtable_get t1 k' = zc_hashtable_get t k'" for k'
      using get_same [OF rep u t1(2) u1] t1(4) by blast
    have miss1: "\<not> equal k (he_key e)" if "ht_store t1 a = Some e" for a e
      using get_None_entry [OF t1(2) u1 _ that] g1 none by simp
    obtain rc t2 m3 css2 where t2: "ht_new_entry t1 k v m2 = Some (rc, t2, m3)" "ht_rep t2 css2" "same_conf t1 t2" "set m3 \<subseteq> set m2"
      and res: "rc = 0 \<and> (\<forall>k'. zc_hashtable_get t2 k' = (if equal k' k then Some (Some v) else zc_hashtable_get t1 k')) \<or>
        rc = -1 \<and> False \<in> set m2 \<and> t2 = t1"
      using put_entry [of t1 css1 k v m2] t1(2) u1 miss1 by blast
    have "zc_hashtable_put t k v m = Some (rc, [], t2, m3)" using t1(1) t2(1) by (simp add: put)
    then show ?thesis using t2(2,4) res g1 t1(5) same_conf_trans [OF t1(3) t2(3)]
      by (intro exI [of _ rc] exI [of _ t2] exI [of _ m3] exI [of _ css2]) auto
  qed
qed

lemma put_total:
  assumes rep: "ht_rep t css" and u: "uses t"
  shows "\<exists>rc ds t' m' css'. zc_hashtable_put t k v m = Some (rc, ds, t', m') \<and> ht_rep t' css' \<and> same_conf t t' \<and>
    (rc = 0 \<longrightarrow> (\<forall>k'. zc_hashtable_get t' k' = (if equal k' k then Some (Some v) else zc_hashtable_get t k'))) \<and>
    (rc \<noteq> 0 \<longrightarrow> rc = -1 \<and> False \<in> set m \<and> (\<forall>k'. zc_hashtable_get t' k' = zc_hashtable_get t k')) \<and>
    set m' \<subseteq> set m"
proof (cases "zc_hashtable_get t k = Some None")
  case True
  then show ?thesis using put_miss [OF rep u, of k v m] by blast
next
  case False
  then obtain w where "zc_hashtable_get t k = Some (Some w)" using get_total [OF rep u, of k] by (metis not_None_eq)
  then obtain a e where e: "ht_store t a = Some e" "equal k (he_key e)" by (rule get_Some_entry [OF rep u])
  let ?t = "t\<lparr>ht_store := (ht_store t)(a \<mapsto> e\<lparr>he_key := k, he_value := v\<rparr>)\<rparr>"
  note r = put_replaces [OF rep u e refl, of v]
  show ?thesis
    by (intro exI [of _ 0] exI [of _ "ht_dels t e"] exI [of _ ?t] exI [of _ m] exI [of _ css])
      (use r in simp)
qed

lemma remove_get:
  assumes rep: "ht_rep t css" "uses t" and e: "ht_store t a = Some e" "equal k (he_key e)" and rep': "ht_rep t' css'" "uses t'"
    and pl: "\<And>x. map_option payload (ht_store t' x) = (if x = a then None else map_option payload (ht_store t x))"
  shows "zc_hashtable_get t' k' = (if equal k' k then Some None else zc_hashtable_get t k')"
proof (cases "\<exists>b hk k2 v2. map_option payload (ht_store t' b) = Some (hk, k2, v2) \<and> equal k' k2")
  case True
  have uniq: "b = a" if "ht_store t b = Some e'" "equal (he_key e') k" for b e'
    using rep e that equal_trans unfolding ht_rep_def ents_ok_def uses_def by metis
  obtain b hk k2 v2 where b: "map_option payload (ht_store t' b) = Some (hk, k2, v2)" "equal k' k2" using True by blast
  then have b': "b \<noteq> a" "map_option payload (ht_store t b) = Some (hk, k2, v2)"
    using pl [of b] by (auto split: if_splits)
  have "\<not> equal k2 k" using uniq b' by (auto simp: payload_def)
  then have "\<not> equal k' k" using b(2) equal_sym equal_trans by blast
  then show ?thesis using get_hit [OF rep' b] get_hit [OF rep b'(2) b(2)] by simp
next
  case none: False
  have "zc_hashtable_get t' k' = Some None" using get_miss [OF rep'] none by blast
  moreover have "zc_hashtable_get t k' = Some None" if "\<not> equal k' k"
  proof (rule get_miss [OF rep])
    fix b hk k2 v2
    assume b: "map_option payload (ht_store t b) = Some (hk, k2, v2)"
    show "\<not> equal k' k2"
    proof (cases "b = a")
      case True
      then have "k2 = he_key e" using b e by (simp add: payload_def)
      then show ?thesis using e(2) that equal_sym equal_trans by blast
    next
      case False
      then have "map_option payload (ht_store t' b) = Some (hk, k2, v2)" using b pl [of b] by simp
      then show ?thesis using none by blast
    qed
  qed
  ultimately show ?thesis by simp
qed

lemma remove_total:
  assumes rep: "ht_rep t css" and u: "uses t"
  shows "\<exists>ds t' css'. zc_hashtable_remove t k = Some (ds, t') \<and> ht_rep t' css' \<and> same_conf t t' \<and>
    (\<forall>k'. zc_hashtable_get t' k' = (if equal k' k then Some None else zc_hashtable_get t k')) \<and>
    ht_nelem t' = (if zc_hashtable_get t k = Some None then ht_nelem t else ht_nelem t - 1)"
proof (cases "zc_hashtable_get t k = Some None")
  case True
  have "\<not> equal k (he_key e)" if "ht_store t a = Some e" for a e
    using get_None_entry [OF rep u True that] .
  then have "zc_hashtable_get_entry t k = Some None" by (rule entry_miss [OF rep u])
  then have "zc_hashtable_remove t k = Some ([], t)"
    unfolding zc_hashtable_remove_def zc_hashtable_get_entry_def by (auto simp: Option.bind_eq_Some_conv)
  moreover have "zc_hashtable_get t k' = Some None" if "equal k' k" for k'
  proof (rule get_miss [OF rep u])
    fix a hk k2 v2
    assume "map_option payload (ht_store t a) = Some (hk, k2, v2)"
    then have "\<not> equal k k2" using get_None_entry [OF rep u True] by (auto simp: payload_def)
    then show "\<not> equal k' k2" using that equal_sym equal_trans by blast
  qed
  ultimately show ?thesis using rep True
    by (intro exI [of _ "[]"] exI [of _ t] exI [of _ css]) simp
next
  case False
  then obtain w where w: "zc_hashtable_get t k = Some (Some w)" using get_total [OF rep u, of k] by (metis not_None_eq)
  then obtain a e where e: "ht_store t a = Some e" "equal k (he_key e)" by (rule get_Some_entry [OF rep u])
  have ge: "zc_hashtable_get_entry t k = Some (Some a)" by (rule entry_hit [OF rep u e])
  obtain h' tab' css' where r: "ht_unlink t a e = Some (h', tab')"
      "ht_rep (t\<lparr>ht_store := h', ht_tab := tab', ht_nelem := ht_nelem t - 1\<rparr>) css'"
      "\<And>x. map_option payload (h' x) = (if x = a then None else map_option payload (ht_store t x))"
    by (rule ht_remove_rep [OF rep e(1)]) blast
  let ?t = "t\<lparr>ht_store := h', ht_tab := tab', ht_nelem := ht_nelem t - 1\<rparr>"
  have rm: "zc_hashtable_remove t k = Some (ht_dels t e, ?t)"
    using ge e(1) r(1) unfolding zc_hashtable_remove_def zc_hashtable_get_entry_def
    by (auto simp: Option.bind_eq_Some_conv)
  have "uses ?t" using u by (simp add: uses_def)
  from remove_get [OF rep u e r(2) this] r(3)
  have "zc_hashtable_get ?t k' = (if equal k' k then Some None else zc_hashtable_get t k')" for k' by simp
  then show ?thesis using r(2) rm w
    by (intro exI [of _ "ht_dels t e"] exI [of _ ?t] exI [of _ css']) (simp add: same_conf_def)
qed

end

subsection \<open>Freeing and iterating\<close>

lemma ht_free_chain_correct:
  "nlist h p as \<Longrightarrow> distinct as \<Longrightarrow>
   ht_free_chain t h acc p = Some (h |` (- set as), acc @ concat (map (\<lambda>a. ht_dels t (the (h a))) as))"
proof (induction as arbitrary: h p acc)
  case Nil
  then show ?case by (simp add: ht_free_chain.simps)
next
  case (Cons a as)
  then obtain e where e: "p = Some a" "h a = Some e" "nlist h (he_next e) as" by (auto split: option.splits)
  have n: "nlist (h(a := None)) (he_next e) as"
    using e(3) Cons.prems(2) by (subst nlist_cong [of as "h(a := None)" h]) auto
  have m: "map (\<lambda>x. ht_dels t (the ((h(a := None)) x))) as = map (\<lambda>x. ht_dels t (the (h x))) as"
    using Cons.prems(2) by (intro map_cong) auto
  have r: "(h(a := None)) |` (- set as) = h |` (- set (a # as))"
    by (auto simp: restrict_map_def fun_eq_iff)
  have d: "distinct as" using Cons.prems(2) by simp
  have "ht_free_chain t h acc p = ht_free_chain t (h(a := None)) (acc @ ht_dels t e) (he_next e)"
    using e by (simp add: ht_free_chain.simps [of t h])
  also have "\<dots> = Some (h |` (- set (a # as)), (acc @ ht_dels t e) @ concat (map (\<lambda>x. ht_dels t (the (h x))) as))"
    unfolding Cons.IH [OF n d] m r ..
  finally show ?case using e(2) by simp
qed

lemma ht_free_chains_correct:
  "list_all2 (nlist h) ps css \<Longrightarrow> distinct (concat css) \<Longrightarrow>
   ht_free_chains t h acc ps =
     Some (h |` (- set (concat css)), acc @ concat (map (\<lambda>a. ht_dels t (the (h a))) (concat css)))"
proof (induction ps arbitrary: h css acc)
  case Nil
  then show ?case by simp
next
  case (Cons p ps)
  then obtain as css' where c: "css = as # css'" "nlist h p as" "list_all2 (nlist h) ps css'"
    by (auto simp: list_all2_Cons1)
  let ?h = "h |` (- set as)"
  have dis: "set as \<inter> set (concat css') = {}" "distinct as" "distinct (concat css')"
    using Cons.prems(2) c(1) by auto
  have "nlist h q bs = nlist ?h q bs" if "bs \<in> set css'" for q bs
    using that dis by (intro nlist_cong) (auto simp: restrict_map_def)
  then have n: "list_all2 (nlist ?h) ps css'"
    using c(3) by (auto simp: list_all2_conv_all_nth)
  have "map (\<lambda>x. ht_dels t (the (?h x))) (concat css') = map (\<lambda>x. ht_dels t (the (h x))) (concat css')"
    using dis by (intro map_cong) (auto simp: restrict_map_def)
  then have "concat (map (\<lambda>x. ht_dels t (the (?h x))) (concat css')) =
      concat (map (\<lambda>x. ht_dels t (the (h x))) (concat css'))" by (rule arg_cong)
  moreover have "?h |` (- set (concat css')) = h |` (- set (concat css))"
    using c(1) by (auto simp: restrict_map_def fun_eq_iff)
  ultimately show ?case
    using Cons.IH [OF n dis(3)] ht_free_chain_correct [OF c(2) dis(2), of t acc] c(1) by simp
qed

lemma ht_rep_nlists: "ht_rep t css \<Longrightarrow> list_all2 (nlist (ht_store t)) (ht_tab t) css"
  by (auto simp: ht_rep_def ht_chains_def list_all2_conv_all_nth intro: dll_nlist)

text \<open>All callbacks of a table, entry by entry in the order of the chains.\<close>

definition all_dels :: "('k, 'v) zc_hashtable \<Rightarrow> nat list list \<Rightarrow> ('k, 'v) ht_del list" where
  "all_dels t css = concat (map (\<lambda>a. ht_dels t (the (ht_store t a))) (concat css))"

lemma ht_del_rep:
  assumes "ht_rep t css"
  shows "zc_hashtable_del t = Some (Map.empty, all_dels t css)"
proof -
  have "distinct (concat css)" "length (ht_tab t) = ht_tab_size t" "dom (ht_store t) = set (concat css)"
    using assms by (auto simp: ht_rep_def ht_chains_def)
  moreover from this(3) have "ht_store t |` (- set (concat css)) = Map.empty"
    by (auto simp: restrict_map_def fun_eq_iff simp flip: domIff)
  ultimately show ?thesis
    using ht_free_chains_correct [OF ht_rep_nlists [OF assms], of t "[]"]
    by (simp add: zc_hashtable_del_def all_dels_def)
qed

lemma ht_clean_rep:
  assumes "ht_rep t css"
  shows "\<exists>t'. zc_hashtable_clean t = Some (t', all_dels t css) \<and> ht_rep t' (replicate (ht_tab_size t) []) \<and>
    same_conf t t' \<and> ht_store t' = Map.empty \<and> ht_nelem t' = 0"
proof -
  have t: "length (ht_tab t) = ht_tab_size t" "0 < ht_tab_size t" using assms by (auto simp: ht_rep_def)
  have "ht_free_chains t (ht_store t) [] (ht_tab t) = Some (Map.empty, all_dels t css)"
    using ht_del_rep [OF assms] t by (simp add: zc_hashtable_del_def)
  then show ?thesis using t
    by (auto simp: zc_hashtable_clean_def same_conf_def ht_rep_def ht_chains_def placed_def ents_ok_def)
qed

definition head :: "'a list \<Rightarrow> 'a option" where
  "head xs = (case xs of [] \<Rightarrow> None | x # _ \<Rightarrow> Some x)"

lemma concat_split:
  "concat xss = us @ x # vs \<Longrightarrow>
   \<exists>i xs ys. i < length xss \<and> xss ! i = xs @ x # ys \<and> vs = ys @ concat (drop (Suc i) xss)"
proof (induction xss arbitrary: us)
  case (Cons zs xss)
  then have "zs @ concat xss = us @ x # vs" by simp
  then consider ws where "zs = us @ ws" "ws @ concat xss = x # vs"
    | ws where "us = zs @ ws" "concat xss = ws @ x # vs"
    by (auto simp: append_eq_append_conv2)
  then show ?case
  proof cases
    case 1
    show ?thesis
    proof (cases ws)
      case Nil
      then obtain i xs ys where "i < length xss" "xss ! i = xs @ x # ys" "vs = ys @ concat (drop (Suc i) xss)"
        using Cons.IH [of "[]"] 1(2) by auto
      then show ?thesis by (intro exI [of _ "Suc i"] exI [of _ xs] exI [of _ ys]) simp
    next
      case (Cons w ws')
      then show ?thesis using 1 by (intro exI [of _ 0] exI [of _ us] exI [of _ ws']) simp
    qed
  next
    case 2
    then obtain i xs ys where "i < length xss" "xss ! i = xs @ x # ys" "vs = ys @ concat (drop (Suc i) xss)"
      using Cons.IH by blast
    then show ?thesis by (intro exI [of _ "Suc i"] exI [of _ xs] exI [of _ ys]) simp
  qed
qed simp

lemma somes_heads: "list_all2 (\<lambda>p as. p = head as) ps css \<Longrightarrow> head (somes ps) = head (concat css)"
proof (induction ps css rule: list_all2_induct)
  case (Cons p ps as css)
  then show ?case by (cases as) (simp_all add: head_def)
qed simp

lemma ht_first_from_rep:
  assumes "ht_rep t css"
  shows "ht_first_from t j = Some (head (concat (drop j css)))"
proof -
  have t: "length (ht_tab t) = ht_tab_size t" "ht_chains (ht_store t) (ht_tab t) css"
    using assms by (auto simp: ht_rep_def)
  have "list_all2 (\<lambda>p as. p = head as) (ht_tab t) css"
    using t(2) by (auto simp: ht_chains_def list_all2_conv_all_nth head_def dest!: dll_hd)
  then have "list_all2 (\<lambda>p as. p = head as) (drop j (ht_tab t)) (drop j css)" by (rule list_all2_dropI)
  then show ?thesis using somes_heads [of "drop j (ht_tab t)" "drop j css"] t(1)
    by (simp add: ht_first_from_def head_def)
qed

lemma dll_next:
  assumes "dll h p (xs @ a # ys)"
  shows "\<exists>e. h a = Some e \<and> he_next e = head ys"
proof -
  obtain pv pv' p' where "dseg h pv p' (a # ys) pv' None" using assms by (auto simp: dll_def dseg_append)
  then show ?thesis by (cases ys) (auto simp: head_def split: option.splits)
qed

lemma ht_next_rep:
  assumes "ht_rep t css" and "concat css = us @ a # vs"
  shows "zc_hashtable_next t a = Some (head vs)"
proof -
  obtain i xs ys where i: "i < length css" "css ! i = xs @ a # ys" "vs = ys @ concat (drop (Suc i) css)"
    using concat_split [OF assms(2)] by blast
  have "dll (ht_store t) (ht_tab t ! i) (xs @ a # ys)"
    using assms(1) i by (auto simp: ht_rep_def ht_chains_def)
  then obtain e where e: "ht_store t a = Some e" "he_next e = head ys" using dll_next by blast
  have "ht_slot (ht_tab_size t) (ht_store t) a = i"
    using assms(1) i by (simp add: ht_rep_def placed_def)
  then have "unat (he_hash_key e) mod ht_tab_size t = i" using e by (simp add: ht_slot_def)
  then show ?thesis
    using e i(3) ht_first_from_rep [OF assms(1), of "Suc i"]
    by (cases ys) (auto simp: zc_hashtable_next_def head_def)
qed

lemma ht_foreach_from_rep:
  "ht_rep t css \<Longrightarrow> concat css = us @ vs \<Longrightarrow> ht_foreach_from t acc (head vs) = Some (acc @ vs)"
proof (induction vs arbitrary: us acc)
  case Nil
  then show ?case by (simp add: head_def ht_foreach_from.simps)
next
  case (Cons a vs)
  have "ht_foreach_from t (acc @ [a]) (head vs) = Some ((acc @ [a]) @ vs)"
    using Cons.IH [of "us @ [a]"] Cons.prems by simp
  then show ?case using ht_next_rep [OF Cons.prems]
    by (simp add: ht_foreach_from.simps [of t acc] head_def)
qed

lemma ht_foreach_rep: "ht_rep t css \<Longrightarrow> zc_hashtable_foreach t = Some (concat css)"
  using ht_first_from_rep [of t css 0] ht_foreach_from_rep [of t css "[]" "concat css" "[]"]
  by (simp add: zc_hashtable_foreach_def zc_hashtable_begin_def)

subsection \<open>The string table\<close>

lemma str_hash_loop_closed:
  "str_hash_loop h cs = h * 33 ^ length cs + (\<Sum>i<length cs. schar (cs ! i) * 33 ^ (length cs - 1 - i))"
proof (induction cs arbitrary: h)
  case (Cons c cs)
  have s: "push_bit 5 h + h = h * 33" for h :: "32 word" by (simp add: push_bit_eq_mult)
  have "(\<Sum>i<length (c # cs). schar ((c # cs) ! i) * 33 ^ (length (c # cs) - 1 - i)) =
      schar c * 33 ^ length cs + (\<Sum>i<length cs. schar (cs ! i) * 33 ^ (length cs - 1 - i))"
    by (simp add: sum.lessThan_Suc_shift del: sum.lessThan_Suc)
  moreover have "str_hash_loop h (c # cs) = str_hash_loop (h * 33 + schar c) cs" by (simp add: s)
  ultimately show ?case unfolding Cons.IH by (simp add: algebra_simps)
qed simp

interpretation str: hash_key zc_hashtable_str_hash zc_hashtable_str_equal
  by unfold_locales (auto simp: zc_hashtable_str_equal_def)

text \<open>A table of strings: the invariant and the two callbacks of the same file.\<close>

definition str_table :: "(string, 'v) zc_hashtable \<Rightarrow> bool" where
  "str_table t \<longleftrightarrow> ht_inv t \<and> ht_hash t = zc_hashtable_str_hash \<and> ht_equal t = zc_hashtable_str_equal"

lemma str_tableE:
  assumes "str_table t"
  obtains css where "ht_rep t css" "str.uses t"
  using assms by (auto simp: str_table_def ht_inv_def str.uses_def)

lemma str_tableI: "ht_rep t css \<Longrightarrow> str.uses t \<Longrightarrow> str_table t"
  by (auto simp: str_table_def ht_inv_def str.uses_def)

lemma str_table_conf: "str_table t \<Longrightarrow> same_conf t t' \<Longrightarrow> ht_rep t' css \<Longrightarrow> str_table t'"
  by (auto simp: str_table_def ht_inv_def same_conf_def)

lemma str_table_new:
  "zc_hashtable_new n zc_hashtable_str_hash zc_hashtable_str_equal kd vd m = (Some t, m') \<Longrightarrow> 0 < n \<Longrightarrow>
   str_table t \<and> ht_abs t = Map.empty \<and> ht_nelem t = 0"
proof -
  assume a: "zc_hashtable_new n zc_hashtable_str_hash zc_hashtable_str_equal kd vd m = (Some t, m')" "0 < n"
  note r = ht_rep_new [OF a]
  have u: "str.uses t" using r by (simp add: str.uses_def)
  have "ht_store t = Map.empty" "ht_nelem t = 0"
    using a(1) by (auto simp: zc_hashtable_new_def split: prod.splits if_splits)
  then show ?thesis using str.get_miss [OF conjunct1 [OF r] u] str_tableI [OF conjunct1 [OF r] u]
    by (auto simp: ht_abs_def fun_eq_iff)
qed

lemma str_table_fresh:
  "0 < n \<Longrightarrow> str_table (the (fst (zc_hashtable_new n zc_hashtable_str_hash zc_hashtable_str_equal kd vd [])))"
  by (rule conjunct1 [OF str_table_new [of n kd vd "[]" _ "[]"]]) (simp_all add: zc_hashtable_new_def)

lemma str_get: "str_table t \<Longrightarrow> zc_hashtable_get t k = Some (ht_abs t k)"
proof -
  assume "str_table t"
  then obtain css where "ht_rep t css" "str.uses t" by (rule str_tableE)
  from str.get_total [OF this, of k] show ?thesis by (auto simp: ht_abs_def)
qed

lemma str_put:
  assumes "str_table t"
  shows "\<exists>rc ds t' m'. zc_hashtable_put t k v m = Some (rc, ds, t', m') \<and> str_table t' \<and> same_conf t t' \<and>
    (rc = 0 \<and> ht_abs t' = (ht_abs t)(k \<mapsto> v) \<or> rc = -1 \<and> False \<in> set m \<and> ht_abs t' = ht_abs t) \<and>
    set m' \<subseteq> set m"
proof -
  obtain css where rep: "ht_rep t css" "str.uses t" by (rule str_tableE [OF assms])
  obtain rc ds t' m' css' where p: "zc_hashtable_put t k v m = Some (rc, ds, t', m')" "ht_rep t' css'" "same_conf t t'"
      "set m' \<subseteq> set m"
    and z: "rc = 0 \<Longrightarrow> \<forall>k'. zc_hashtable_get t' k' = (if zc_hashtable_str_equal k' k then Some (Some v) else zc_hashtable_get t k')"
    and nz: "rc \<noteq> 0 \<Longrightarrow> rc = -1 \<and> False \<in> set m \<and> (\<forall>k'. zc_hashtable_get t' k' = zc_hashtable_get t k')"
    using str.put_total [OF rep, of k v m] by blast
  have "rc = 0 \<Longrightarrow> ht_abs t' = (ht_abs t)(k \<mapsto> v)"
    using z by (auto simp: ht_abs_def fun_eq_iff zc_hashtable_str_equal_def)
  moreover have "rc \<noteq> 0 \<Longrightarrow> ht_abs t' = ht_abs t" using nz by (auto simp: ht_abs_def fun_eq_iff)
  ultimately have "rc = 0 \<and> ht_abs t' = (ht_abs t)(k \<mapsto> v) \<or> rc = -1 \<and> False \<in> set m \<and> ht_abs t' = ht_abs t"
    using nz by blast
  then show ?thesis using p str_table_conf [OF assms p(3,2)] by blast
qed

lemma str_remove:
  assumes "str_table t"
  shows "\<exists>ds t'. zc_hashtable_remove t k = Some (ds, t') \<and> str_table t' \<and> same_conf t t' \<and>
    ht_abs t' = (ht_abs t)(k := None) \<and> ht_nelem t' = (if ht_abs t k = None then ht_nelem t else ht_nelem t - 1)"
proof -
  obtain css where rep: "ht_rep t css" "str.uses t" by (rule str_tableE [OF assms])
  obtain ds t' css' where p: "zc_hashtable_remove t k = Some (ds, t')" "ht_rep t' css'" "same_conf t t'"
    and g: "\<forall>k'. zc_hashtable_get t' k' = (if zc_hashtable_str_equal k' k then Some None else zc_hashtable_get t k')"
    and n: "ht_nelem t' = (if zc_hashtable_get t k = Some None then ht_nelem t else ht_nelem t - 1)"
    using str.remove_total [OF rep, of k] by blast
  have "ht_abs t' = (ht_abs t)(k := None)"
    using g by (auto simp: ht_abs_def fun_eq_iff zc_hashtable_str_equal_def)
  moreover have "ht_nelem t' = (if ht_abs t k = None then ht_nelem t else ht_nelem t - 1)"
    using n str_get [OF assms] by simp
  ultimately show ?thesis using p str_table_conf [OF assms p(3,2)] by blast
qed

lemma str_clean:
  assumes "str_table t"
  shows "\<exists>ds t'. zc_hashtable_clean t = Some (t', ds) \<and> str_table t' \<and> same_conf t t' \<and> ht_abs t' = Map.empty"
proof -
  obtain css where rep: "ht_rep t css" "str.uses t" by (rule str_tableE [OF assms])
  from ht_clean_rep [OF rep(1)] obtain t' where c: "zc_hashtable_clean t = Some (t', all_dels t css)"
      "ht_rep t' (replicate (ht_tab_size t) [])" "same_conf t t'" "ht_store t' = Map.empty" by blast
  have "str.uses t'" using rep(2) c(3) by (simp add: str.uses_def same_conf_def)
  then have "ht_abs t' = Map.empty" using str.get_miss [OF c(2)] c(4) by (auto simp: ht_abs_def fun_eq_iff)
  then show ?thesis using c str_table_conf [OF assms c(3,2)] by blast
qed

lemma str_entries:
  assumes "ht_rep t css" and "str.uses t"
  defines "kv \<equiv> \<lambda>a. (he_key (the (ht_store t a)), he_value (the (ht_store t a)))"
  shows "map_of (map kv (concat css)) = ht_abs t" and "distinct (map fst (map kv (concat css)))"
proof -
  have d: "dom (ht_store t) = set (concat css)" "distinct (concat css)"
    using assms(1) by (auto simp: ht_rep_def ht_chains_def)
  have u: "a = b" if "ht_store t a = Some e" "ht_store t b = Some e'" "he_key e = he_key e'" for a b e e'
    using assms(1,2) that by (auto simp: ht_rep_def ents_ok_def str.uses_def zc_hashtable_str_equal_def)
  have "inj_on (fst \<circ> kv) (set (concat css))"
    unfolding d(1) [symmetric] by (rule inj_onI) (auto simp: kv_def dom_def dest: u)
  then show dk: "distinct (map fst (map kv (concat css)))"
    using d(2) by (simp add: distinct_map)
  show "map_of (map kv (concat css)) = ht_abs t"
  proof
    fix k
    show "map_of (map kv (concat css)) k = ht_abs t k"
    proof (cases "ht_abs t k")
      case None
      then have "zc_hashtable_get t k = Some None"
        using str_get [OF str_tableI [OF assms(1,2)]] by simp
      from str.get_None_entry [OF assms(1,2) this] have "k \<noteq> he_key e" if "ht_store t a = Some e" for a e
        using that by (auto simp: zc_hashtable_str_equal_def)
      moreover have "\<exists>e. ht_store t a = Some e" if "a \<in> set (concat css)" for a using that d(1) by blast
      ultimately have "k \<notin> fst ` set (map kv (concat css))"
        by (fastforce simp: kv_def simp del: set_concat)
      then show ?thesis using None by (simp add: map_of_eq_None_iff del: map_map set_map)
    next
      case (Some v)
      then have "zc_hashtable_get t k = Some (Some v)"
        using str_get [OF str_tableI [OF assms(1,2)]] by simp
      then obtain a e where e: "ht_store t a = Some e" "k = he_key e" "he_value e = v"
        by (rule str.get_Some_entry [OF assms(1,2)]) (simp add: zc_hashtable_str_equal_def)
      then have "a \<in> set (concat css)" using d(1) by blast
      then have "(k, v) \<in> set (map kv (concat css))"
        using e by (auto simp: kv_def simp del: set_concat intro!: rev_image_eqI [of a])
      then show ?thesis using Some map_of_is_SomeI [OF dk] by simp
    qed
  qed
qed

lemma str_nelem: "str_table t \<Longrightarrow> ht_nelem t = card (dom (ht_abs t))"
proof -
  assume "str_table t"
  then obtain css where r: "ht_rep t css" "str.uses t" by (rule str_tableE)
  let ?kv = "\<lambda>a. (he_key (the (ht_store t a)), he_value (the (ht_store t a)))"
  have "dom (ht_abs t) = set (map fst (map ?kv (concat css)))"
    unfolding str_entries(1) [OF r, symmetric] by (simp add: dom_map_of_conv_image_fst image_image del: set_concat)
  then have "card (dom (ht_abs t)) = length (concat css)"
    using distinct_card [OF str_entries(2) [OF r]] by simp
  then show ?thesis using r(1) by (simp add: ht_rep_def)
qed

text \<open>Sequences of calls, on the table and on a finite map.\<close>

datatype 'v ht_op = HPut string 'v | HRemove string | HClean

fun ht_step :: "(string, 'v) zc_hashtable \<Rightarrow> 'v ht_op \<Rightarrow> (string, 'v) zc_hashtable option" where
  "ht_step t (HPut k v) = do { (rc, ds, t, m) \<leftarrow> zc_hashtable_put t k v []; if rc \<noteq> 0 then None else Some t }"
| "ht_step t (HRemove k) = do { (ds, t) \<leftarrow> zc_hashtable_remove t k; Some t }"
| "ht_step t HClean = do { (t, ds) \<leftarrow> zc_hashtable_clean t; Some t }"

fun ht_run :: "(string, 'v) zc_hashtable \<Rightarrow> 'v ht_op list \<Rightarrow> (string, 'v) zc_hashtable option" where
  "ht_run t [] = Some t"
| "ht_run t (x # xs) = do { t \<leftarrow> ht_step t x; ht_run t xs }"

fun map_step :: "(string \<rightharpoonup> 'v) \<Rightarrow> 'v ht_op \<Rightarrow> (string \<rightharpoonup> 'v)" where
  "map_step f (HPut k v) = f(k \<mapsto> v)"
| "map_step f (HRemove k) = f(k := None)"
| "map_step f HClean = Map.empty"

lemma ht_step_refines: "str_table t \<Longrightarrow> \<exists>t'. ht_step t x = Some t' \<and> str_table t' \<and> ht_abs t' = map_step (ht_abs t) x"
proof (cases x)
  case (HPut k v)
  assume "str_table t"
  from str_put [OF this, of k v "[]"] HPut show ?thesis by auto
next
  case (HRemove k)
  assume "str_table t"
  from str_remove [OF this, of k] HRemove show ?thesis by auto
next
  case HClean
  assume "str_table t"
  from str_clean [OF this] HClean show ?thesis by auto
qed

lemma ht_run_refines:
  "str_table t \<Longrightarrow> \<exists>t'. ht_run t xs = Some t' \<and> str_table t' \<and> ht_abs t' = foldl map_step (ht_abs t) xs"
proof (induction xs arbitrary: t)
  case (Cons x xs)
  from ht_step_refines [OF Cons.prems, of x] obtain t1 where
    "ht_step t x = Some t1" "str_table t1" "ht_abs t1 = map_step (ht_abs t) x" by blast
  with Cons.IH [of t1] show ?case by auto
qed simp

subsection \<open>Properties\<close>

text \<open>C17: Any sequence of \<open>zc_hashtable_put\<close>, \<open>zc_hashtable_remove\<close> and \<open>zc_hashtable_clean\<close> on a new
  string table, growing by \<open>zc_hashtable_rehash\<close> as it goes and with no allocation failing, runs
  without touching a dangling pointer and implements the corresponding updates of a finite map: every
  \<open>zc_hashtable_get\<close> returns the last value put under its key and not removed since, and \<open>nelem\<close> is
  the number of keys.\<close>

theorem zc_hashtable_refines_map:
  assumes "0 < n" and "zc_hashtable_new n zc_hashtable_str_hash zc_hashtable_str_equal kd vd m = (Some t, m')"
  shows "\<exists>t'. ht_run t xs = Some t' \<and>
    (\<forall>k. zc_hashtable_get t' k = Some (foldl map_step Map.empty xs k)) \<and>
    ht_nelem t' = card (dom (foldl map_step Map.empty xs))"
proof -
  have "str_table t" "ht_abs t = Map.empty" using str_table_new [OF assms(2,1)] by simp_all
  with ht_run_refines [of t xs] obtain t' where t': "ht_run t xs = Some t'" "str_table t'"
      "ht_abs t' = foldl map_step Map.empty xs" by auto
  then show ?thesis using str_get [OF t'(2)] str_nelem [OF t'(2)] by auto
qed

theorem zc_hashtable_refines_map_witness:
  "\<exists>t'. ht_run (the (fst (zc_hashtable_new 1 zc_hashtable_str_hash zc_hashtable_str_equal False False [])))
      [HPut ''a'' (1::nat), HPut ''b'' 2, HPut ''a'' 3, HRemove ''b''] = Some t' \<and>
    zc_hashtable_get t' ''a'' = Some (Some 3) \<and> zc_hashtable_get t' ''b'' = Some None"
  using zc_hashtable_refines_map [of 1 False False "[]"
      "the (fst (zc_hashtable_new 1 zc_hashtable_str_hash zc_hashtable_str_equal False False []))" "[]"
      "[HPut ''a'' (1::nat), HPut ''b'' 2, HPut ''a'' 3, HRemove ''b'']"]
  by (auto simp: zc_hashtable_new_def)

text \<open>C19: \<open>zc_hashtable_put\<close> on a string table, for any allocation outcome: it returns 0 and the table maps
  the key to the value and every other key as before, or it returns -1, only when an allocation (of the
  doubled bucket array or of the entry) failed, and then no key has changed. The invariant holds after
  either outcome.\<close>

theorem zc_hashtable_put_correct:
  assumes "str_table t"
  shows "\<exists>rc ds t' m'. zc_hashtable_put t k v m = Some (rc, ds, t', m') \<and> str_table t' \<and>
    (rc = 0 \<and> (\<forall>k'. zc_hashtable_get t' k' = (if k' = k then Some (Some v) else zc_hashtable_get t k')) \<or>
     rc = -1 \<and> False \<in> set m \<and> (\<forall>k'. zc_hashtable_get t' k' = zc_hashtable_get t k'))"
proof -
  from str_put [OF assms, of k v m] obtain rc ds t' m' where
    p: "zc_hashtable_put t k v m = Some (rc, ds, t', m')" "str_table t'"
    "rc = 0 \<and> ht_abs t' = (ht_abs t)(k \<mapsto> v) \<or> rc = -1 \<and> False \<in> set m \<and> ht_abs t' = ht_abs t" by blast
  then show ?thesis using str_get [OF p(2)] str_get [OF assms] by auto
qed

theorem zc_hashtable_put_correct_witness:
  "\<exists>rc ds t' m'. zc_hashtable_put (the (fst (zc_hashtable_new 2 zc_hashtable_str_hash zc_hashtable_str_equal True True [])))
      ''x'' (7::nat) [False] = Some (rc, ds, t', m') \<and> (rc = 0 \<or> rc = -1) \<and> str_table t'"
  using zc_hashtable_put_correct [OF str_table_fresh [of 2 True True], of "''x''" "7::nat" "[False]"] by fastforce

text \<open>C23: \<open>zc_hashtable_foreach\<close> (\<open>zc_hashtable_begin\<close>, then \<open>zc_hashtable_next\<close> until it is null) ends and
  runs its body on every entry exactly once, and the entries it runs on are the table's key-value pairs;
  \<open>zc_hashtable_del\<close> makes the callbacks of exactly these entries, in this order, and leaves no node
  allocated.\<close>

theorem zc_hashtable_foreach_once:
  assumes "str_table t"
  shows "\<exists>as. zc_hashtable_foreach t = Some as \<and> distinct as \<and>
    map_of (map (\<lambda>a. (he_key (the (ht_store t a)), he_value (the (ht_store t a)))) as) = ht_abs t \<and>
    distinct (map (\<lambda>a. he_key (the (ht_store t a))) as) \<and> length as = ht_nelem t \<and>
    zc_hashtable_del t = Some (Map.empty, concat (map (\<lambda>a. ht_dels t (the (ht_store t a))) as))"
proof -
  obtain css where r: "ht_rep t css" "str.uses t" by (rule str_tableE [OF assms])
  have "distinct (concat css)" "length (concat css) = ht_nelem t"
    using r(1) by (auto simp: ht_rep_def ht_chains_def)
  then show ?thesis
    using ht_foreach_rep [OF r(1)] str_entries [OF r] ht_del_rep [OF r(1)]
    by (intro exI [of _ "concat css"]) (simp add: all_dels_def comp_def)
qed

theorem zc_hashtable_foreach_once_witness:
  "\<exists>as. zc_hashtable_foreach (the (fst (zc_hashtable_new 3 zc_hashtable_str_hash zc_hashtable_str_equal True True [])) ::
      (string, nat) zc_hashtable) = Some as \<and> distinct as \<and> length as = 0"
proof -
  have "str_table (the (fst (zc_hashtable_new 3 zc_hashtable_str_hash zc_hashtable_str_equal True True [])) ::
      (string, nat) zc_hashtable)" by (rule str_table_fresh) simp
  from zc_hashtable_foreach_once [OF this] show ?thesis by (auto simp: zc_hashtable_new_def)
qed

end
