(* ===== verification/Zlog_Buf.thy ===== *)
theory Zlog_Buf
  imports Zlog_Prelude
begin

text \<open>
  The growing text buffer of \<^verbatim>\<open>buf.c\<close> and \<^verbatim>\<open>buf.h\<close>, in which every message and path is built.
  The block \<open>start\<close> points to is a list of cells (\<open>None\<close>: a byte never written); \<open>tail\<close>, \<open>end\<close>
  and \<open>end_plus_1\<close> are offsets into it. A source block that \<open>memcpy\<close> reads is a string, and reading
  past it is undefined behaviour, as is writing past the cells.
  The predicate \<open>buf_puts\<close> is the abstract specification of appending text with a size limit; the
  five printing operations are shown to implement it, through the locale \<open>text_sink\<close>.
\<close>

definition MAXLEN_PATH :: nat where "MAXLEN_PATH = 1024"

definition ZLOG_INT32_LEN :: nat where "ZLOG_INT32_LEN = 11"

definition ZLOG_INT64_LEN :: nat where "ZLOG_INT64_LEN = 20"

definition ZLOG_MAX_UINT32_VALUE :: "32 word" where "ZLOG_MAX_UINT32_VALUE = 0xffffffff"

record zlog_buf =
  zb_start :: "char option list option"
  zb_tail :: nat
  zb_end :: nat
  zb_end_plus_1 :: nat
  zb_size_min :: nat
  zb_size_max :: nat
  zb_size_real :: nat
  zb_truncate_str :: string
  zb_truncate_str_len :: nat

definition zlog_buf_new :: "nat \<Rightarrow> nat \<Rightarrow> string option \<Rightarrow> mem \<Rightarrow> zlog_buf option \<times> mem" where
  "zlog_buf_new buf_size_min buf_size_max truncate_str m =
     (if buf_size_min = 0 then (None, m)
      else if buf_size_max \<noteq> 0 \<and> buf_size_max < buf_size_min then (None, m)
      else let (ok, m) = alloc m in
        if \<not> ok then (None, m)
        else if (case truncate_str of None \<Rightarrow> False | Some s \<Rightarrow> length s > MAXLEN_PATH) then (None, m)
        else let (ok, m) = alloc m in
          if \<not> ok then (None, m)
          else (Some \<lparr>zb_start = Some (replicate buf_size_min (Some (CHR 0x00))), zb_tail = 0,
                      zb_end = buf_size_min - 1, zb_end_plus_1 = buf_size_min,
                      zb_size_min = buf_size_min, zb_size_max = buf_size_max, zb_size_real = buf_size_min,
                      zb_truncate_str = (case truncate_str of None \<Rightarrow> [] | Some s \<Rightarrow> s),
                      zb_truncate_str_len = (case truncate_str of None \<Rightarrow> 0 | Some s \<Rightarrow> length s)\<rparr>, m))"

text \<open>\<open>zlog_buf_del\<close>: the number of blocks it frees.\<close>

definition zlog_buf_del :: "zlog_buf \<Rightarrow> nat" where
  "zlog_buf_del b = (if zb_start b \<noteq> None then 2 else 1)"

text \<open>\<open>memset\<close>/\<open>memcpy\<close> into the block at an offset, the latter reading \<open>n\<close> bytes of a source block.\<close>

definition buf_write :: "zlog_buf \<Rightarrow> nat \<Rightarrow> string \<Rightarrow> zlog_buf option" where
  "buf_write b off cs =
     (if cs = [] then Some b
      else do {
        cells \<leftarrow> zb_start b;
        cells \<leftarrow> write_at cells off (map Some cs);
        Some (b\<lparr>zb_start := Some cells\<rparr>)
      })"

definition buf_copy :: "zlog_buf \<Rightarrow> nat \<Rightarrow> string \<Rightarrow> nat \<Rightarrow> zlog_buf option" where
  "buf_copy b off src n = (if n > length src then None else buf_write b off (take n src))"

text \<open>
  \<open>zlog_buf_truncate\<close>: subtraction on \<open>nat\<close> is the test \<open>p < start\<close> of the source. With a null
  \<open>start\<close> the pointer wraps around instead, which is undefined.
\<close>

definition zlog_buf_truncate :: "zlog_buf \<Rightarrow> zlog_buf option" where
  "zlog_buf_truncate b =
     (if zb_truncate_str b = [] then Some b
      else if zb_start b = None then None
      else let p = zb_tail b - zb_truncate_str_len b; len = zb_tail b - p in
        buf_copy b p (zb_truncate_str b) len)"

text \<open>
  \<open>zlog_buf_resize\<close>. The double expression \<open>size_real + 1.5 * increment\<close> is exact below \<open>2 ^ 51\<close>
  and its conversion rounds down. \<open>realloc\<close> keeps the old bytes; the new ones are not initialised.
\<close>

definition buf_realloc :: "char option list option \<Rightarrow> nat \<Rightarrow> char option list" where
  "buf_realloc start n =
     (let old = (case start of None \<Rightarrow> [] | Some cells \<Rightarrow> cells) in
      take n old @ replicate (n - length old) None)"

definition zlog_buf_resize :: "zlog_buf \<Rightarrow> nat \<Rightarrow> mem \<Rightarrow> int \<times> zlog_buf \<times> mem" where
  "zlog_buf_resize b increment m =
     (if zb_size_max b \<noteq> 0 \<and> zb_size_real b \<ge> zb_size_max b then (1, b, m)
      else
        let (new_size, rc) =
              (if zb_size_max b = 0 then (zb_size_real b + (3 * increment) div 2, 0)
               else if zb_size_real b + increment \<le> zb_size_max b then (zb_size_real b + increment, 0)
               else (zb_size_max b, 1));
            len = zb_tail b;
            (ok, m) = alloc m
        in
          if \<not> ok then
            (-1, b\<lparr>zb_start := None, zb_tail := 0, zb_end := 0, zb_end_plus_1 := 0\<rparr>, m)
          else
            (rc, b\<lparr>zb_start := Some (buf_realloc (zb_start b) new_size), zb_tail := len,
                   zb_size_real := new_size, zb_end_plus_1 := new_size, zb_end := new_size - 1\<rparr>, m))"

text \<open>
  \<open>vsnprintf\<close> into the block at \<open>tail\<close>: \<open>out\<close> is the text the format and its arguments produce
  (\<open>None\<close>: an encoding error); at most \<open>n - 1\<close> bytes and a zero byte are stored.
\<close>

definition buf_vsnprintf :: "zlog_buf \<Rightarrow> nat \<Rightarrow> string option \<Rightarrow> (int \<times> zlog_buf) option" where
  "buf_vsnprintf b n out =
     (case out of
        None \<Rightarrow> Some (-1, b)
      | Some s \<Rightarrow> do {
          b \<leftarrow> (if n = 0 then Some b else buf_write b (zb_tail b) (take (n - 1) s @ [CHR 0x00]));
          Some (int (length s), b)
        })"

definition zlog_buf_vprintf :: "zlog_buf \<Rightarrow> string option \<Rightarrow> mem \<Rightarrow> (int \<times> zlog_buf \<times> mem) option" where
  "zlog_buf_vprintf b out m =
     (if zb_start b = None then Some (-1, b, m)
      else let size_left = zb_end_plus_1 b - zb_tail b in
        do {
          (nwrite, b) \<leftarrow> buf_vsnprintf b size_left out;
          if nwrite \<ge> 0 \<and> nwrite < int size_left then
            Some (0, b\<lparr>zb_tail := zb_tail b + nat nwrite\<rparr>, m)
          else if nwrite < 0 then Some (-1, b, m)
          else
            let (rc, b, m) = zlog_buf_resize b (nat nwrite - size_left + 1) m in
            if rc > 0 then
              let size_left = zb_end_plus_1 b - zb_tail b in
              do {
                (_, b) \<leftarrow> buf_vsnprintf b size_left out;
                b \<leftarrow> zlog_buf_truncate (b\<lparr>zb_tail := zb_tail b + size_left - 1\<rparr>);
                Some (1, b, m)
              }
            else if rc < 0 then Some (-1, b, m)
            else
              let size_left = zb_end_plus_1 b - zb_tail b in
              do {
                (nwrite, b) \<leftarrow> buf_vsnprintf b size_left out;
                if nwrite < 0 then Some (-1, b, m)
                else Some (0, b\<lparr>zb_tail := zb_tail b + nat nwrite\<rparr>, m)
              }
        })"

text \<open>
  The digit loops write from the end of an array \<open>tmp\<close> downwards; the first argument is the number
  of cells below the write position, and a write below the array is undefined.
\<close>

fun dec_loop :: "nat \<Rightarrow> 'w::len word \<Rightarrow> string \<Rightarrow> string option" where
  "dec_loop 0 w p = None"
| "dec_loop (Suc room) w p =
     (let p = char_of (unat (w mod 10) + 48) # p; w = w div 10 in
      if w = 0 then Some p else dec_loop room w p)"

definition hex_digits :: string where "hex_digits = ''0123456789abcdef''"

fun hex_loop :: "nat \<Rightarrow> 32 word \<Rightarrow> string \<Rightarrow> string option" where
  "hex_loop 0 w p = None"
| "hex_loop (Suc room) w p =
     (let p = hex_digits ! unat (and w 0xf) # p; w = drop_bit 4 w in
      if w = 0 then Some p else hex_loop room w p)"

text \<open>
  What the three number printers do once the digits are in \<open>tmp\<close>. \<open>width\<close> is compared as a
  \<open>size_t\<close>, so a negative one is a number near \<open>2 ^ 64\<close>.
\<close>

definition buf_print_padded :: "zlog_buf \<Rightarrow> string \<Rightarrow> int \<Rightarrow> mem \<Rightarrow> (int \<times> zlog_buf \<times> mem) option" where
  "buf_print_padded b p width m =
     (let num_len = length p;
          width = nat (width mod 2 ^ 64);
          (zero_len, out_len) = (if width > num_len then (width - num_len, width) else (0, num_len));
          (rc, b, m) =
            (if zb_tail b + out_len > zb_end b
             then zlog_buf_resize b (out_len - (zb_end b - zb_tail b)) m else (0, b, m))
      in
        if rc > 0 then
          let len_left = zb_end b - zb_tail b;
              (zero_len, num_len) =
                (if len_left \<le> zero_len then (len_left, 0) else (zero_len, len_left - zero_len))
          in do {
            b \<leftarrow> buf_write b (zb_tail b) (replicate zero_len (CHR ''0''));
            b \<leftarrow> buf_copy b (zb_tail b + zero_len) p num_len;
            b \<leftarrow> zlog_buf_truncate (b\<lparr>zb_tail := zb_tail b + len_left\<rparr>);
            Some (1, b, m)
          }
        else if rc < 0 then Some (-1, b, m)
        else do {
          b \<leftarrow> buf_write b (zb_tail b) (replicate zero_len (CHR ''0''));
          b \<leftarrow> buf_copy b (zb_tail b + zero_len) p num_len;
          Some (0, b\<lparr>zb_tail := zb_tail b + out_len\<rparr>, m)
        })"

definition zlog_buf_printf_dec32 :: "zlog_buf \<Rightarrow> 32 word \<Rightarrow> int \<Rightarrow> mem \<Rightarrow> (int \<times> zlog_buf \<times> mem) option" where
  "zlog_buf_printf_dec32 b ui32 width m =
     (if zb_start b = None then Some (-1, b, m)
      else do { p \<leftarrow> dec_loop ZLOG_INT32_LEN ui32 []; buf_print_padded b p width m })"

definition zlog_buf_printf_dec64 :: "zlog_buf \<Rightarrow> 64 word \<Rightarrow> int \<Rightarrow> mem \<Rightarrow> (int \<times> zlog_buf \<times> mem) option" where
  "zlog_buf_printf_dec64 b ui64 width m =
     (if zb_start b = None then Some (-1, b, m)
      else do {
        p \<leftarrow> (if ui64 \<le> ucast ZLOG_MAX_UINT32_VALUE
              then dec_loop ZLOG_INT64_LEN (ucast ui64 :: 32 word) []
              else dec_loop ZLOG_INT64_LEN ui64 []);
        buf_print_padded b p width m
      })"

definition zlog_buf_printf_hex :: "zlog_buf \<Rightarrow> 32 word \<Rightarrow> int \<Rightarrow> mem \<Rightarrow> (int \<times> zlog_buf \<times> mem) option" where
  "zlog_buf_printf_hex b ui32 width m =
     (if zb_start b = None then Some (-1, b, m)
      else do { p \<leftarrow> hex_loop ZLOG_INT32_LEN ui32 []; buf_print_padded b p width m })"

definition zlog_buf_append :: "zlog_buf \<Rightarrow> string \<Rightarrow> nat \<Rightarrow> mem \<Rightarrow> (int \<times> zlog_buf \<times> mem) option" where
  "zlog_buf_append b str str_len m =
     (let (rc, b, m) =
            (if zb_tail b + str_len > zb_end b
             then zlog_buf_resize b (str_len - (zb_end b - zb_tail b)) m else (0, b, m))
      in
        if rc > 0 then
          let len_left = zb_end b - zb_tail b in
          do {
            b \<leftarrow> buf_copy b (zb_tail b) str len_left;
            b \<leftarrow> zlog_buf_truncate (b\<lparr>zb_tail := zb_tail b + len_left\<rparr>);
            Some (1, b, m)
          }
        else if rc < 0 then Some (-1, b, m)
        else do {
          b \<leftarrow> buf_copy b (zb_tail b) str str_len;
          Some (0, b\<lparr>zb_tail := zb_tail b + str_len\<rparr>, m)
        })"

text \<open>The padding of \<open>zlog_buf_adjust_append\<close>, the same two lines on both of its paths.\<close>

definition buf_adjust_copy :: "zlog_buf \<Rightarrow> string \<Rightarrow> bool \<Rightarrow> nat \<Rightarrow> nat \<Rightarrow> zlog_buf option" where
  "buf_adjust_copy b str left_adjust source_len space_len =
     (if left_adjust then do {
        b \<leftarrow> buf_write b (zb_tail b + source_len) (replicate space_len (CHR '' ''));
        buf_copy b (zb_tail b) str source_len
      } else do {
        b \<leftarrow> buf_write b (zb_tail b) (replicate space_len (CHR '' ''));
        buf_copy b (zb_tail b + space_len) str source_len
      })"

definition zlog_buf_adjust_append ::
  "zlog_buf \<Rightarrow> string \<Rightarrow> nat \<Rightarrow> bool \<Rightarrow> nat \<Rightarrow> nat \<Rightarrow> mem \<Rightarrow> (int \<times> zlog_buf \<times> mem) option" where
  "zlog_buf_adjust_append b str str_len left_adjust in_width out_width m =
     (if zb_start b = None then Some (-1, b, m)
      else
        let source_len = (if out_width = 0 \<or> str_len < out_width then str_len else out_width);
            (append_len, space_len) =
              (if in_width = 0 \<or> source_len \<ge> in_width then (source_len, 0)
               else (in_width, in_width - source_len));
            (rc, b, m) =
              (if append_len > zb_end b - zb_tail b
               then zlog_buf_resize b (append_len - (zb_end b - zb_tail b)) m else (0, b, m))
        in
          if rc > 0 then
            let append_len = zb_end b - zb_tail b;
                (source_len, space_len) =
                  (if left_adjust then
                     (if source_len < append_len then (source_len, append_len - source_len)
                      else (append_len, 0))
                   else
                     (if space_len < append_len then (append_len - space_len, space_len)
                      else (0, append_len)))
            in do {
              b \<leftarrow> buf_adjust_copy b str left_adjust source_len space_len;
              b \<leftarrow> zlog_buf_truncate (b\<lparr>zb_tail := zb_tail b + append_len\<rparr>);
              Some (1, b, m)
            }
          else if rc < 0 then Some (-1, b, m)
          else do {
            b \<leftarrow> buf_adjust_copy b str left_adjust source_len space_len;
            Some (0, b\<lparr>zb_tail := zb_tail b + append_len\<rparr>, m)
          })"

definition zlog_buf_restart :: "zlog_buf \<Rightarrow> zlog_buf" where
  "zlog_buf_restart b = b\<lparr>zb_tail := 0\<rparr>"

definition zlog_buf_len :: "zlog_buf \<Rightarrow> nat" where
  "zlog_buf_len b = zb_tail b"

definition zlog_buf_seal :: "zlog_buf \<Rightarrow> zlog_buf option" where
  "zlog_buf_seal b = buf_write b (zb_tail b) [CHR 0x00]"

subsection \<open>Invariant, contents and specification\<close>

definition buf_ready :: "zlog_buf \<Rightarrow> bool" where
  "buf_ready b \<longleftrightarrow> (case zb_start b of
       None \<Rightarrow> False
     | Some cells \<Rightarrow> length cells = zb_size_real b \<and> zb_end_plus_1 b = zb_size_real b \<and>
         zb_end b = zb_size_real b - 1 \<and> zb_tail b \<le> zb_end b \<and> (\<forall>i < zb_tail b. cells ! i \<noteq> None))"

definition buf_lost :: "zlog_buf \<Rightarrow> bool" where
  "buf_lost b \<longleftrightarrow> zb_start b = None \<and> zb_tail b = 0 \<and> zb_end b = 0 \<and> zb_end_plus_1 b = 0 \<and>
     (zb_size_max b \<noteq> 0 \<longrightarrow> zb_size_real b < zb_size_max b)"

definition buf_inv :: "zlog_buf \<Rightarrow> bool" where
  "buf_inv b \<longleftrightarrow> 0 < zb_size_min b \<and> zb_size_min b \<le> zb_size_real b \<and>
     (zb_size_max b \<noteq> 0 \<longrightarrow> zb_size_real b \<le> zb_size_max b) \<and>
     zb_truncate_str_len b = length (zb_truncate_str b) \<and> (buf_ready b \<or> buf_lost b)"

definition buf_cells :: "zlog_buf \<Rightarrow> char option list" where
  "buf_cells b = (case zb_start b of None \<Rightarrow> [] | Some cells \<Rightarrow> cells)"

definition buf_text :: "zlog_buf \<Rightarrow> string" where
  "buf_text b = map the (take (zb_tail b) (buf_cells b))"

definition same_limits :: "zlog_buf \<Rightarrow> zlog_buf \<Rightarrow> bool" where
  "same_limits b b' \<longleftrightarrow> zb_size_min b' = zb_size_min b \<and> zb_size_max b' = zb_size_max b \<and>
     zb_truncate_str b' = zb_truncate_str b"

lemma same_limits_refl [simp]: "same_limits b b"
  by (simp add: same_limits_def)

lemma same_limits_trans: "same_limits b b' \<Longrightarrow> same_limits b' b'' \<Longrightarrow> same_limits b b''"
  by (simp add: same_limits_def)

text \<open>The last bytes of \<open>t\<close> replaced by \<open>mark\<close>, or by as much of it as \<open>t\<close> has room for.\<close>

definition stamp :: "string \<Rightarrow> string \<Rightarrow> string" where
  "stamp mark t = take (length t - length mark) t @ take (length t) mark"

lemma stamp_length [simp]: "length (stamp mark t) = length t"
  by (auto simp: stamp_def)

text \<open>
  The specification of adding the text \<open>s\<close>: all of it, or, when the limit is reached, what fits of it
  with the end of the whole text overwritten by the truncation mark, or, when memory ran out, nothing
  and the buffer is lost.
\<close>

definition buf_puts :: "zlog_buf \<Rightarrow> string \<Rightarrow> mem \<Rightarrow> int \<times> zlog_buf \<times> mem \<Rightarrow> bool" where
  "buf_puts b s m r \<longleftrightarrow> (case r of (rc, b', m') \<Rightarrow>
     buf_inv b' \<and> same_limits b b' \<and> zb_size_real b \<le> zb_size_real b' \<and> set m' \<subseteq> set m \<and>
     (if rc = 0 then buf_ready b' \<and> buf_text b' = buf_text b @ s \<and>
            (zb_size_max b \<noteq> 0 \<longrightarrow> length (buf_text b @ s) < zb_size_max b)
      else if rc = 1 then buf_ready b' \<and> zb_size_max b \<noteq> 0 \<and> zb_size_max b \<le> length (buf_text b @ s) \<and>
            buf_text b' = stamp (zb_truncate_str b) (take (zb_size_max b - 1) (buf_text b @ s))
      else rc = -1 \<and> buf_lost b' \<and> False \<in> set m))"

lemma buf_inv_new:
  "zlog_buf_new mn mx ts m = (Some b, m') \<Longrightarrow> buf_inv b \<and> buf_ready b \<and> buf_text b = [] \<and> zb_size_max b = mx"
  by (auto simp: zlog_buf_new_def buf_inv_def buf_ready_def buf_text_def buf_cells_def
      split: if_splits prod.splits option.splits)

lemma buf_new_fails_iff:
  "fst (zlog_buf_new mn mx ts []) = None \<longleftrightarrow> mn = 0 \<or> mx \<noteq> 0 \<and> mx < mn \<or> (\<exists>s. ts = Some s \<and> length s > MAXLEN_PATH)"
  by (auto simp: zlog_buf_new_def split: option.splits)

subsection \<open>A reference routine\<close>

definition buf_emit :: "zlog_buf \<Rightarrow> string \<Rightarrow> zlog_buf" where
  "buf_emit b s = b\<lparr>zb_start := Some (take (zb_tail b) (buf_cells b) @ map Some s @
       drop (zb_tail b + length s) (buf_cells b)), zb_tail := zb_tail b + length s\<rparr>"

definition buf_reserve :: "zlog_buf \<Rightarrow> nat \<Rightarrow> mem \<Rightarrow> int \<times> zlog_buf \<times> mem" where
  "buf_reserve b n m = (if zb_tail b + n > zb_end b then zlog_buf_resize b (n - (zb_end b - zb_tail b)) m else (0, b, m))"

definition buf_put :: "zlog_buf \<Rightarrow> string \<Rightarrow> mem \<Rightarrow> int \<times> zlog_buf \<times> mem" where
  "buf_put b s m = (case buf_reserve b (length s) m of (rc, b, m) \<Rightarrow>
     if rc > 0 then (1, the (zlog_buf_truncate (buf_emit b (take (zb_end b - zb_tail b) s))), m)
     else if rc < 0 then (-1, b, m)
     else (0, buf_emit b s, m))"

lemma buf_readyE:
  assumes "buf_ready b"
  obtains cells where "zb_start b = Some cells" "buf_cells b = cells" "length cells = zb_size_real b"
    "zb_end_plus_1 b = zb_size_real b" "zb_end b = zb_size_real b - 1" "zb_tail b \<le> zb_end b"
    "\<forall>i < zb_tail b. cells ! i \<noteq> None"
  using assms by (auto simp: buf_ready_def buf_cells_def split: option.splits)

lemma buf_ready_start: "buf_ready b \<Longrightarrow> zb_start b \<noteq> None"
  by (auto simp: buf_ready_def split: option.splits)

lemma buf_emit_inv:
  assumes "buf_inv b" and "buf_ready b" and "zb_tail b + length s \<le> zb_end b"
  shows "buf_inv (buf_emit b s)" "buf_ready (buf_emit b s)" "buf_text (buf_emit b s) = buf_text b @ s"
    "same_limits b (buf_emit b s)" "zb_size_real (buf_emit b s) = zb_size_real b" "zb_end (buf_emit b s) = zb_end b"
proof -
  obtain cells where c: "zb_start b = Some cells" "buf_cells b = cells" "length cells = zb_size_real b"
    "zb_end_plus_1 b = zb_size_real b" "zb_end b = zb_size_real b - 1" "zb_tail b \<le> zb_end b"
    "\<forall>i < zb_tail b. cells ! i \<noteq> None" by (rule buf_readyE [OF assms(2)])
  show "buf_ready (buf_emit b s)"
    using c assms(3) by (auto simp: buf_ready_def buf_emit_def nth_append)
  then show "buf_inv (buf_emit b s)" using assms(1) by (auto simp: buf_inv_def buf_emit_def)
  show "buf_text (buf_emit b s) = buf_text b @ s"
    using c assms(3) by (cases s) (auto simp: buf_text_def buf_emit_def buf_cells_def min_def o_def)
qed (auto simp: same_limits_def buf_emit_def)

lemma buf_write_emit:
  assumes "buf_ready b" and "zb_tail b + length s \<le> zb_end b"
  shows "\<exists>b'. buf_write b (zb_tail b) s = Some b' \<and> b'\<lparr>zb_tail := zb_tail b + length s\<rparr> = buf_emit b s \<and>
    zb_tail b' = zb_tail b"
proof -
  obtain cells where c: "zb_start b = Some cells" "buf_cells b = cells" "length cells = zb_size_real b"
    "zb_end b = zb_size_real b - 1" "zb_tail b \<le> zb_end b" by (rule buf_readyE [OF assms(1)])
  have "zb_tail b + length s \<le> length cells" using c assms(2) by simp
  then show ?thesis
    using c by (auto simp: buf_write_def write_at_def buf_emit_def)
qed

lemma buf_write_len: "buf_write b off s = Some b' \<Longrightarrow> off + length s \<le> length (buf_cells b) \<or> s = []"
  by (auto simp: buf_write_def write_at_def buf_cells_def split: if_splits option.splits Option.bind_splits)

lemma write_at_two:
  "off + length xs + length ys \<le> length zs \<Longrightarrow>
   Option.bind (write_at zs off xs) (\<lambda>zs. write_at zs (off + length xs) ys) = write_at zs off (xs @ ys)"
  using write_at_append [of zs off xs "take off zs @ xs @ drop (off + length xs) zs" ys]
  by (simp add: write_at_Some [of off xs zs])

lemma write_at_two':
  "off + length xs + length ys \<le> length zs \<Longrightarrow>
   Option.bind (write_at zs (off + length xs) ys) (\<lambda>zs. write_at zs off xs) = write_at zs off (xs @ ys)"
  by (simp add: write_at_def min_def ac_simps) arith

lemma buf_write_two:
  assumes "off + length xs + length ys \<le> length (buf_cells b)" and "zb_start b \<noteq> None"
  shows "Option.bind (buf_write b off xs) (\<lambda>b. buf_write b (off + length xs) ys) = buf_write b off (xs @ ys)"
    and "Option.bind (buf_write b (off + length xs) ys) (\<lambda>b. buf_write b off xs) = buf_write b off (xs @ ys)"
  using write_at_two [of off "map Some xs" "map Some ys" "buf_cells b"]
    write_at_two' [of off "map Some xs" "map Some ys" "buf_cells b"] assms
  by (auto simp: buf_write_def buf_cells_def write_at_def split: option.splits)

lemma buf_realloc_facts:
  assumes "buf_ready b" and "zb_size_real b \<le> n"
  shows "length (buf_realloc (zb_start b) n) = n"
    and "take (zb_tail b) (buf_realloc (zb_start b) n) = take (zb_tail b) (buf_cells b)"
  using assms by (auto simp: buf_realloc_def buf_ready_def buf_cells_def Let_def split: option.splits)

text \<open>A buffer whose block has grown holds the same text.\<close>

lemma buf_regrown:
  assumes inv: "buf_inv b" and rd: "buf_ready b" and ns: "zb_size_real b < ns" "zb_size_max b \<noteq> 0 \<longrightarrow> ns \<le> zb_size_max b"
    and b': "b' = b\<lparr>zb_start := Some (buf_realloc (zb_start b) ns), zb_tail := zb_tail b,
                 zb_size_real := ns, zb_end_plus_1 := ns, zb_end := ns - 1\<rparr>"
  shows "buf_ready b'" and "buf_inv b'" and "buf_text b' = buf_text b" and "same_limits b b'"
proof -
  note i = inv [unfolded buf_inv_def]
  have tl: "zb_tail b \<le> zb_size_real b - 1" "zb_end b = zb_size_real b - 1"
    and def: "\<forall>j < zb_tail b. buf_cells b ! j \<noteq> None"
    using rd by (auto simp: buf_ready_def buf_cells_def split: option.splits)
  note f = buf_realloc_facts [of b ns]
  have f1: "length (buf_realloc (zb_start b) ns) = ns" "take (zb_tail b) (buf_realloc (zb_start b) ns) = take (zb_tail b) (buf_cells b)"
    using f rd ns(1) by auto
  have "buf_realloc (zb_start b) ns ! j \<noteq> None" if "j < zb_tail b" for j
  proof -
    have "buf_realloc (zb_start b) ns ! j = buf_cells b ! j"
      using nth_take [OF that, of "buf_realloc (zb_start b) ns"] nth_take [OF that, of "buf_cells b"] f1(2) by simp
    then show ?thesis using def that by simp
  qed
  moreover have "zb_tail b \<le> ns - 1" using tl i ns by auto
  ultimately show rd': "buf_ready b'" using f1 by (simp add: buf_ready_def b')
  then show "buf_inv b'" using i ns by (simp add: buf_inv_def b')
  show "buf_text b' = buf_text b" using f1(2) by (simp add: buf_text_def b' buf_cells_def)
  show "same_limits b b'" by (simp add: same_limits_def b')
qed

lemma buf_resize_cases:
  assumes inv: "buf_inv b" and rd: "buf_ready b" and inc: "0 < inc"
    and inc': "n = inc + (zb_end b - zb_tail b)"
    and r: "zlog_buf_resize b inc m = (rc, b', m')"
  obtains (lost) "rc = -1" "buf_inv b'" "buf_lost b'" "same_limits b b'" "False \<in> set m" "zb_size_real b' = zb_size_real b"
  | (full) "rc = 1" "buf_inv b'" "buf_ready b'" "same_limits b b'" "zb_size_real b' = zb_size_max b" "zb_size_max b \<noteq> 0"
      "buf_text b' = buf_text b" "zb_tail b' = zb_tail b" "zb_end b' < zb_tail b' + n"
  | (grown) "rc = 0" "buf_inv b'" "buf_ready b'" "same_limits b b'" "zb_size_real b \<le> zb_size_real b'"
      "buf_text b' = buf_text b" "zb_tail b' = zb_tail b" "zb_tail b' + n \<le> zb_end b'"
proof -
  note i = inv [unfolded buf_inv_def]
  have tl: "zb_tail b \<le> zb_size_real b - 1" "zb_end b = zb_size_real b - 1"
    using rd by (auto simp: buf_ready_def buf_cells_def split: option.splits)
  have grow: thesis if ns: "zb_size_real b < ns" "zb_size_max b \<noteq> 0 \<longrightarrow> ns \<le> zb_size_max b"
      and rc: "rc = 0 \<and> zb_size_real b + inc \<le> ns \<or> rc = 1 \<and> zb_size_max b \<noteq> 0 \<and> ns = zb_size_max b \<and> ns < zb_size_real b + inc"
      and b': "b' = b\<lparr>zb_start := Some (buf_realloc (zb_start b) ns), zb_tail := zb_tail b,
                   zb_size_real := ns, zb_end_plus_1 := ns, zb_end := ns - 1\<rparr>" for ns
  proof -
    note rd' = buf_regrown(1) [OF inv rd ns b'] and iv = buf_regrown(2) [OF inv rd ns b'] and tx = buf_regrown(3) [OF inv rd ns b']
      and lm = buf_regrown(4) [OF inv rd ns b']
    show thesis
    proof (cases "rc = 0")
      case True
      then show ?thesis using grown rd' iv tx lm ns rc tl i inc' by (auto simp: b')
    next
      case False
      then have "zb_end b' < zb_tail b' + n" using rc tl i inc' ns by (auto simp: b')
      then show ?thesis using full False rd' iv tx lm ns rc by (auto simp: b')
    qed
  qed
  show thesis
  proof (cases "zb_size_max b \<noteq> 0 \<and> zb_size_real b \<ge> zb_size_max b")
    case True
    then have e: "rc = 1" "b' = b" "zb_size_real b = zb_size_max b" using r i by (auto simp: zlog_buf_resize_def)
    moreover have "zb_end b < zb_tail b + n" using inc inc' tl by auto
    ultimately show thesis using full inv rd True by auto
  next
    case nf: False
    show thesis
    proof (cases "fst (alloc m)")
      case ok: True
      have d: "3 * inc div 2 \<ge> inc" by simp
      show thesis
        using r nf ok inc d
        by (intro grow [of "zb_size_real b'"]) (auto simp: zlog_buf_resize_def Let_def split: prod.splits if_splits)
    next
      case False
      then have b': "rc = -1" "b' = b\<lparr>zb_start := None, zb_tail := 0, zb_end := 0, zb_end_plus_1 := 0\<rparr>"
        using r nf by (auto simp: zlog_buf_resize_def Let_def split: prod.splits if_splits)
      moreover have "False \<in> set m" using False by (cases m) auto
      moreover have "buf_lost b'" using b' nf by (auto simp: buf_lost_def)
      ultimately show thesis using lost i by (auto simp: buf_inv_def same_limits_def)
    qed
  qed
qed

lemma buf_truncate_stamp:
  assumes "buf_inv b" and "buf_ready b"
  obtains b' where "zlog_buf_truncate b = Some b'" and "buf_inv b'" and "buf_ready b'" and "same_limits b b'"
    and "zb_size_real b' = zb_size_real b" and "buf_text b' = stamp (zb_truncate_str b) (buf_text b)"
proof -
  obtain cells where c: "zb_start b = Some cells" "buf_cells b = cells" "length cells = zb_size_real b"
    "zb_end_plus_1 b = zb_size_real b" "zb_end b = zb_size_real b - 1" "zb_tail b \<le> zb_end b"
    "\<forall>i < zb_tail b. cells ! i \<noteq> None" by (rule buf_readyE [OF assms(2)])
  let ?s = "zb_truncate_str b" and ?t = "zb_tail b"
  let ?p = "?t - length ?s"
  have ln: "zb_truncate_str_len b = length ?s" "?t \<le> length cells" using assms(1) c by (auto simp: buf_inv_def)
  show thesis
  proof (cases "?s = [] \<or> ?t = 0")
    case True
    then have "zlog_buf_truncate b = Some b"
      using c ln by (auto simp: zlog_buf_truncate_def buf_copy_def buf_write_def Let_def)
    moreover have "buf_text b = stamp ?s (buf_text b)" using True by (auto simp: stamp_def buf_text_def)
    ultimately show thesis using that assms by simp
  next
    case False
    let ?w = "take (?t - ?p) ?s"
    let ?cells = "take ?p cells @ map Some ?w @ drop (?p + length ?w) cells"
    let ?b = "b\<lparr>zb_start := Some ?cells\<rparr>"
    have lw: "length ?w = ?t - ?p" "?p + length ?w = ?t" by auto
    have wn: "?p < ?t" using False by auto
    have "zlog_buf_truncate b = Some ?b"
      using False c ln lw wn
      by (auto simp: zlog_buf_truncate_def buf_copy_def buf_write_def Let_def write_at_def)
    moreover have "take ?t ?cells = take ?p cells @ map Some ?w" using lw ln by simp
    moreover from this have tx: "buf_text ?b = stamp ?s (buf_text b)"
    proof -
      have "map the (take ?p cells @ map Some ?w) = take (length (buf_text b) - length ?s) (buf_text b) @ take ?t ?s"
      proof -
        have "length (buf_text b) = ?t" using c ln by (simp add: buf_text_def)
        moreover have "take ?p (buf_text b) = map the (take ?p cells)" using c by (simp add: buf_text_def take_map)
        moreover have "?w = take ?t ?s" by (cases "length ?s \<le> ?t") auto
        ultimately show ?thesis by (simp add: o_def)
      qed
      then show ?thesis using \<open>take ?t ?cells = _\<close> c ln by (simp add: buf_text_def buf_cells_def stamp_def)
    qed
    moreover have rd: "buf_ready ?b" using c ln lw by (auto simp: buf_ready_def nth_append)
    moreover have "buf_inv ?b" using assms(1) rd by (simp add: buf_inv_def)
    ultimately show thesis using that [of ?b] by (simp add: same_limits_def)
  qed
qed

lemma buf_reserve_ready:
  assumes "buf_inv b" and "buf_ready b" and "zb_tail b + n \<le> zb_end b"
  shows "buf_reserve b n m = (0, b, m)"
  using assms by (simp add: buf_reserve_def)

lemma buf_reserve_cases:
  assumes inv: "buf_inv b" and rd: "buf_ready b" and r: "buf_reserve b n m = (rc, b', m')"
  obtains (lost) "rc = -1" "buf_inv b'" "buf_lost b'" "same_limits b b'" "False \<in> set m" "zb_size_real b' = zb_size_real b"
  | (full) "rc = 1" "buf_inv b'" "buf_ready b'" "same_limits b b'" "zb_size_real b' = zb_size_max b" "zb_size_max b \<noteq> 0"
      "buf_text b' = buf_text b" "zb_tail b' = zb_tail b" "zb_end b' < zb_tail b' + n"
  | (grown) "rc = 0" "buf_inv b'" "buf_ready b'" "same_limits b b'" "zb_size_real b \<le> zb_size_real b'"
      "buf_text b' = buf_text b" "zb_tail b' = zb_tail b" "zb_tail b' + n \<le> zb_end b'"
proof (cases "zb_tail b + n \<le> zb_end b")
  case True
  then show thesis using r inv rd grown by (auto simp: buf_reserve_def)
next
  case False
  have tl: "zb_tail b \<le> zb_end b" using rd by (rule buf_readyE)
  have r': "zlog_buf_resize b (n - (zb_end b - zb_tail b)) m = (rc, b', m')" using r False by (simp add: buf_reserve_def)
  show thesis
    by (rule buf_resize_cases [OF inv rd _ _ r', of n]) (use False tl lost full grown in auto)
qed

lemma buf_resize_mem: "zlog_buf_resize b inc m = (rc, b', m') \<Longrightarrow> set m' \<subseteq> set m"
  by (cases m) (auto simp: zlog_buf_resize_def Let_def split: if_splits prod.splits)

lemma buf_reserve_mem: "buf_reserve b n m = (rc, b', m') \<Longrightarrow> set m' \<subseteq> set m"
  by (auto simp: buf_reserve_def dest: buf_resize_mem split: if_splits)

lemma buf_text_length: "buf_inv b \<Longrightarrow> buf_ready b \<Longrightarrow> length (buf_text b) = zb_tail b"
  by (auto simp: buf_text_def buf_cells_def buf_ready_def split: option.splits)

lemma buf_put_spec:
  assumes inv: "buf_inv b" and rd: "buf_ready b"
  shows "buf_puts b s m (buf_put b s m)"
proof -
  obtain rc b1 m1 where r: "buf_reserve b (length s) m = (rc, b1, m1)" by (cases "buf_reserve b (length s) m")
  have tl: "length (buf_text b) = zb_tail b" by (rule buf_text_length [OF inv rd])
  note mem = buf_reserve_mem [OF r]
  from inv rd r show ?thesis
  proof (cases rule: buf_reserve_cases)
    case lost
    then show ?thesis using r mem by (simp add: buf_put_def buf_puts_def)
  next
    case full
    let ?s = "take (zb_end b1 - zb_tail b1) s"
    have e: "zb_end b1 = zb_size_max b - 1" "zb_tail b1 \<le> zb_end b1" "zb_size_real b \<le> zb_size_real b1"
      using full inv by (auto simp: buf_inv_def elim!: buf_readyE)
    then have "zb_tail b1 + length ?s \<le> zb_end b1" using full by auto
    note em = buf_emit_inv [OF full(2,3) this]
    obtain b2 where b2: "zlog_buf_truncate (buf_emit b1 ?s) = Some b2" "buf_inv b2" "buf_ready b2"
        "same_limits (buf_emit b1 ?s) b2" "zb_size_real b2 = zb_size_real (buf_emit b1 ?s)"
        "buf_text b2 = stamp (zb_truncate_str (buf_emit b1 ?s)) (buf_text (buf_emit b1 ?s))"
      by (rule buf_truncate_stamp [OF em(1,2)])
    have "buf_text (buf_emit b1 ?s) = take (zb_size_max b - 1) (buf_text b @ s)"
      using em(3) full e tl by simp
    moreover have "zb_truncate_str (buf_emit b1 ?s) = zb_truncate_str b" "same_limits b b2"
      using em(4) full(4) b2(4) by (auto simp: same_limits_def)
    moreover have "zb_size_max b \<le> length (buf_text b @ s)" using full e tl by simp
    ultimately show ?thesis using r mem full b2 e em(5) by (simp add: buf_put_def buf_puts_def)
  next
    case grown
    note em = buf_emit_inv [OF grown(2,3,8)]
    have "same_limits b (buf_emit b1 s)" using same_limits_trans [OF grown(4) em(4)] .
    moreover have "length (buf_text b @ s) < zb_size_max b" if "zb_size_max b \<noteq> 0"
      using grown that tl em(1,2) by (auto simp: buf_inv_def same_limits_def elim!: buf_readyE)
    ultimately show ?thesis using r mem grown em by (simp add: buf_put_def buf_puts_def)
  qed
qed

subsection \<open>The printing operations are the reference routine on the text they print\<close>

lemma buf_full_room: "buf_inv b \<Longrightarrow> buf_ready b \<Longrightarrow> zb_tail b + (zb_end b - zb_tail b) \<le> zb_end b"
  by (auto elim: buf_readyE)

lemma buf_put_full:
  assumes "buf_inv b1" "buf_ready b1"
  shows "\<exists>b2. zlog_buf_truncate (buf_emit b1 (take (zb_end b1 - zb_tail b1) s)) = Some b2"
proof -
  have "zb_tail b1 + length (take (zb_end b1 - zb_tail b1) s) \<le> zb_end b1" using buf_full_room [OF assms] by simp
  note em = buf_emit_inv [OF assms this]
  show ?thesis by (rule buf_truncate_stamp [OF em(1,2)]) blast
qed

text \<open>
  A writer of \<open>s\<close>: a way to store, at \<open>tail\<close>, the prefix of \<open>s\<close> that the room allows. The operations
  differ only in this step, so each is the reference routine once its writer is shown to be one.
\<close>

lemma buf_put_by_writer:
  assumes inv: "buf_inv b" and rd: "buf_ready b"
    and wr: "\<And>b1. buf_ready b1 \<Longrightarrow> zb_tail b1 + length s \<le> zb_end b1 \<Longrightarrow> w b1 = buf_write b1 (zb_tail b1) s"
    and wf: "\<And>b1. buf_ready b1 \<Longrightarrow> zb_end b1 < zb_tail b1 + length s \<Longrightarrow>
          wfull b1 = buf_write b1 (zb_tail b1) (take (zb_end b1 - zb_tail b1) s)"
    and n: "n = length s"
  shows "(case buf_reserve b n m of (rc, b, m) \<Rightarrow>
      if rc > 0 then do {
        b' \<leftarrow> wfull b;
        b' \<leftarrow> zlog_buf_truncate (b'\<lparr>zb_tail := zb_tail b' + (zb_end b - zb_tail b)\<rparr>);
        Some (1, b', m) }
      else if rc < 0 then Some (-1, b, m)
      else do { b' \<leftarrow> w b; Some (0, b'\<lparr>zb_tail := zb_tail b' + n\<rparr>, m) }) = Some (buf_put b s m)"
proof -
  obtain rc b1 m1 where r: "buf_reserve b (length s) m = (rc, b1, m1)" by (cases "buf_reserve b (length s) m")
  from inv rd r show ?thesis
  proof (cases rule: buf_reserve_cases)
    case lost then show ?thesis using r n by (simp add: buf_put_def)
  next
    case full
    let ?s = "take (zb_end b1 - zb_tail b1) s"
    have tl: "zb_tail b1 \<le> zb_end b1" using full(3) by (rule buf_readyE)
    have ls: "length ?s = zb_end b1 - zb_tail b1" using full(9) tl by simp
    obtain b' where b': "buf_write b1 (zb_tail b1) ?s = Some b'"
        "b'\<lparr>zb_tail := zb_tail b1 + length ?s\<rparr> = buf_emit b1 ?s" "zb_tail b' = zb_tail b1"
      using buf_write_emit [OF full(3), of ?s] ls tl by auto
    obtain b2 where "zlog_buf_truncate (buf_emit b1 ?s) = Some b2" using buf_put_full [OF full(2,3)] by blast
    then show ?thesis using r n full(1) wf [OF full(3,9)] b' ls by (simp add: buf_put_def)
  next
    case grown
    then show ?thesis using r n wr [OF grown(3,8)] buf_write_emit [OF grown(3,8)] by (auto simp: buf_put_def)
  qed
qed

lemma buf_reserve_swap: "zb_tail b \<le> zb_end b \<Longrightarrow>
  (if n > zb_end b - zb_tail b then zlog_buf_resize b (n - (zb_end b - zb_tail b)) m else (0, b, m)) = buf_reserve b n m"
  by (auto simp: buf_reserve_def)

lemma append_put:
  assumes "buf_inv b" "buf_ready b" "n \<le> length str"
  shows "zlog_buf_append b str n m = Some (buf_put b (take n str) m)"
  unfolding zlog_buf_append_def buf_reserve_def [symmetric] Let_def
  using assms(3)
  by (intro buf_put_by_writer [OF assms(1,2), where w = "\<lambda>b. buf_copy b (zb_tail b) str n"
        and wfull = "\<lambda>b. buf_copy b (zb_tail b) str (zb_end b - zb_tail b)", simplified])
     (auto simp: buf_copy_def min_def split: if_splits)

definition pad_zero :: "int \<Rightarrow> string \<Rightarrow> string" where
  "pad_zero width p = replicate (nat (width mod 2 ^ 64) - length p) (CHR ''0'') @ p"

lemma buf_cells_length: "buf_ready b \<Longrightarrow> 0 < zb_size_real b \<Longrightarrow> length (buf_cells b) = Suc (zb_end b)"
  by (auto elim!: buf_readyE)

lemma buf_write_two_ready:
  assumes "buf_ready b" and "zb_tail b + length (xs @ ys) \<le> zb_end b"
  shows "Option.bind (buf_write b (zb_tail b) xs) (\<lambda>b'. buf_write b' (zb_tail b' + length xs) ys) = buf_write b (zb_tail b) (xs @ ys)"
    and "Option.bind (buf_write b (zb_tail b + length xs) ys) (\<lambda>b'. buf_write b' (zb_tail b') xs) = buf_write b (zb_tail b) (xs @ ys)"
proof -
  have tl: "zb_tail b' = zb_tail b" if "buf_write b off zs = Some b'" for b' off zs
    using that by (auto simp: buf_write_def split: if_splits Option.bind_splits)
  obtain cells where "zb_start b = Some cells" "buf_cells b = cells" "length cells = zb_size_real b"
      "zb_end b = zb_size_real b - 1" by (rule buf_readyE [OF assms(1)])
  then have "zb_tail b + length xs + length ys \<le> length (buf_cells b)" "zb_start b \<noteq> None" using assms(2) by auto
  note two = buf_write_two [OF this]
  show "Option.bind (buf_write b (zb_tail b) xs) (\<lambda>b'. buf_write b' (zb_tail b' + length xs) ys) = buf_write b (zb_tail b) (xs @ ys)"
    unfolding two(1) [symmetric] by (rule Option.bind_cong [OF refl]) (simp add: tl)
  show "Option.bind (buf_write b (zb_tail b + length xs) ys) (\<lambda>b'. buf_write b' (zb_tail b') xs) = buf_write b (zb_tail b) (xs @ ys)"
    unfolding two(2) [symmetric] by (rule Option.bind_cong [OF refl]) (simp add: tl)
qed

lemma buf_write_nil [simp]: "buf_write b off [] = Some b"
  by (simp add: buf_write_def)

lemma print_padded_put:
  assumes inv: "buf_inv b" and rd: "buf_ready b"
  shows "buf_print_padded b p width m = Some (buf_put b (pad_zero width p) m)"
proof -
  define z where "z = nat (width mod 2 ^ 64) - length p"
  have pz: "pad_zero width p = replicate z (CHR ''0'') @ p" by (simp add: pad_zero_def z_def)
  have lens: "(if nat (width mod 2 ^ 64) > length p then (nat (width mod 2 ^ 64) - length p, nat (width mod 2 ^ 64)) else (0, length p))
      = (z, z + length p)" by (simp add: z_def)
  let ?w = "\<lambda>b. Option.bind (buf_write b (zb_tail b) (replicate z (CHR ''0''))) (\<lambda>b. buf_copy b (zb_tail b + z) p (length p))"
  let ?wf = "\<lambda>b. case (if zb_end b - zb_tail b \<le> z then (zb_end b - zb_tail b, 0) else (z, zb_end b - zb_tail b - z)) of
      (zl, nl) \<Rightarrow> Option.bind (buf_write b (zb_tail b) (replicate zl (CHR ''0''))) (\<lambda>b. buf_copy b (zb_tail b + zl) p nl)"
  have w: "?w b1 = buf_write b1 (zb_tail b1) (pad_zero width p)"
    if "buf_ready b1" "zb_tail b1 + length (pad_zero width p) \<le> zb_end b1" for b1
    using buf_write_two_ready(1) [of b1 "replicate z (CHR ''0'')" p] that by (simp add: buf_copy_def pz)
  have wf: "?wf b1 = buf_write b1 (zb_tail b1) (take (zb_end b1 - zb_tail b1) (pad_zero width p))"
    if b1: "buf_ready b1" "zb_end b1 < zb_tail b1 + length (pad_zero width p)" for b1
  proof (cases "zb_end b1 - zb_tail b1 \<le> z")
    case True
    then show ?thesis by (cases "buf_write b1 (zb_tail b1) (replicate (zb_end b1 - zb_tail b1) (CHR ''0''))")
      (auto simp: pz buf_copy_def min_def)
  next
    case False
    let ?n = "zb_end b1 - zb_tail b1 - z"
    have n: "?n \<le> length p" "zb_tail b1 \<le> zb_end b1" using False b1 by (auto simp: pz elim!: buf_readyE)
    have "?wf b1 = Option.bind (buf_write b1 (zb_tail b1) (replicate z (CHR ''0''))) (\<lambda>b. buf_write b (zb_tail b + z) (take ?n p))"
      using False n by (simp add: buf_copy_def)
    also have "\<dots> = buf_write b1 (zb_tail b1) (replicate z (CHR ''0'') @ take ?n p)"
      using buf_write_two_ready(1) [OF b1(1), of "replicate z (CHR ''0'')" "take ?n p"] n False by simp
    also have "replicate z (CHR ''0'') @ take ?n p = take (zb_end b1 - zb_tail b1) (pad_zero width p)"
      using False by (simp add: pz min_def)
    finally show ?thesis .
  qed
  have "length (pad_zero width p) = z + length p" by (simp add: pz)
  note main = buf_put_by_writer [OF inv rd w wf this [symmetric], of m]
  have "buf_print_padded b p width m = (case buf_reserve b (z + length p) m of (rc, b, m) \<Rightarrow>
      if rc > 0 then do {
        b' \<leftarrow> ?wf b;
        b' \<leftarrow> zlog_buf_truncate (b'\<lparr>zb_tail := zb_tail b' + (zb_end b - zb_tail b)\<rparr>);
        Some (1, b', m) }
      else if rc < 0 then Some (-1, b, m)
      else do { b' \<leftarrow> ?w b; Some (0, b'\<lparr>zb_tail := zb_tail b' + (z + length p)\<rparr>, m) })"
    unfolding buf_print_padded_def Let_def lens buf_reserve_def by (simp add: split_def)
  with main show ?thesis by simp
qed

definition adjusted :: "bool \<Rightarrow> nat \<Rightarrow> nat \<Rightarrow> string \<Rightarrow> string" where
  "adjusted left_adjust in_width out_width str =
     (let src = (if out_width = 0 then str else take out_width str);
          pad = replicate (in_width - length src) (CHR '' '') in
      if left_adjust then src @ pad else pad @ src)"

lemma adjust_copy_write:
  assumes "buf_ready b" and "n + sp \<le> zb_end b - zb_tail b" and "n \<le> length str"
  shows "buf_adjust_copy b str l n sp =
    buf_write b (zb_tail b) (if l then take n str @ replicate sp (CHR '' '') else replicate sp (CHR '' '') @ take n str)"
proof -
  have "zb_tail b \<le> zb_end b" by (rule buf_readyE [OF assms(1)])
  then show ?thesis
    using assms(2,3) buf_write_two_ready(1) [OF assms(1), of "replicate sp (CHR '' '')" "take n str"]
      buf_write_two_ready(2) [OF assms(1), of "take n str" "replicate sp (CHR '' '')"]
    by (simp add: buf_adjust_copy_def buf_copy_def)
qed

lemma adjust_append_put:
  assumes inv: "buf_inv b" and rd: "buf_ready b" and n: "n \<le> length str"
  shows "zlog_buf_adjust_append b str n l inw outw m = Some (buf_put b (adjusted l inw outw (take n str)) m)"
proof -
  define k where "k = (if outw = 0 \<or> n < outw then n else outw)"
  define sp where "sp = inw - k"
  have lens: "(if inw = 0 \<or> k \<ge> inw then (k, 0) else (inw, inw - k)) = (k + sp, sp)" by (auto simp: sp_def)
  have kn: "k \<le> n" "k \<le> length str" using n by (auto simp: k_def)
  have adj: "adjusted l inw outw (take n str) =
      (if l then take k str @ replicate sp (CHR '' '') else replicate sp (CHR '' '') @ take k str)"
    using n by (auto simp: adjusted_def k_def sp_def Let_def min_def)
  have len: "length (adjusted l inw outw (take n str)) = k + sp" using kn by (simp add: adj)
  let ?w = "\<lambda>b. buf_adjust_copy b str l k sp"
  let ?wf = "\<lambda>b. case (if l then (if k < zb_end b - zb_tail b then (k, zb_end b - zb_tail b - k) else (zb_end b - zb_tail b, 0))
      else (if sp < zb_end b - zb_tail b then (zb_end b - zb_tail b - sp, sp) else (0, zb_end b - zb_tail b))) of
      (sl, pl) \<Rightarrow> buf_adjust_copy b str l sl pl"
  have w: "?w b1 = buf_write b1 (zb_tail b1) (adjusted l inw outw (take n str))"
    if "buf_ready b1" "zb_tail b1 + length (adjusted l inw outw (take n str)) \<le> zb_end b1" for b1
    using adjust_copy_write [OF that(1), of k sp str l] that(2) kn unfolding len by (simp add: adj)
  have wf: "?wf b1 = buf_write b1 (zb_tail b1) (take (zb_end b1 - zb_tail b1) (adjusted l inw outw (take n str)))"
    if b1: "buf_ready b1" "zb_end b1 < zb_tail b1 + length (adjusted l inw outw (take n str))" for b1
  proof -
    define r where "r = zb_end b1 - zb_tail b1"
    have r: "r < k + sp" using b1 unfolding len by (auto simp: r_def elim!: buf_readyE)
    show ?thesis
      using r kn adjust_copy_write [OF b1(1), of k "r - k" str l] adjust_copy_write [OF b1(1), of r 0 str l]
        adjust_copy_write [OF b1(1), of "r - sp" sp str l] adjust_copy_write [OF b1(1), of 0 r str l]
      by (auto simp: adj min_def simp flip: r_def)
  qed
  note main = buf_put_by_writer [OF inv rd w wf len [symmetric], of m]
  have tl: "zb_tail b \<le> zb_end b" by (rule buf_readyE [OF rd])
  have "zlog_buf_adjust_append b str n l inw outw m = (case buf_reserve b (k + sp) m of (rc, b, m) \<Rightarrow>
      if rc > 0 then do {
        b' \<leftarrow> ?wf b;
        b' \<leftarrow> zlog_buf_truncate (b'\<lparr>zb_tail := zb_tail b' + (zb_end b - zb_tail b)\<rparr>);
        Some (1, b', m) }
      else if rc < 0 then Some (-1, b, m)
      else do { b' \<leftarrow> ?w b; Some (0, b'\<lparr>zb_tail := zb_tail b' + (k + sp)\<rparr>, m) })"
    unfolding zlog_buf_adjust_append_def Let_def k_def [symmetric] lens prod.case buf_reserve_swap [OF tl]
    using buf_ready_start [OF rd] by (simp only: if_False split_def Option.bind_assoc)
  with main show ?thesis by simp
qed

lemma vsnprintf_ready:
  assumes inv: "buf_inv b" and rd: "buf_ready b"
  obtains b' where "buf_vsnprintf b (zb_end_plus_1 b - zb_tail b) (Some s) = Some (int (length s), b')"
    and "buf_inv b'" and "buf_ready b'" and "buf_text b' = buf_text b" and "zb_end_plus_1 b' = zb_end_plus_1 b"
    and "zb_tail b' = zb_tail b" and "zb_end b' = zb_end b" and "same_limits b b'" and "zb_size_real b' = zb_size_real b"
    and "\<And>t. t \<le> length s \<Longrightarrow> zb_tail b + t \<le> zb_end b \<Longrightarrow> buf_inv (b'\<lparr>zb_tail := zb_tail b + t\<rparr>) \<and>
      buf_ready (b'\<lparr>zb_tail := zb_tail b + t\<rparr>) \<and> buf_text (b'\<lparr>zb_tail := zb_tail b + t\<rparr>) = buf_text b @ take t s"
proof -
  obtain cells where c: "zb_start b = Some cells" "buf_cells b = cells" "length cells = zb_size_real b"
    "zb_end_plus_1 b = zb_size_real b" "zb_end b = zb_size_real b - 1" "zb_tail b \<le> zb_end b"
    "\<forall>i < zb_tail b. cells ! i \<noteq> None" by (rule buf_readyE [OF rd])
  have pos: "0 < zb_size_real b" using inv by (simp add: buf_inv_def)
  let ?t = "zb_tail b" and ?n = "zb_end_plus_1 b - zb_tail b"
  let ?w = "take (?n - 1) s @ [CHR 0x00]"
  let ?cells = "take ?t cells @ map Some ?w @ drop (?t + length ?w) cells"
  let ?b = "b\<lparr>zb_start := Some ?cells\<rparr>"
  have fit: "?t + length ?w \<le> length cells" "?n \<noteq> 0" using c pos by auto
  have v: "buf_vsnprintf b ?n (Some s) = Some (int (length s), ?b)"
    using fit c(1) by (simp add: buf_vsnprintf_def buf_write_def write_at_def)
  have lc: "length ?cells = length cells" using fit by simp
  have step: "buf_ready (?b\<lparr>zb_tail := ?t + t\<rparr>) \<and> take (?t + t) ?cells = take ?t cells @ map Some (take t s)"
    if ts: "t \<le> length s" "?t + t \<le> zb_end b" for t
  proof -
    have tn: "t \<le> length (take (?n - 1) s)" using ts c by simp
    have "take (?t + t) ?cells = take ?t cells @ map Some (take t ?w)"
      using fit c tn by (simp add: min_def take_map)
    moreover have "take t ?w = take t s" using tn by simp
    ultimately have tk: "take (?t + t) ?cells = take ?t cells @ map Some (take t s)" by (simp only:)
    have "?cells ! i \<noteq> None" if i: "i < ?t + t" for i
    proof -
      have eq: "?cells ! i = (take ?t cells @ map Some (take t s)) ! i" using nth_take [OF i, of ?cells] unfolding tk by (rule sym)
      have "(take ?t cells @ map Some (take t s)) ! i \<noteq> None"
        using c i ts fit(1) by (auto simp: nth_append)
      then show ?thesis unfolding eq .
    qed
    then show ?thesis using tk c lc ts by (simp add: buf_ready_def)
  qed
  have tx: "buf_text (?b\<lparr>zb_tail := ?t + t\<rparr>) = buf_text b @ take t s" if "t \<le> length s" "?t + t \<le> zb_end b" for t
    using step [OF that] c by (simp add: buf_text_def buf_cells_def o_def)
  have iv: "buf_inv (?b\<lparr>zb_tail := ?t + t\<rparr>)" if "t \<le> length s" "?t + t \<le> zb_end b" for t
    using step [OF that] inv by (simp add: buf_inv_def)
  show thesis
    by (rule that [OF v]) (use step [of 0] tx [of 0] iv [of 0] step tx iv c in \<open>auto simp: same_limits_def\<close>)
qed

text \<open>The second call of \<open>vsnprintf\<close> after the buffer has reached its limit: what fits, with the mark over its end.\<close>

lemma vprintf_full:
  assumes "buf_inv b2" and "buf_ready b2" and "zb_end b2 < zb_tail b2 + length s"
  obtains b3 b4 where "buf_vsnprintf b2 (zb_end_plus_1 b2 - zb_tail b2) (Some s) = Some (int (length s), b3)" "zb_tail b3 = zb_tail b2"
    "zlog_buf_truncate (b3\<lparr>zb_tail := zb_end b2\<rparr>) = Some b4" "buf_inv b4" "buf_ready b4" "same_limits b2 b4" "zb_size_real b4 = zb_size_real b2"
    "buf_text b4 = stamp (zb_truncate_str b2) (buf_text b2 @ take (zb_end b2 - zb_tail b2) s)"
proof -
  obtain b3 where b3: "buf_vsnprintf b2 (zb_end_plus_1 b2 - zb_tail b2) (Some s) = Some (int (length s), b3)"
      "zb_tail b3 = zb_tail b2" "same_limits b2 b3" "zb_size_real b3 = zb_size_real b2"
    and fit3: "\<And>t. t \<le> length s \<Longrightarrow> zb_tail b2 + t \<le> zb_end b2 \<Longrightarrow> buf_inv (b3\<lparr>zb_tail := zb_tail b2 + t\<rparr>) \<and>
      buf_ready (b3\<lparr>zb_tail := zb_tail b2 + t\<rparr>) \<and> buf_text (b3\<lparr>zb_tail := zb_tail b2 + t\<rparr>) = buf_text b2 @ take t s"
    by (rule vsnprintf_ready [OF assms(1,2), of s]) blast
  let ?k = "zb_end b2 - zb_tail b2"
  have tl: "zb_tail b2 \<le> zb_end b2" using assms(1,2) by (auto simp: buf_inv_def elim!: buf_readyE)
  then have k: "?k \<le> length s" "zb_tail b2 + ?k \<le> zb_end b2" "zb_tail b2 + ?k = zb_end b2" using assms(3) by auto
  note b = fit3 [OF k(1,2), unfolded k(3)]
  obtain b4 where b4: "zlog_buf_truncate (b3\<lparr>zb_tail := zb_end b2\<rparr>) = Some b4" "buf_inv b4" "buf_ready b4" "same_limits (b3\<lparr>zb_tail := zb_end b2\<rparr>) b4"
      "zb_size_real b4 = zb_size_real (b3\<lparr>zb_tail := zb_end b2\<rparr>)"
      "buf_text b4 = stamp (zb_truncate_str (b3\<lparr>zb_tail := zb_end b2\<rparr>)) (buf_text (b3\<lparr>zb_tail := zb_end b2\<rparr>))"
    using b by (auto elim: buf_truncate_stamp)
  show thesis
    by (rule that [OF b3(1,2) b4(1-3)]) (use b3(3,4) b4(4-6) b in \<open>auto simp: same_limits_def\<close>)
qed

lemma vprintf_spec:
  assumes inv: "buf_inv b" and rd: "buf_ready b"
  shows "\<exists>r. zlog_buf_vprintf b (Some s) m = Some r \<and> buf_puts b s m r"
proof -
  let ?n = "zb_end_plus_1 b - zb_tail b"
  obtain b1 where b1: "buf_vsnprintf b ?n (Some s) = Some (int (length s), b1)" "buf_inv b1" "buf_ready b1"
      "buf_text b1 = buf_text b" "zb_end_plus_1 b1 = zb_end_plus_1 b" "zb_tail b1 = zb_tail b" "zb_end b1 = zb_end b"
      "same_limits b b1" "zb_size_real b1 = zb_size_real b"
    and fit: "\<And>t. t \<le> length s \<Longrightarrow> zb_tail b + t \<le> zb_end b \<Longrightarrow> buf_inv (b1\<lparr>zb_tail := zb_tail b + t\<rparr>) \<and>
      buf_ready (b1\<lparr>zb_tail := zb_tail b + t\<rparr>) \<and> buf_text (b1\<lparr>zb_tail := zb_tail b + t\<rparr>) = buf_text b @ take t s"
    by (rule vsnprintf_ready [OF inv rd, of s]) blast
  obtain cells where st: "zb_start b = Some cells" by (rule buf_readyE [OF rd])
  have e: "zb_end_plus_1 b = Suc (zb_end b)" "zb_tail b \<le> zb_end b" "zb_end b = zb_size_real b - 1"
    using inv rd by (auto simp: buf_inv_def elim!: buf_readyE)
  have tl: "length (buf_text b) = zb_tail b" by (rule buf_text_length [OF inv rd])
  show ?thesis
  proof (cases "length s < ?n")
    case True
    then have "int (length s) < int (zb_end_plus_1 b) - int (zb_tail b)" by simp
    then have "zlog_buf_vprintf b (Some s) m = Some (0, b1\<lparr>zb_tail := zb_tail b + length s\<rparr>, m)"
      using st b1 True by (simp add: zlog_buf_vprintf_def Let_def)
    moreover have "buf_puts b s m (0, b1\<lparr>zb_tail := zb_tail b + length s\<rparr>, m)"
      using fit [of "length s"] True e b1(8,9) tl inv by (auto simp: buf_puts_def same_limits_def buf_inv_def)
    ultimately show ?thesis by blast
  next
    case False
    let ?inc = "length s - ?n + 1"
    have inc: "0 < ?inc" "length s = ?inc + (zb_end b1 - zb_tail b1)" using False e(1,2) b1(6,7) by auto
    obtain rc b2 m2 where r: "zlog_buf_resize b1 ?inc m = (rc, b2, m2)" by (cases "zlog_buf_resize b1 ?inc m")
    note mem = buf_resize_mem [OF r]
    have unf: "zlog_buf_vprintf b (Some s) m =
        (let size_left = zb_end_plus_1 b2 - zb_tail b2 in
         if rc > 0 then do {
           (_, b) \<leftarrow> buf_vsnprintf b2 size_left (Some s);
           b \<leftarrow> zlog_buf_truncate (b\<lparr>zb_tail := zb_tail b + size_left - 1\<rparr>);
           Some (1, b, m2) }
         else if rc < 0 then Some (-1, b2, m2)
         else do {
           (nwrite, b) \<leftarrow> buf_vsnprintf b2 size_left (Some s);
           if nwrite < 0 then Some (-1, b, m2) else Some (0, b\<lparr>zb_tail := zb_tail b + nat nwrite\<rparr>, m2) })"
      using st b1(1) r False by (simp add: zlog_buf_vprintf_def Let_def)
    from b1(2,3) inc r show ?thesis
    proof (cases rule: buf_resize_cases)
      case lost
      then show ?thesis using unf mem b1 by (auto simp: buf_puts_def same_limits_def)
    next
      case full
      obtain b3 b4 where b4: "buf_vsnprintf b2 (zb_end_plus_1 b2 - zb_tail b2) (Some s) = Some (int (length s), b3)" "zb_tail b3 = zb_tail b2"
          "zlog_buf_truncate (b3\<lparr>zb_tail := zb_end b2\<rparr>) = Some b4" "buf_inv b4" "buf_ready b4" "same_limits b2 b4" "zb_size_real b4 = zb_size_real b2"
          "buf_text b4 = stamp (zb_truncate_str b2) (buf_text b2 @ take (zb_end b2 - zb_tail b2) s)"
        by (rule vprintf_full [OF full(2,3,9)])
      have e2: "zb_end_plus_1 b2 = Suc (zb_end b2)" "zb_tail b2 \<le> zb_end b2" "zb_end b2 = zb_size_max b - 1"
        using full b1 by (auto simp: buf_inv_def same_limits_def elim!: buf_readyE)
      have "zlog_buf_vprintf b (Some s) m = Some (1, b4, m2)" using unf full(1) b4(1-3) e2(1,2) by simp
      moreover have "buf_text b2 @ take (zb_end b2 - zb_tail b2) s = take (zb_size_max b - 1) (buf_text b @ s)"
        using full b1 e2 tl by simp
      moreover have "zb_truncate_str b2 = zb_truncate_str b" "same_limits b b4" using b4(6) full(4) b1(8) by (auto simp: same_limits_def)
      moreover have "zb_size_max b \<le> length (buf_text b @ s)" "zb_size_max b \<noteq> 0" "zb_size_real b \<le> zb_size_real b4"
        using full b1 tl e2 b4(7) inv by (auto simp: same_limits_def buf_inv_def)
      ultimately show ?thesis using b4 mem by (simp add: buf_puts_def)
    next
      case grown
      obtain b3 where b3: "buf_vsnprintf b2 (zb_end_plus_1 b2 - zb_tail b2) (Some s) = Some (int (length s), b3)"
          "zb_tail b3 = zb_tail b2" "same_limits b2 b3" "zb_size_real b3 = zb_size_real b2"
        and fit3: "\<And>t. t \<le> length s \<Longrightarrow> zb_tail b2 + t \<le> zb_end b2 \<Longrightarrow> buf_inv (b3\<lparr>zb_tail := zb_tail b2 + t\<rparr>) \<and>
          buf_ready (b3\<lparr>zb_tail := zb_tail b2 + t\<rparr>) \<and> buf_text (b3\<lparr>zb_tail := zb_tail b2 + t\<rparr>) = buf_text b2 @ take t s"
        by (rule vsnprintf_ready [OF grown(2,3), of s]) blast
      let ?b = "b3\<lparr>zb_tail := zb_tail b2 + length s\<rparr>"
      have "zlog_buf_vprintf b (Some s) m = Some (0, ?b, m2)" using unf grown(1) b3(1,2) by simp
      moreover have "same_limits b ?b" using b3(3) grown(4) b1(8) by (auto simp: same_limits_def)
      moreover have "length (buf_text b @ s) < zb_size_max b" if "zb_size_max b \<noteq> 0"
        using grown b1 that tl by (auto simp: buf_inv_def same_limits_def elim!: buf_readyE)
      ultimately show ?thesis using fit3 [OF order_refl grown(8)] grown b1 b3(4) mem by (auto simp: buf_puts_def)
    qed
  qed
qed

subsection \<open>Digits\<close>

fun base_string :: "nat \<Rightarrow> nat \<Rightarrow> string" where
  "base_string b n =
     (if b < 2 \<or> n < b then [hex_digits ! n] else base_string b (n div b) @ [hex_digits ! (n mod b)])"

declare base_string.simps [simp del]

definition digit_value :: "char \<Rightarrow> nat" where
  "digit_value c = (let n = of_char c in if n < 58 then n - 48 else n - 87)"

definition base_value :: "nat \<Rightarrow> string \<Rightarrow> nat" where
  "base_value b s = foldl (\<lambda>acc c. acc * b + digit_value c) 0 s"

lemma hex_digit_value: "n < 16 \<Longrightarrow> digit_value (hex_digits ! n) = n"
proof -
  have "list_all (\<lambda>n. digit_value (hex_digits ! n) = n) [0..<16]" by code_simp
  then show "n < 16 \<Longrightarrow> digit_value (hex_digits ! n) = n" by (simp add: list_all_iff)
qed

lemma hex_digit_dec: "n < 10 \<Longrightarrow> hex_digits ! n = char_of (n + 48)"
proof -
  have "list_all (\<lambda>n. hex_digits ! n = char_of (n + 48)) [0..<10]" by code_simp
  then show "n < 10 \<Longrightarrow> hex_digits ! n = char_of (n + 48)" by (simp add: list_all_iff)
qed

lemma base_value_string: "1 < b \<Longrightarrow> b \<le> 16 \<Longrightarrow> base_value b (base_string b n) = n"
proof (induction b n rule: base_string.induct)
  case (1 b n)
  show ?case
  proof (cases "n < b")
    case True
    then show ?thesis using 1 by (simp add: base_string.simps [of b n] base_value_def hex_digit_value)
  next
    case False
    then have "base_value b (base_string b (n div b)) = n div b" using 1 by simp
    moreover have "n mod b < 16" using 1(2,3) by (metis mod_less_divisor order_less_le_trans not_one_less_zero gr0I)
    ultimately show ?thesis using 1(2) False
      by (simp add: base_string.simps [of b n] base_value_def hex_digit_value)
  qed
qed

lemma base_string_length: "1 < b \<Longrightarrow> n < b ^ k \<Longrightarrow> 0 < k \<Longrightarrow> length (base_string b n) \<le> k"
proof (induction k arbitrary: n)
  case (Suc k)
  show ?case
  proof (cases "n < b")
    case True then show ?thesis by (simp add: base_string.simps)
  next
    case False
    then have "k \<noteq> 0" using Suc.prems by (cases k) auto
    moreover have "n div b < b ^ k" using Suc.prems by (simp add: less_mult_imp_div_less mult.commute)
    ultimately show ?thesis using Suc.IH [of "n div b"] Suc.prems False by (simp add: base_string.simps [of b n])
  qed
qed simp

lemma dec_loop_digits:
  assumes ten: "unat (10 :: 'w::len word) = 10"
  shows "unat (w :: 'w word) < 10 ^ room \<Longrightarrow> 0 < room \<Longrightarrow> dec_loop room w p = Some (base_string 10 (unat w) @ p)"
proof (induction room arbitrary: w p)
  case (Suc room)
  have u: "unat (w div 10) = unat w div 10" "unat (w mod 10) = unat w mod 10"
    using unat_div [of w 10] unat_mod [of w 10] unfolding ten by simp_all
  have z: "w div 10 = 0 \<longleftrightarrow> unat w < 10"
    using u(1) by (metis div_eq_0_iff unat_eq_zero zero_neq_numeral)
  show ?case
  proof (cases "unat w < 10")
    case True
    then show ?thesis by (simp add: z u base_string.simps [of 10 "unat w"] hex_digit_dec)
  next
    case False
    then have "room \<noteq> 0" using Suc.prems by (cases room) auto
    moreover have "unat (w div 10) < 10 ^ room" using Suc.prems u by (simp add: less_mult_imp_div_less mult.commute)
    ultimately show ?thesis
      using False Suc.IH [of "w div 10"] by (simp add: z u base_string.simps [of 10 "unat w"] hex_digit_dec)
  qed
qed simp

lemma hex_loop_digits:
  "unat w < 16 ^ room \<Longrightarrow> 0 < room \<Longrightarrow> hex_loop room w p = Some (base_string 16 (unat w) @ p)"
proof (induction room arbitrary: w p)
  case (Suc room)
  have m: "and w 0xf = w mod 16"
    using take_bit_eq_mask [of 4 w] by (simp add: take_bit_eq_mod mask_eq_exp_minus_1)
  have u: "unat (drop_bit 4 w) = unat w div 16" "unat (and w 0xf) = unat w mod 16"
    unfolding m by (simp_all add: drop_bit_eq_div unat_div unat_mod)
  have z: "drop_bit 4 w = 0 \<longleftrightarrow> unat w < 16"
    using u(1) by (metis div_eq_0_iff unat_eq_zero zero_neq_numeral)
  show ?case
  proof (cases "unat w < 16")
    case True
    then show ?thesis by (simp add: z u base_string.simps [of 16 "unat w"])
  next
    case False
    then have "room \<noteq> 0" using Suc.prems by (cases room) auto
    moreover have "unat (drop_bit 4 w) < 16 ^ room" using Suc.prems u by (simp add: less_mult_imp_div_less mult.commute)
    ultimately show ?thesis
      using False Suc.IH [of "drop_bit 4 w"] by (simp add: z u base_string.simps [of 16 "unat w"])
  qed
qed simp

lemma dec32_digits: "dec_loop ZLOG_INT32_LEN (w :: 32 word) [] = Some (base_string 10 (unat w))"
proof -
  have "unat w < 10 ^ 11" using unsigned_less [of w, where ?'a = nat] by simp
  then show ?thesis using dec_loop_digits [of w 11 "[]"] by (simp add: ZLOG_INT32_LEN_def)
qed

lemma dec64_digits:
  "(if w \<le> ucast ZLOG_MAX_UINT32_VALUE then dec_loop ZLOG_INT64_LEN (ucast w :: 32 word) [] else dec_loop ZLOG_INT64_LEN w [])
   = Some (base_string 10 (unat (w :: 64 word)))"
proof -
  have w: "unat w < 10 ^ 20" using unsigned_less [of w, where ?'a = nat] by simp
  show ?thesis
  proof (cases "w \<le> ucast ZLOG_MAX_UINT32_VALUE")
    case True
    then have "unat w < 2 ^ 32" by (simp add: ZLOG_MAX_UINT32_VALUE_def word_le_nat_alt)
    then have e: "unat (ucast w :: 32 word) = unat w" by (simp add: unsigned_ucast_eq take_bit_nat_eq_self)
    have "unat (ucast w :: 32 word) < 10 ^ 20" using w by (simp only: e)
    then have "dec_loop 20 (ucast w :: 32 word) [] = Some (base_string 10 (unat (ucast w :: 32 word)) @ [])"
      by (intro dec_loop_digits) simp_all
    then show ?thesis using True by (simp add: ZLOG_INT64_LEN_def e)
  next
    case False
    then show ?thesis using dec_loop_digits [of w 20 "[]"] w by (simp add: ZLOG_INT64_LEN_def)
  qed
qed

lemma hex32_digits: "hex_loop ZLOG_INT32_LEN w [] = Some (base_string 16 (unat w))"
proof -
  have "unat w < 16 ^ 11" using unsigned_less [of w, where ?'a = nat] by simp
  then show ?thesis using hex_loop_digits [of w 11 "[]"] by (simp add: ZLOG_INT32_LEN_def)
qed

lemma dec32_put:
  "buf_inv b \<Longrightarrow> buf_ready b \<Longrightarrow> zlog_buf_printf_dec32 b n width m = Some (buf_put b (pad_zero width (base_string 10 (unat n))) m)"
  using print_padded_put [of b "base_string 10 (unat n)" width m] buf_ready_start [of b]
  by (auto simp: zlog_buf_printf_dec32_def dec32_digits)

lemma dec64_put:
  "buf_inv b \<Longrightarrow> buf_ready b \<Longrightarrow> zlog_buf_printf_dec64 b n width m = Some (buf_put b (pad_zero width (base_string 10 (unat n))) m)"
  using print_padded_put [of b "base_string 10 (unat n)" width m] buf_ready_start [of b]
  by (auto simp: zlog_buf_printf_dec64_def dec64_digits)

lemma hex_put:
  "buf_inv b \<Longrightarrow> buf_ready b \<Longrightarrow> zlog_buf_printf_hex b n width m = Some (buf_put b (pad_zero width (base_string 16 (unat n))) m)"
  using print_padded_put [of b "base_string 16 (unat n)" width m] buf_ready_start [of b]
  by (auto simp: zlog_buf_printf_hex_def hex32_digits)

subsection \<open>Sequences of appends\<close>

lemma buf_puts_zero:
  assumes "buf_puts b s m (0, b1, m1)" and "buf_puts b1 s' m1 r"
  shows "buf_puts b (s @ s') m r"
  using assms by (cases r) (auto simp: buf_puts_def same_limits_def split: if_splits)

lemma buf_puts_one:
  assumes "buf_puts b s m (1, b1, m1)"
  shows "buf_puts b (s @ s') m (1, b1, m1)"
  using assms by (auto simp: buf_puts_def)

lemma buf_puts_rc: "buf_puts b s m (rc, b1, m1) \<Longrightarrow> rc = 0 \<or> rc = 1 \<or> rc = -1"
  by (auto simp: buf_puts_def split: if_splits)

lemma buf_puts_lost: "buf_puts b s m (-1, b1, m1) \<Longrightarrow> buf_puts b (s @ s') m (-1, b1, m1)"
  by (auto simp: buf_puts_def)

text \<open>
  The contract of an operation that adds text, and what its clients get: writing pieces one after the
  other and stopping at the first non-zero return code, as the callers in \<^verbatim>\<open>spec.c\<close> and
  \<^verbatim>\<open>format.c\<close> do, is adding their concatenation.
\<close>

locale text_sink =
  fixes put :: "zlog_buf \<Rightarrow> string \<Rightarrow> mem \<Rightarrow> (int \<times> zlog_buf \<times> mem) option"
  assumes put_spec: "buf_inv b \<Longrightarrow> buf_ready b \<Longrightarrow> \<exists>r. put b s m = Some r \<and> buf_puts b s m r"
begin

fun put_all :: "zlog_buf \<Rightarrow> string list \<Rightarrow> mem \<Rightarrow> (int \<times> zlog_buf \<times> mem) option" where
  "put_all b [] m = Some (0, b, m)"
| "put_all b (s # ss) m = do { (rc, b, m) \<leftarrow> put b s m; if rc \<noteq> 0 then Some (rc, b, m) else put_all b ss m }"

lemma put_all_concat:
  "buf_inv b \<Longrightarrow> buf_ready b \<Longrightarrow> (zb_size_max b \<noteq> 0 \<Longrightarrow> length (buf_text b) < zb_size_max b) \<Longrightarrow>
   \<exists>r. put_all b ss m = Some r \<and> buf_puts b (concat ss) m r"
proof (induction ss arbitrary: b m)
  case Nil
  then show ?case by (auto simp: buf_puts_def)
next
  case (Cons s ss)
  from put_spec [OF Cons.prems(1,2), of s m] obtain rc b1 m1 where
    p: "put b s m = Some (rc, b1, m1)" "buf_puts b s m (rc, b1, m1)" by (metis prod_cases3)
  consider "rc = 0" | "rc = 1" | "rc = -1" using buf_puts_rc [OF p(2)] by blast
  then show ?case
  proof cases
    case 1
    have "buf_inv b1" "buf_ready b1" "zb_size_max b1 \<noteq> 0 \<Longrightarrow> length (buf_text b1) < zb_size_max b1"
      using p(2) 1 by (auto simp: buf_puts_def same_limits_def)
    from Cons.IH [OF this] obtain r where "put_all b1 ss m1 = Some r" "buf_puts b1 (concat ss) m1 r" by blast
    then show ?thesis using p 1 buf_puts_zero by auto
  next
    case 2 then show ?thesis using p buf_puts_one by auto
  next
    case 3 then show ?thesis using p buf_puts_lost by auto
  qed
qed

end

interpretation app: text_sink "\<lambda>b s m. zlog_buf_append b s (length s) m"
  by unfold_locales (auto simp: append_put intro: buf_put_spec)

interpretation fmt: text_sink "\<lambda>b s m. zlog_buf_vprintf b (Some s) m"
  by unfold_locales (rule vprintf_spec)

subsection \<open>Properties\<close>

text \<open>The buffer that \<open>zlog_buf_new\<close> returns when no allocation fails.\<close>

definition fresh_buf :: "nat \<Rightarrow> nat \<Rightarrow> string \<Rightarrow> zlog_buf" where
  "fresh_buf mn mx mark = the (fst (zlog_buf_new mn mx (Some mark) []))"

lemma fresh_buf_ok:
  "0 < mn \<Longrightarrow> mx = 0 \<or> mn \<le> mx \<Longrightarrow> length mark \<le> MAXLEN_PATH \<Longrightarrow> buf_inv (fresh_buf mn mx mark) \<and> buf_ready (fresh_buf mn mx mark)"
  using buf_inv_new [of mn mx "Some mark" "[]" "fresh_buf mn mx mark" "[]"]
  by (auto simp: fresh_buf_def zlog_buf_new_def)

text \<open>C18: \<open>zlog_buf_append\<close> on a usable buffer, for every outcome of the allocator: it never writes outside
  the block; it returns 0 with the text added in full, or 1 only when the text would not fit below
  \<open>size_max\<close>, with the buffer holding the first \<open>size_max - 1\<close> bytes, the last of them overwritten by the
  truncation mark, or -1 only when an allocation failed, with the buffer freed.\<close>

theorem zlog_buf_append_spec:
  assumes "buf_inv b" and "buf_ready b"
  shows "\<exists>r. zlog_buf_append b s (length s) m = Some r \<and> buf_puts b s m r"
  using assms by (rule app.put_spec)

theorem zlog_buf_append_spec_witness:
  "\<exists>r. zlog_buf_append (fresh_buf 2 6 ''..'') ''overflow'' (length ''overflow'') [] = Some r \<and>
     buf_puts (fresh_buf 2 6 ''..'') ''overflow'' [] r"
  using fresh_buf_ok [of 2 6 "''..''"]
  by (intro zlog_buf_append_spec) (simp_all add: MAXLEN_PATH_def)

text \<open>C20: \<open>zlog_buf_vprintf\<close> satisfies the same specification for the text the format produces, through
  both of its \<open>vsnprintf\<close> calls.\<close>

theorem zlog_buf_vprintf_spec:
  assumes "buf_inv b" and "buf_ready b"
  shows "\<exists>r. zlog_buf_vprintf b (Some s) m = Some r \<and> buf_puts b s m r"
  using assms by (rule fmt.put_spec)

theorem zlog_buf_vprintf_spec_witness:
  "\<exists>r. zlog_buf_vprintf (fresh_buf 2 0 []) (Some ''grows'') [False] = Some r \<and>
     buf_puts (fresh_buf 2 0 []) ''grows'' [False] r"
  using fresh_buf_ok [of 2 0 "[]"]
  by (intro zlog_buf_vprintf_spec) (simp_all add: MAXLEN_PATH_def)





text \<open>After a failed \<open>realloc\<close> the buffer can be appended to again, since \<open>zlog_buf_append\<close> has no test
  of \<open>start\<close>; when the old size and the new text together exceed \<open>size_max\<close>, it takes the truncating path
  with more room than text and \<open>memcpy\<close> reads past the end of the string: a defect.\<close>

theorem zlog_buf_append_after_loss_overreads:
  "\<exists>b m. zlog_buf_append (fresh_buf 10 12 []) ''0123456789'' 10 [False] = Some (-1, b, m) \<and>
     buf_inv b \<and> zlog_buf_append b ''hello'' 5 m = None"
  by (simp add: fresh_buf_def zlog_buf_new_def MAXLEN_PATH_def zlog_buf_append_def zlog_buf_resize_def
      Let_def buf_copy_def buf_inv_def buf_lost_def)

end
