(* ===== verification/Zlog_Libc.thy ===== *)
theory Zlog_Libc
  imports Zlog_Prelude
begin

text \<open>
  The parts of the C library that zlog's parsers use: character classes in the C locale,
  \<open>strcasecmp\<close> (macro \<open>STRICMP\<close>), \<open>strchr\<close> and \<open>strrchr\<close>, and an interpreter for the \<open>sscanf\<close>
  directives that occur in the sources.
\<close>

definition MAXLEN_CFG_LINE :: nat where "MAXLEN_CFG_LINE = 4096"

definition isspace :: "char \<Rightarrow> bool" where
  "isspace c \<longleftrightarrow> (let n = of_char c :: nat in n = 32 \<or> 9 \<le> n \<and> n \<le> 13)"

definition isdigit :: "char \<Rightarrow> bool" where
  "isdigit c \<longleftrightarrow> (let n = of_char c :: nat in 48 \<le> n \<and> n \<le> 57)"

definition toupper :: "char \<Rightarrow> char" where
  "toupper c = (let n = of_char c :: nat in if 97 \<le> n \<and> n \<le> 122 then char_of (n - 32) else c)"

definition tolower :: "char \<Rightarrow> char" where
  "tolower c = (let n = of_char c :: nat in if 65 \<le> n \<and> n \<le> 90 then char_of (n + 32) else c)"

definition isalnum :: "char \<Rightarrow> bool" where
  "isalnum c \<longleftrightarrow> isdigit c \<or> (let n = of_char (tolower c) :: nat in 97 \<le> n \<and> n \<le> 122)"

definition strcaseeq :: "string \<Rightarrow> string \<Rightarrow> bool" where
  "strcaseeq s t \<longleftrightarrow> map tolower s = map tolower t"

text \<open>\<open>strncmp\<close> compares up to \<open>n\<close> characters, stopping at the end of the strings.\<close>

definition strnceq :: "string \<Rightarrow> string \<Rightarrow> nat \<Rightarrow> bool" where
  "strnceq s t n \<longleftrightarrow> take n s = take n t"

text \<open>The suffix from the first, or the last, occurrence of a character on.\<close>

definition strchr :: "string \<Rightarrow> char \<Rightarrow> string option" where
  "strchr s c = (let t = dropWhile (\<lambda>x. x \<noteq> c) s in if t = [] then None else Some t)"

definition strrchr :: "string \<Rightarrow> char \<Rightarrow> string option" where
  "strrchr s c =
     (if c \<in> set s then Some (drop (length s - 1 - length (takeWhile (\<lambda>x. x \<noteq> c) (rev s))) s) else None)"

subsection \<open>Numbers\<close>

definition digits_val :: "nat \<Rightarrow> string \<Rightarrow> int" where
  "digits_val b ds = foldl (\<lambda>acc c. acc * int b + (of_char c - 48)) 0 ds"

text \<open>The result of \<open>strtol\<close>: saturated to 64 bits; \<open>%d\<close> stores its low 32 bits as a signed number.\<close>

definition clamp_long :: "int \<Rightarrow> int" where
  "clamp_long n = max (- (2 ^ 63)) (min (2 ^ 63 - 1) n)"

definition to_int32 :: "int \<Rightarrow> int" where
  "to_int32 n = (n + 2 ^ 31) mod 2 ^ 32 - 2 ^ 31"

text \<open>An optional sign, then digits: the value and the rest of the input.\<close>

definition scan_number :: "nat \<Rightarrow> string \<Rightarrow> (int \<times> string) option" where
  "scan_number b s =
     (let (neg, t) = (case s of [] \<Rightarrow> (False, []) | c # cs \<Rightarrow>
              if c = CHR ''-'' then (True, cs) else if c = CHR ''+'' then (False, cs) else (False, s));
          ds = takeWhile (\<lambda>c. isdigit c \<and> of_char c < 48 + b) t
      in if ds = [] then None
         else Some (clamp_long (if neg then - digits_val b ds else digits_val b ds), drop (length ds) t))"

subsection \<open>sscanf\<close>

datatype scan_item = ScanWs | ScanLit char | ScanSet "char \<Rightarrow> bool" | ScanStr | ScanInt | ScanLong | ScanOct | ScanCount

datatype scan_val = VStr string | VInt int | VCount nat

text \<open>
  \<open>sscanf\<close> runs the directives and stops at the first that does not match. The result lists the
  values stored; \<open>%n\<close> stores the number of characters read so far and is not counted by \<open>nscan\<close>.
  (\<open>sscanf\<close> returns -1 instead of 0 when the input ends before the first conversion: \<open>scan_eof\<close> below,
  for the caller that tells the two apart.)
\<close>

fun sscanf_from :: "nat \<Rightarrow> scan_item list \<Rightarrow> string \<Rightarrow> scan_val list" where
  "sscanf_from n [] s = []"
| "sscanf_from n (ScanWs # fs) s =
     (let t = dropWhile isspace s in sscanf_from (n + (length s - length t)) fs t)"
| "sscanf_from n (ScanLit c # fs) s =
     (case s of [] \<Rightarrow> [] | x # t \<Rightarrow> if x = c then sscanf_from (n + 1) fs t else [])"
| "sscanf_from n (ScanSet P # fs) s =
     (let w = takeWhile P s in
      if w = [] then [] else VStr w # sscanf_from (n + length w) fs (drop (length w) s))"
| "sscanf_from n (ScanStr # fs) s =
     (let t = dropWhile isspace s; w = takeWhile (\<lambda>c. \<not> isspace c) t in
      if w = [] then [] else VStr w # sscanf_from (n + (length s - length t) + length w) fs (drop (length w) t))"
| "sscanf_from n (ScanInt # fs) s =
     (let t = dropWhile isspace s in
      case scan_number 10 t of
        None \<Rightarrow> []
      | Some (v, u) \<Rightarrow> VInt (to_int32 v) # sscanf_from (n + (length s - length u)) fs u)"
| "sscanf_from n (ScanLong # fs) s =
     (let t = dropWhile isspace s in
      case scan_number 10 t of
        None \<Rightarrow> []
      | Some (v, u) \<Rightarrow> VInt v # sscanf_from (n + (length s - length u)) fs u)"
| "sscanf_from n (ScanOct # fs) s =
     (let t = dropWhile isspace s in
      case scan_number 8 t of
        None \<Rightarrow> []
      | Some (v, u) \<Rightarrow> VInt (to_int32 v) # sscanf_from (n + (length s - length u)) fs u)"
| "sscanf_from n (ScanCount # fs) s = VCount n # sscanf_from n fs s"

definition sscanf :: "scan_item list \<Rightarrow> string \<Rightarrow> scan_val list" where
  "sscanf fs s = sscanf_from 0 fs s"

text \<open>The value of \<open>nscan\<close>, and the stored value of a conversion, or what the variable held before.\<close>

definition nscan :: "scan_val list \<Rightarrow> nat" where
  "nscan vs = length (filter (\<lambda>v. case v of VCount _ \<Rightarrow> False | _ \<Rightarrow> True) vs)"

definition val_str :: "scan_val list \<Rightarrow> nat \<Rightarrow> string" where
  "val_str vs i = (if i < length vs then (case vs ! i of VStr s \<Rightarrow> s | _ \<Rightarrow> []) else [])"

definition val_int :: "int \<Rightarrow> scan_val list \<Rightarrow> nat \<Rightarrow> int" where
  "val_int d vs i = (if i < length vs then (case vs ! i of VInt n \<Rightarrow> n | VCount n \<Rightarrow> int n | VStr s \<Rightarrow> d) else d)"

text \<open>Does the input end before the first conversion?\<close>

fun scan_eof :: "scan_item list \<Rightarrow> string \<Rightarrow> bool" where
  "scan_eof [] s = False"
| "scan_eof (ScanWs # fs) s = scan_eof fs (dropWhile isspace s)"
| "scan_eof (ScanLit c # fs) s = (case s of [] \<Rightarrow> True | x # t \<Rightarrow> x = c \<and> scan_eof fs t)"
| "scan_eof (ScanSet P # fs) s = (s = [])"
| "scan_eof (ScanStr # fs) s = (dropWhile isspace s = [])"
| "scan_eof (ScanInt # fs) s = (dropWhile isspace s = [])"
| "scan_eof (ScanLong # fs) s = (dropWhile isspace s = [])"
| "scan_eof (ScanOct # fs) s = (dropWhile isspace s = [])"
| "scan_eof (ScanCount # fs) s = scan_eof fs s"

subsection \<open>Facts\<close>

lemma to_int32_small [simp]: "- (2 ^ 31) \<le> n \<Longrightarrow> n < 2 ^ 31 \<Longrightarrow> to_int32 n = n"
  by (simp add: to_int32_def)

lemma to_int32_range: "- (2 ^ 31) \<le> to_int32 n \<and> to_int32 n < 2 ^ 31"
  by (simp add: to_int32_def)

lemma tolower_toupper [simp]: "tolower (toupper c) = tolower c"
  by (cases "97 \<le> (of_char c :: nat) \<and> (of_char c :: nat) \<le> 122") (auto simp: tolower_def toupper_def Let_def)

lemma strcaseeq_upper [simp]: "strcaseeq s (map toupper t) \<longleftrightarrow> strcaseeq s t"
  by (simp add: strcaseeq_def comp_def)

lemma strcaseeq_refl [simp]: "strcaseeq s s"
  by (simp add: strcaseeq_def)

lemma strcaseeq_sym: "strcaseeq s t \<Longrightarrow> strcaseeq t s"
  by (simp add: strcaseeq_def)

lemma strcaseeq_trans: "strcaseeq s t \<Longrightarrow> strcaseeq t u \<Longrightarrow> strcaseeq s u"
  by (simp add: strcaseeq_def)

lemma strrchr_suffix: "strrchr s c = Some t \<Longrightarrow> \<exists>u. s = u @ t \<and> t \<noteq> [] \<and> hd t = c \<and> c \<notin> set (tl t)"
proof -
  assume a: "strrchr s c = Some t"
  then have c: "c \<in> set s" by (auto simp: strrchr_def split: if_splits)
  then obtain u v where uv: "s = u @ c # v" "c \<notin> set v" by (metis split_list_last)
  have "takeWhile (\<lambda>x. x \<noteq> c) (rev s) = rev v"
    using uv takeWhile_append2 [of "rev v" "\<lambda>x. x \<noteq> c" "c # rev u"] by auto
  then have "t = c # v" using a c uv by (auto simp: strrchr_def)
  then show ?thesis using uv by auto
qed

lemma strrchr_None: "strrchr s c = None \<longleftrightarrow> c \<notin> set s"
  by (auto simp: strrchr_def)

lemma scan_number_rest: "scan_number b s = Some (v, u) \<Longrightarrow> length u \<le> length s"
  by (cases s) (auto simp: scan_number_def Let_def split: if_splits)

text \<open>Every stored string is a part of the input, so it fits an array as long as the input line.\<close>

lemma sscanf_from_bound: "VStr w \<in> set (sscanf_from n fs s) \<Longrightarrow> length w \<le> length s"
proof (induction n fs s rule: sscanf_from.induct)
  case (2 n fs s)
  then show ?case using length_dropWhile_le [of isspace s] by (auto simp: Let_def)
next
  case (4 n P fs s)
  then show ?case using length_takeWhile_le [of P s] by (fastforce simp: Let_def split: if_splits)
next
  case (5 n fs s)
  let ?t = "dropWhile isspace s"
  have "length (takeWhile (\<lambda>c. \<not> isspace c) ?t) \<le> length s" "length ?t \<le> length s"
    using length_dropWhile_le [of isspace s] length_takeWhile_le [of "\<lambda>c. \<not> isspace c" ?t] by linarith+
  then show ?case using 5 by (fastforce simp: Let_def split: if_splits)
next
  case (6 n fs s)
  have "length (dropWhile isspace s) \<le> length s" by (rule length_dropWhile_le)
  then show ?case using 6 scan_number_rest [of 10 "dropWhile isspace s"]
    by (cases "scan_number 10 (dropWhile isspace s)") (auto simp: Let_def, fastforce)
next
  case (7 n fs s)
  have "length (dropWhile isspace s) \<le> length s" by (rule length_dropWhile_le)
  then show ?case using 7 scan_number_rest [of 10 "dropWhile isspace s"]
    by (cases "scan_number 10 (dropWhile isspace s)") (auto simp: Let_def, fastforce)
next
  case (8 n fs s)
  have "length (dropWhile isspace s) \<le> length s" by (rule length_dropWhile_le)
  then show ?case using 8 scan_number_rest [of 8 "dropWhile isspace s"]
    by (cases "scan_number 8 (dropWhile isspace s)") (auto simp: Let_def, fastforce)
qed (auto split: list.splits if_splits)

lemma val_str_bound: "length (val_str (sscanf fs s) i) \<le> length s"
  using sscanf_from_bound [of _ 0 fs s]
  by (auto simp: val_str_def sscanf_def split: scan_val.splits) (metis nth_mem)

lemma sscanf_from_count: "VCount k \<in> set (sscanf_from n fs s) \<Longrightarrow> n \<le> k \<and> k \<le> n + length s"
proof (induction n fs s rule: sscanf_from.induct)
  case (2 n fs s)
  then show ?case using length_dropWhile_le [of isspace s] by (fastforce simp: Let_def)
next
  case (4 n P fs s)
  then show ?case using length_takeWhile_le [of P s] by (fastforce simp: Let_def split: if_splits)
next
  case (5 n fs s)
  let ?t = "dropWhile isspace s"
  have "length (takeWhile (\<lambda>c. \<not> isspace c) ?t) \<le> length ?t" "length ?t \<le> length s"
    by (rule length_takeWhile_le) (rule length_dropWhile_le)
  then show ?case using 5 by (fastforce simp: Let_def split: if_splits)
next
  case (6 n fs s)
  have "length (dropWhile isspace s) \<le> length s" by (rule length_dropWhile_le)
  then show ?case using 6 scan_number_rest [of 10 "dropWhile isspace s"]
    by (cases "scan_number 10 (dropWhile isspace s)") (auto simp: Let_def, fastforce+)
next
  case (7 n fs s)
  have "length (dropWhile isspace s) \<le> length s" by (rule length_dropWhile_le)
  then show ?case using 7 scan_number_rest [of 10 "dropWhile isspace s"]
    by (cases "scan_number 10 (dropWhile isspace s)") (auto simp: Let_def, fastforce+)
next
  case (8 n fs s)
  have "length (dropWhile isspace s) \<le> length s" by (rule length_dropWhile_le)
  then show ?case using 8 scan_number_rest [of 8 "dropWhile isspace s"]
    by (cases "scan_number 8 (dropWhile isspace s)") (auto simp: Let_def, fastforce+)
next
  case (3 n c fs s)
  then show ?case by (cases s) (force split: if_splits)+
qed auto

lemma val_count_bound: "nat (val_int 0 (sscanf fs s) i) \<le> length s" if "ScanInt \<notin> set fs" "ScanLong \<notin> set fs" "ScanOct \<notin> set fs"
proof -
  have no: "VInt k \<notin> set (sscanf_from n fs s)" if "ScanInt \<notin> set fs" "ScanLong \<notin> set fs" "ScanOct \<notin> set fs" for k n fs s
    using that by (induction n fs s rule: sscanf_from.induct) (auto simp: Let_def split: list.splits if_splits)
  show ?thesis
  proof (cases "i < length (sscanf fs s)")
    case True
    define x where "x = sscanf fs s ! i"
    have "x \<in> set (sscanf_from 0 fs s)" using True by (simp add: x_def sscanf_def)
    moreover have "val_int 0 (sscanf fs s) i = (case x of VInt n \<Rightarrow> n | VCount n \<Rightarrow> int n | VStr s \<Rightarrow> 0)"
      using True by (simp add: val_int_def x_def)
    ultimately show ?thesis using sscanf_from_count [of _ 0 fs s] no [OF that] by (fastforce split: scan_val.splits)
  qed (simp add: val_int_def)
qed

text \<open>What evaluates a scan of a concrete line.\<close>

lemmas scan_eval = sscanf_def isspace_def isdigit_def scan_number_def digits_val_def clamp_long_def
  to_int32_def nscan_def val_str_def val_int_def

lemmas char_eval = strcaseeq_def tolower_def toupper_def char_of_def bit_iff_odd

end
