(* ===== verification/Zlog_Level.thy ===== *)
theory Zlog_Level
  imports Zc_Arraylist Zlog_Libc Zlog_Buf
begin

text \<open>
  Levels (\<^verbatim>\<open>level.c\<close>) and the list of levels indexed by their number (\<^verbatim>\<open>level_list.c\<close>). A level
  line of the configuration, such as \<^verbatim>\<open>TRACE = 10, LOG_ERR\<close>, is scanned, checked and stored in the
  slot of its number; rules look a level up by name, the output of an event looks it up by number.
\<close>

record zlog_level =
  lv_int_level :: int
  lv_str_uppercase :: string
  lv_str_lowercase :: string
  lv_str_len :: nat
  lv_syslog_level :: int

text \<open>The values of \<^verbatim>\<open>syslog.h\<close>.\<close>

definition LOG_DEBUG :: int where "LOG_DEBUG = 7"

definition syslog_level_atoi :: "string \<Rightarrow> int" where
  "syslog_level_atoi str =
     (if strcaseeq str ''LOG_EMERG'' then 0
      else if strcaseeq str ''LOG_ALERT'' then 1
      else if strcaseeq str ''LOG_CRIT'' then 2
      else if strcaseeq str ''LOG_ERR'' then 3
      else if strcaseeq str ''LOG_WARNING'' then 4
      else if strcaseeq str ''LOG_NOTICE'' then 5
      else if strcaseeq str ''LOG_INFO'' then 6
      else if strcaseeq str ''LOG_DEBUG'' then LOG_DEBUG
      else -187)"

text \<open>The format \<^verbatim>\<open>" %[^= \t] = %d ,%s"\<close> of a level line.\<close>

definition level_line_fmt :: "scan_item list" where
  "level_line_fmt = [ScanWs, ScanSet (\<lambda>c. c \<noteq> CHR ''='' \<and> c \<noteq> CHR '' '' \<and> c \<noteq> CHR 0x09), ScanWs,
     ScanLit (CHR ''=''), ScanWs, ScanInt, ScanWs, ScanLit (CHR '',''), ScanStr]"

text \<open>
  \<open>zlog_level_new\<close>. The two arrays the line is scanned into hold \<open>MAXLEN_CFG_LINE\<close> characters; a
  longer field would overrun them.
\<close>

definition zlog_level_new :: "string \<Rightarrow> mem \<Rightarrow> (zlog_level option \<times> mem) option" where
  "zlog_level_new line m =
     (let vs = sscanf level_line_fmt line;
          str = val_str vs 0; l = val_int 0 vs 1; sl = val_str vs 2
      in
        if length str > MAXLEN_CFG_LINE \<or> length sl > MAXLEN_CFG_LINE then None
        else if nscan vs < 2 then Some (None, m)
        else if l < 0 \<or> l > 255 then Some (None, m)
        else if str = [] then Some (None, m)
        else let (ok, m) = alloc m in
          if \<not> ok then Some (None, m)
          else
            let syslog_level = (if sl = [] then LOG_DEBUG else syslog_level_atoi sl) in
            if syslog_level = -187 then Some (None, m)
            else let i = min (length str) MAXLEN_PATH in
              if i < length str then Some (None, m)
              else Some (Some \<lparr>lv_int_level = l, lv_str_uppercase = map toupper str,
                               lv_str_lowercase = map tolower str, lv_str_len = i,
                               lv_syslog_level = syslog_level\<rparr>, m))"

type_synonym level_list = "zlog_level zc_arraylist"

text \<open>
  \<open>zlog_level_list_set\<close>: the return code and the levels freed, by the list when a slot is replaced.
\<close>

definition zlog_level_list_set ::
  "level_list \<Rightarrow> string \<Rightarrow> mem \<Rightarrow> (int \<times> zlog_level list \<times> level_list \<times> mem) option" where
  "zlog_level_list_set levels line m = do {
     (a_level, m) \<leftarrow> zlog_level_new line m;
     (case a_level of
        None \<Rightarrow> Some (-1, [], levels, m)
      | Some lv \<Rightarrow> do {
          (rc, dead, levels, m) \<leftarrow> zc_arraylist_set levels (lv_int_level lv) (Some lv) m;
          if rc \<noteq> 0 then Some (-1, dead @ [lv], levels, m) else Some (0, dead, levels, m)
        })
   }"

definition default_levels :: "string list" where
  "default_levels =
     [''* = 0, LOG_INFO'', ''DEBUG = 20, LOG_DEBUG'', ''INFO = 40, LOG_INFO'', ''NOTICE = 60, LOG_NOTICE'',
      ''WARN = 80, LOG_WARNING'', ''ERROR = 100, LOG_ERR'', ''FATAL = 120, LOG_ALERT'',
      ''UNKNOWN = 254, LOG_ERR'', ''! = 255, LOG_INFO'']"

text \<open>The chain of \<open>||\<close> in \<open>zlog_level_list_set_default\<close>: it stops at the first failure.\<close>

fun level_list_set_all :: "level_list \<Rightarrow> string list \<Rightarrow> mem \<Rightarrow> (int \<times> level_list \<times> mem) option" where
  "level_list_set_all levels [] m = Some (0, levels, m)"
| "level_list_set_all levels (line # lines) m = do {
     (rc, dead, levels, m) \<leftarrow> zlog_level_list_set levels line m;
     if rc \<noteq> 0 then Some (1, levels, m) else level_list_set_all levels lines m
   }"

definition zlog_level_list_set_default :: "level_list \<Rightarrow> mem \<Rightarrow> (int \<times> level_list \<times> mem) option" where
  "zlog_level_list_set_default levels m = level_list_set_all levels default_levels m"

definition zlog_level_list_del :: "level_list option \<Rightarrow> zlog_level list option" where
  "zlog_level_list_del levels = (case levels of None \<Rightarrow> Some [] | Some ls \<Rightarrow> zc_arraylist_del (Some ls))"

definition zlog_level_list_new :: "mem \<Rightarrow> (level_list option \<times> mem) option" where
  "zlog_level_list_new m =
     (case zc_arraylist_new True m of
        (None, m) \<Rightarrow> Some (None, m)
      | (Some levels, m) \<Rightarrow> do {
          (rc, levels, m) \<leftarrow> zlog_level_list_set_default levels m;
          if rc \<noteq> 0 then do { _ \<leftarrow> zc_arraylist_del (Some levels); Some (None, m) }
          else Some (Some levels, m)
        })"

definition zlog_level_list_get :: "level_list \<Rightarrow> int \<Rightarrow> zlog_level option option" where
  "zlog_level_list_get levels l = do {
     a_level \<leftarrow> zc_arraylist_get levels l;
     (case a_level of Some lv \<Rightarrow> Some (Some lv) | None \<Rightarrow> zc_arraylist_get levels 254)
   }"

fun level_find :: "string \<Rightarrow> zlog_level option list \<Rightarrow> int \<Rightarrow> int" where
  "level_find str [] i = -1"
| "level_find str (None # ls) i = level_find str ls (i + 1)"
| "level_find str (Some lv # ls) i =
     (if strcaseeq str (lv_str_uppercase lv) then i else level_find str ls (i + 1))"

definition zlog_level_list_atoi :: "level_list \<Rightarrow> string option \<Rightarrow> int option" where
  "zlog_level_list_atoi levels str =
     (case str of
        None \<Rightarrow> Some (-1)
      | Some s \<Rightarrow>
          if s = [] then Some (-1)
          else do {
            arr \<leftarrow> al_array levels;
            if length arr < max 1 (al_len levels) then None
            else Some (level_find s (take (al_len levels) arr) 0)
          })"

subsection \<open>Invariant\<close>

definition slots_indexed :: "zlog_level option list \<Rightarrow> bool" where
  "slots_indexed xs \<longleftrightarrow> (\<forall>i < length xs. \<forall>lv. xs ! i = Some lv \<longrightarrow> lv_int_level lv = int i)"

text \<open>A level list as \<open>zlog_level_list_new\<close> builds it: all 256 slots are allocated, the slot of the
  level \<open>UNKNOWN\<close> is filled, and a level is in the slot of its number.\<close>

definition level_list_ok :: "level_list \<Rightarrow> bool" where
  "level_list_ok ls \<longleftrightarrow> al_inv ls \<and> al_del ls \<and> al_size ls = 256 \<and> al_len ls = 256 \<and>
     al_slots ls ! 254 \<noteq> None \<and> slots_indexed (al_slots ls)"

lemma slots_indexed_set:
  "slots_indexed xs \<Longrightarrow> lv_int_level lv = int k \<Longrightarrow> slots_indexed (slots_set xs k (Some lv))"
  by (auto simp: slots_indexed_def slots_set_nth split: if_splits)

lemma syslog_level_atoi_range: "syslog_level_atoi s \<noteq> -187 \<Longrightarrow> 0 \<le> syslog_level_atoi s \<and> syslog_level_atoi s \<le> 7"
  unfolding syslog_level_atoi_def LOG_DEBUG_def by (simp split: if_splits)

lemma zlog_level_new_fields:
  assumes "zlog_level_new line m = Some (Some lv, m')"
  shows "0 \<le> lv_int_level lv \<and> lv_int_level lv \<le> 255 \<and> lv_str_uppercase lv \<noteq> [] \<and>
    lv_str_uppercase lv = map toupper (val_str (sscanf level_line_fmt line) 0) \<and>
    lv_str_lowercase lv = map tolower (val_str (sscanf level_line_fmt line) 0) \<and>
    lv_str_len lv = length (lv_str_uppercase lv) \<and> lv_str_len lv \<le> MAXLEN_PATH \<and>
    lv_int_level lv = val_int 0 (sscanf level_line_fmt line) 1 \<and> 0 \<le> lv_syslog_level lv \<and> lv_syslog_level lv \<le> 7 \<and>
    set m' \<subseteq> set m"
proof -
  define sl where "sl = val_str (sscanf level_line_fmt line) 2"
  define sys where "sys = (if sl = [] then LOG_DEBUG else syslog_level_atoi sl)"
  have "sys \<noteq> -187 \<Longrightarrow> 0 \<le> sys \<and> sys \<le> 7" using syslog_level_atoi_range [of sl] by (auto simp: sys_def LOG_DEBUG_def split: if_splits)
  moreover obtain ok m1 where al: "alloc m = (ok, m1)" by (cases "alloc m")
  moreover from al have "set m1 \<subseteq> set m" by (cases m) auto
  ultimately show ?thesis
    using assms unfolding zlog_level_new_def Let_def sl_def [symmetric] sys_def [symmetric]
    by (simp split: if_splits) auto
qed

lemma zlog_level_new_total:
  "length line \<le> MAXLEN_CFG_LINE \<Longrightarrow> \<exists>r m'. zlog_level_new line m = Some (r, m') \<and> set m' \<subseteq> set m"
proof -
  assume "length line \<le> MAXLEN_CFG_LINE"
  then have "length (val_str (sscanf level_line_fmt line) i) \<le> MAXLEN_CFG_LINE" for i
    using val_str_bound [of level_line_fmt line i] by linarith
  from this [of 0] this [of 2] show ?thesis
    by (cases m) (auto simp: zlog_level_new_def Let_def)
qed

lemma set_inside:
  assumes "al_rep ls xs" and "0 \<le> l" and "l < int (al_size ls)"
  shows "\<exists>dead ls'. zc_arraylist_set ls l d m = Some (0, dead, ls', m) \<and> al_rep ls' (slots_set xs (nat l) d) \<and>
    al_size ls' = al_size ls \<and> al_del ls' = al_del ls"
proof -
  obtain dead ls' where "zc_arraylist_store ls l d = Some (dead, ls')" "al_rep ls' (slots_set xs (nat l) d)"
      "al_size ls' = al_size ls" "al_del ls' = al_del ls"
    by (rule store_rep [OF assms(1,2), of d]) (use assms(2,3) in auto)
  then show ?thesis using assms(3) by (simp add: zc_arraylist_set_def)
qed

lemma level_list_set_ok:
  assumes ok: "level_list_ok ls" and len: "length line \<le> MAXLEN_CFG_LINE"
  shows "\<exists>rc dead ls' m' r. zlog_level_list_set ls line m = Some (rc, dead, ls', m') \<and> level_list_ok ls' \<and>
    (rc = 0 \<and> r = Some (the r) \<and> (\<exists>m1. zlog_level_new line m = Some (r, m1)) \<and>
       al_slots ls' = (al_slots ls)[nat (lv_int_level (the r)) := r] \<or>
     rc = -1 \<and> (\<exists>m1. zlog_level_new line m = Some (None, m1)) \<and> ls' = ls)"
proof -
  obtain r m1 where n: "zlog_level_new line m = Some (r, m1)" using zlog_level_new_total [OF len] by blast
  show ?thesis
  proof (cases r)
    case None
    then show ?thesis using n ok by (simp add: zlog_level_list_set_def)
  next
    case (Some lv)
    note f = zlog_level_new_fields [OF n [unfolded Some]]
    have rep: "al_rep ls (al_slots ls)" and len256: "length (al_slots ls) = 256" "al_size ls = 256"
      using ok by (auto simp: level_list_ok_def al_inv_iff_rep al_rep_def)
    obtain dead ls' where s: "zc_arraylist_set ls (lv_int_level lv) (Some lv) m1 = Some (0, dead, ls', m1)"
        "al_rep ls' (slots_set (al_slots ls) (nat (lv_int_level lv)) (Some lv))" "al_size ls' = al_size ls" "al_del ls' = al_del ls"
      using set_inside [OF rep, of "lv_int_level lv" "Some lv" m1] f len256 by auto
    let ?k = "nat (lv_int_level lv)"
    have k: "?k < 256" "lv_int_level lv = int ?k" using f by auto
    have sl: "al_slots ls' = (al_slots ls)[?k := Some lv]"
      using al_rep_slots [OF s(2)] slots_set_inside [of ?k "al_slots ls" "Some lv"] k len256 by simp
    have "slots_indexed (al_slots ls')"
      using slots_indexed_set [OF _ k(2), of "al_slots ls"] ok al_rep_slots [OF s(2)] by (simp add: level_list_ok_def)
    moreover have "al_slots ls' ! 254 \<noteq> None" using ok sl len256 by (cases "?k = 254") (auto simp: level_list_ok_def)
    moreover have "al_inv ls'" by (rule al_rep_inv [OF s(2)])
    moreover have "al_len ls' = 256" using s(2) k(1) len256 by (auto simp: al_rep_def max_def)
    ultimately have "level_list_ok ls'" using s ok by (simp add: level_list_ok_def)
    then show ?thesis using n Some s sl by (auto simp: zlog_level_list_set_def)
  qed
qed

subsection \<open>The default levels\<close>

text \<open>The growth of the list along a sequence of level lines, when no allocation fails.\<close>

fun sizes_ok :: "nat \<Rightarrow> string list \<Rightarrow> nat option" where
  "sizes_ok s [] = Some s"
| "sizes_ok s (line # lines) =
     (case zlog_level_new line [] of
        Some (Some lv, []) \<Rightarrow>
          let k = nat (lv_int_level lv) in
          if lv_int_level lv < 0 \<or> k \<ge> 2 * s then None
          else sizes_ok (if k < s then s else max (s * 2) k) lines
      | _ \<Rightarrow> None)"

lemma set_size:
  "zc_arraylist_set a idx d m = Some (0, dead, a', m') \<Longrightarrow>
   al_size a' = (if idx > int (al_size a) - 1 then max (al_size a * 2) (nat idx) else al_size a)"
  by (auto simp: zc_arraylist_set_def zc_arraylist_expand_inner_def zc_arraylist_store_def Let_def
      split: Option.bind_splits option.splits prod.splits if_splits)

abbreviation line_level :: "string \<Rightarrow> zlog_level" where
  "line_level line \<equiv> the (fst (the (zlog_level_new line [])))"

definition store_level :: "zlog_level option list \<Rightarrow> string \<Rightarrow> zlog_level option list" where
  "store_level xs line = slots_set xs (nat (lv_int_level (line_level line))) (Some (line_level line))"

lemma set_all_defaults:
  "al_rep ls xs \<Longrightarrow> sizes_ok (al_size ls) lines = Some s \<Longrightarrow>
   \<exists>ls'. level_list_set_all ls lines [] = Some (0, ls', []) \<and> al_rep ls' (foldl store_level xs lines) \<and>
     al_size ls' = s \<and> al_del ls' = al_del ls"
proof (induction lines arbitrary: ls xs)
  case (Cons line lines)
  obtain lv where n: "zlog_level_new line [] = Some (Some lv, [])" "0 \<le> lv_int_level lv"
      "lv_int_level lv < 2 * int (al_size ls)"
      "sizes_ok (if nat (lv_int_level lv) < al_size ls then al_size ls else max (al_size ls * 2) (nat (lv_int_level lv))) lines = Some s"
    using Cons.prems(2) by (auto simp: Let_def split: option.splits prod.splits if_splits list.splits)
  have "\<exists>dead ls' m'. zc_arraylist_set ls (lv_int_level lv) (Some lv) [] = Some (0, dead, ls', m') \<and>
      al_rep ls' (store_level xs line) \<and> al_del ls' = al_del ls"
    by (rule zc_arraylist_set_rep [OF Cons.prems(1) n(2,3), of "Some lv" "[]"]) (auto simp: store_level_def n(1))
  then obtain dead ls' m' where st: "zc_arraylist_set ls (lv_int_level lv) (Some lv) [] = Some (0, dead, ls', m')"
      "al_rep ls' (store_level xs line)" "al_del ls' = al_del ls" by blast
  have m': "m' = []" using set_mem_suffix [OF st(1)] by simp
  have "al_size ls' = (if nat (lv_int_level lv) < al_size ls then al_size ls else max (al_size ls * 2) (nat (lv_int_level lv)))"
    using set_size [OF st(1)] n(2) by (auto split: if_splits)
  then have "sizes_ok (al_size ls') lines = Some s" using n(4) by simp
  from Cons.IH [OF st(2) this] obtain ls2 where "level_list_set_all ls' lines [] = Some (0, ls2, [])"
      "al_rep ls2 (foldl store_level (store_level xs line) lines)" "al_size ls2 = s" "al_del ls2 = al_del ls'" by blast
  then show ?case using st n(1) m' by (simp add: zlog_level_list_set_def)
qed simp

definition default_level :: "int \<Rightarrow> string \<Rightarrow> int \<Rightarrow> zlog_level" where
  "default_level n s sl = \<lparr>lv_int_level = n, lv_str_uppercase = s, lv_str_lowercase = map tolower s,
     lv_str_len = length s, lv_syslog_level = sl\<rparr>"

lemmas level_eval = zlog_level_new_def level_line_fmt_def syslog_level_atoi_def MAXLEN_CFG_LINE_def
  MAXLEN_PATH_def LOG_DEBUG_def default_level_def scan_eval char_eval Let_def

lemma parse_default [simp]:
  "zlog_level_new ''* = 0, LOG_INFO'' [] = Some (Some (default_level 0 ''*'' 6), [])"
  "zlog_level_new ''DEBUG = 20, LOG_DEBUG'' [] = Some (Some (default_level 20 ''DEBUG'' 7), [])"
  "zlog_level_new ''INFO = 40, LOG_INFO'' [] = Some (Some (default_level 40 ''INFO'' 6), [])"
  "zlog_level_new ''NOTICE = 60, LOG_NOTICE'' [] = Some (Some (default_level 60 ''NOTICE'' 5), [])"
  "zlog_level_new ''WARN = 80, LOG_WARNING'' [] = Some (Some (default_level 80 ''WARN'' 4), [])"
  "zlog_level_new ''ERROR = 100, LOG_ERR'' [] = Some (Some (default_level 100 ''ERROR'' 3), [])"
  "zlog_level_new ''FATAL = 120, LOG_ALERT'' [] = Some (Some (default_level 120 ''FATAL'' 1), [])"
  "zlog_level_new ''UNKNOWN = 254, LOG_ERR'' [] = Some (Some (default_level 254 ''UNKNOWN'' 3), [])"
  "zlog_level_new ''! = 255, LOG_INFO'' [] = Some (Some (default_level 255 ''!'' 6), [])"
  by (simp_all add: level_eval)

lemma level_new_script:
  "zlog_level_new line [] = Some (Some lv, []) \<Longrightarrow> zlog_level_new line (True # m) = Some (Some lv, m)"
  by (simp add: zlog_level_new_def Let_def split: if_splits)

lemma default_level_number [simp]: "lv_int_level (default_level n s sl) = n"
  by (simp add: default_level_def)

lemma sizes_default: "sizes_ok 32 default_levels = Some 256"
  by (simp add: default_levels_def)

lemma default_numbers:
  "map (\<lambda>l. lv_int_level (line_level l)) default_levels = [0, 20, 40, 60, 80, 100, 120, 254, 255]"
  by (simp add: default_levels_def)

lemma store_level_length: "length (store_level xs l) = max (length xs) (Suc (nat (lv_int_level (line_level l))))"
  by (simp add: store_level_def)

lemma store_levels_indexed:
  "slots_indexed xs \<Longrightarrow> (\<forall>l \<in> set lines. 0 \<le> lv_int_level (line_level l)) \<Longrightarrow> slots_indexed (foldl store_level xs lines)"
proof (induction lines arbitrary: xs)
  case (Cons l lines)
  then have "slots_indexed (store_level xs l)"
    unfolding store_level_def by (intro slots_indexed_set) simp_all
  then show ?case using Cons by simp
qed simp

lemma level_list_new_ok:
  "\<exists>ls. zlog_level_list_new [] = Some (Some ls, []) \<and> level_list_ok ls \<and>
     al_slots ls = foldl store_level [] default_levels"
proof -
  obtain l0 :: level_list where l0: "zc_arraylist_new True [] = (Some l0, [])" by (simp add: zc_arraylist_new_def)
  have l0': "al_rep l0 []" "al_size l0 = 32" "al_del l0" using zc_arraylist_new_rep [OF l0] by auto
  obtain ls where ls: "level_list_set_all l0 default_levels [] = Some (0, ls, [])"
      "al_rep ls (foldl store_level [] default_levels)" "al_size ls = 256" "al_del ls"
    using set_all_defaults [OF l0'(1), of default_levels 256] sizes_default l0' by auto
  let ?xs = "foldl store_level [] default_levels"
  have len: "length ?xs = 256"
    using default_numbers by (simp add: default_levels_def store_level_length)
  have "?xs ! 254 \<noteq> None"
  proof -
    have "nat (lv_int_level (line_level ''! = 255, LOG_INFO'')) = 255" "nat (lv_int_level (line_level ''UNKNOWN = 254, LOG_ERR'')) = 254"
      using default_numbers by (simp_all add: default_levels_def)
    then show ?thesis by (simp add: default_levels_def store_level_def slots_set_nth)
  qed
  moreover have "slots_indexed ?xs"
    using default_numbers by (intro store_levels_indexed) (auto simp: slots_indexed_def default_levels_def)
  moreover have "al_slots ls = ?xs" "al_inv ls" "al_len ls = 256"
    using al_rep_slots [OF ls(2)] al_rep_inv [OF ls(2)] ls(2) len by (simp_all add: al_rep_def)
  ultimately have "level_list_ok ls" using ls(3,4) by (simp add: level_list_ok_def)
  then show ?thesis using l0 ls by (simp add: zlog_level_list_new_def zlog_level_list_set_default_def al_rep_slots)
qed

subsection \<open>Looking levels up\<close>

text \<open>A list of levels that is made under any script of allocations is the one made without failures.\<close>

lemma level_new_success: "zlog_level_new line m = Some (Some lv, m') \<Longrightarrow> zlog_level_new line [] = Some (Some lv, [])"
  by (auto simp: zlog_level_new_def Let_def split: if_splits prod.splits)

lemma level_list_set_success:
  assumes "zlog_level_list_set ls line m = Some (0, dead, ls', m')"
  shows "zlog_level_list_set ls line [] = Some (0, dead, ls', [])"
proof -
  obtain lv m1 where n: "zlog_level_new line m = Some (Some lv, m1)" "zc_arraylist_set ls (lv_int_level lv) (Some lv) m1 = Some (0, dead, ls', m')"
    using assms by (auto simp: zlog_level_list_set_def bind_eq_Some_conv split: option.splits if_splits)
  from level_new_success [OF n(1)] set_success [OF n(2)] show ?thesis by (simp add: zlog_level_list_set_def)
qed

lemma set_all_success: "level_list_set_all ls lines m = Some (0, ls', m') \<Longrightarrow> level_list_set_all ls lines [] = Some (0, ls', [])"
proof (induction lines arbitrary: ls m)
  case (Cons line lines)
  then obtain dead ls1 m1 where n: "zlog_level_list_set ls line m = Some (0, dead, ls1, m1)" "level_list_set_all ls1 lines m1 = Some (0, ls', m')"
    by (auto simp: bind_eq_Some_conv split: if_splits)
  from level_list_set_success [OF n(1)] Cons.IH [OF n(2)] show ?case by simp
qed simp

lemma level_list_new_success:
  assumes "zlog_level_list_new m = Some (Some ls, m')"
  shows "level_list_ok ls"
proof -
  obtain l0 m1 where n: "zc_arraylist_new True m = (Some l0, m1)" "level_list_set_all l0 default_levels m1 = Some (0, ls, m')"
    using assms by (auto simp: zlog_level_list_new_def zlog_level_list_set_default_def bind_eq_Some_conv split: prod.splits option.splits if_splits)
  have "zlog_level_list_new [] = Some (Some ls, [])"
    using arraylist_new_success [OF n(1)] set_all_success [OF n(2)] by (simp add: zlog_level_list_new_def zlog_level_list_set_default_def)
  then show ?thesis using level_list_new_ok by auto
qed

lemma level_list_get_ok:
  assumes "level_list_ok ls" and "0 \<le> l"
  shows "zlog_level_list_get ls l =
    Some (if nat l < 256 \<and> al_slots ls ! nat l \<noteq> None then al_slots ls ! nat l else al_slots ls ! 254)"
proof -
  have rep: "al_rep ls (al_slots ls)" and len: "length (al_slots ls) = 256"
    using assms(1) by (auto simp: level_list_ok_def al_inv_iff_rep al_rep_def)
  show ?thesis
    using zc_arraylist_get_rep [OF rep assms(2)] zc_arraylist_get_rep [OF rep, of 254] len
    by (auto simp: zlog_level_list_get_def split: option.splits)
qed

definition names_level :: "string \<Rightarrow> zlog_level option \<Rightarrow> bool" where
  "names_level s x \<longleftrightarrow> (case x of None \<Rightarrow> False | Some lv \<Rightarrow> strcaseeq s (lv_str_uppercase lv))"

lemma level_find_first:
  "level_find s xs i = (let ys = takeWhile (\<lambda>x. \<not> names_level s x) xs in if length ys = length xs then -1 else i + int (length ys))"
proof (induction s xs i rule: level_find.induct)
  case (3 s lv ls i)
  then show ?case by (auto simp: names_level_def Let_def)
qed (auto simp: names_level_def Let_def)

lemma takeWhile_short: "length (takeWhile P xs) < length xs \<longleftrightarrow> (\<exists>x \<in> set xs. \<not> P x)"
  by (induction xs) auto

lemma level_find_spec:
  "(level_find s xs 0 = -1 \<and> (\<forall>j < length xs. \<not> names_level s (xs ! j))) \<or>
   (\<exists>i < length xs. level_find s xs 0 = int i \<and> names_level s (xs ! i) \<and> (\<forall>j < i. \<not> names_level s (xs ! j)))"
proof -
  let ?P = "\<lambda>x. \<not> names_level s x" and ?n = "length (takeWhile (\<lambda>x. \<not> names_level s x) xs)"
  show ?thesis
  proof (cases "?n < length xs")
    case True
    then have "names_level s (xs ! ?n)" using nth_length_takeWhile by blast
    moreover have "\<forall>j < ?n. \<not> names_level s (xs ! j)" by (metis nth_mem set_takeWhileD takeWhile_nth)
    ultimately show ?thesis using True by (auto simp: level_find_first Let_def)
  next
    case False
    then have n: "?n = length xs" using length_takeWhile_le [of ?P xs] by linarith
    have "\<not> (\<exists>x \<in> set xs. \<not> ?P x)" using takeWhile_short [of ?P xs] n by simp
    then show ?thesis using n by (auto simp: level_find_first Let_def)
  qed
qed

lemma atoi_eq: "level_list_ok ls \<Longrightarrow> s \<noteq> [] \<Longrightarrow> zlog_level_list_atoi ls (Some s) = Some (level_find s (al_slots ls) 0)"
  by (auto simp: zlog_level_list_atoi_def level_list_ok_def al_inv_def al_slots_def split: option.splits)

subsection \<open>Properties\<close>

text \<open>The list that \<open>zlog_level_list_new\<close> returns when no allocation fails.\<close>

definition fresh_levels :: level_list where
  "fresh_levels = the (fst (the (zlog_level_list_new [])))"

lemma fresh_levels_ok: "level_list_ok fresh_levels"
  using level_list_new_ok by (auto simp: fresh_levels_def)



text \<open>\<open>zlog_level_list_get\<close> never returns null for a non-negative number: it returns the level of that
  number when there is one, and the level 254 (\<open>UNKNOWN\<close>) otherwise, in particular for numbers above 255.\<close>

theorem zlog_level_list_get_total:
  assumes "level_list_ok ls" and "0 \<le> l"
  shows "\<exists>lv. zlog_level_list_get ls l = Some (Some lv) \<and> (lv_int_level lv = l \<or> lv_int_level lv = 254)"
proof -
  have len: "length (al_slots ls) = 256" using assms(1) by (auto simp: level_list_ok_def al_inv_iff_rep al_rep_def)
  have ix: "al_slots ls ! i = Some lv \<Longrightarrow> i < 256 \<Longrightarrow> lv_int_level lv = int i" for i lv
    using assms(1) len by (auto simp: level_list_ok_def slots_indexed_def)
  obtain u where u: "al_slots ls ! 254 = Some u" using assms(1) by (auto simp: level_list_ok_def)
  show ?thesis
    using level_list_get_ok [OF assms] ix [of "nat l"] ix [OF u] u assms(2) by auto
qed

theorem zlog_level_list_get_total_witness:
  "\<exists>lv. zlog_level_list_get fresh_levels 300 = Some (Some lv) \<and> (lv_int_level lv = 300 \<or> lv_int_level lv = 254)"
  by (rule zlog_level_list_get_total [OF fresh_levels_ok]) simp

text \<open>\<open>zlog_level_list_atoi\<close> returns the lowest number of a level whose name equals the string up to
  case, and -1 exactly when there is none; looking that number up gives a level of that name.\<close>

theorem zlog_level_list_atoi_correct:
  assumes "level_list_ok ls" and "s \<noteq> []"
  shows "\<exists>r. zlog_level_list_atoi ls (Some s) = Some r \<and>
    (r = -1 \<and> (\<forall>j < 256. \<not> names_level s (al_slots ls ! j)) \<or>
     (\<exists>lv. 0 \<le> r \<and> r < 256 \<and> (\<forall>j < nat r. \<not> names_level s (al_slots ls ! j)) \<and>
        zlog_level_list_get ls r = Some (Some lv) \<and> lv_int_level lv = r \<and> strcaseeq s (lv_str_uppercase lv)))"
proof -
  have len: "length (al_slots ls) = 256" using assms(1) by (auto simp: level_list_ok_def al_inv_iff_rep al_rep_def)
  have "\<exists>lv. zlog_level_list_get ls (int i) = Some (Some lv) \<and> lv_int_level lv = int i \<and> strcaseeq s (lv_str_uppercase lv)"
    if "i < 256" "names_level s (al_slots ls ! i)" for i
    using that level_list_get_ok [OF assms(1), of "int i"] assms(1) len
    by (auto simp: names_level_def level_list_ok_def slots_indexed_def split: option.splits)
  then show ?thesis
    using level_find_spec [of s "al_slots ls"] atoi_eq [OF assms] len by fastforce
qed

theorem zlog_level_list_atoi_correct_witness:
  "\<exists>r. zlog_level_list_atoi fresh_levels (Some ''warn'') = Some r \<and>
    (r = -1 \<and> (\<forall>j < 256. \<not> names_level ''warn'' (al_slots fresh_levels ! j)) \<or>
     (\<exists>lv. 0 \<le> r \<and> r < 256 \<and> (\<forall>j < nat r. \<not> names_level ''warn'' (al_slots fresh_levels ! j)) \<and>
        zlog_level_list_get fresh_levels r = Some (Some lv) \<and> lv_int_level lv = r \<and> strcaseeq ''warn'' (lv_str_uppercase lv)))"
  by (rule zlog_level_list_atoi_correct [OF fresh_levels_ok]) simp

text \<open>When the \<open>realloc\<close> that grows the list fails while the default levels are stored, the list has
  freed its array and \<open>zlog_level_list_new\<close> deletes the list, which reads and frees the array again: a
  defect.\<close>

theorem zlog_level_list_new_double_free:
  "zlog_level_list_new [True, True, True, True, True, False] = None"
proof -
  let ?lv = "default_level 0 ''*'' 6" and ?lv2 = "default_level 20 ''DEBUG'' 7" and ?lv3 = "default_level 40 ''INFO'' 6"
  obtain l0 :: level_list where l0: "zc_arraylist_new True [True, True, True, True, True, False] = (Some l0, [True, True, True, False])"
    by (simp add: zc_arraylist_new_def)
  have l0': "al_rep l0 []" "al_size l0 = 32" "al_del l0" using zc_arraylist_new_rep [OF l0] by auto
  obtain d1 l1 where l1: "zc_arraylist_set l0 0 (Some ?lv) [True, True, False] = Some (0, d1, l1, [True, True, False])"
      "al_rep l1 (slots_set [] 0 (Some ?lv))" "al_size l1 = 32"
    using set_inside [OF l0'(1), of 0 "Some ?lv" "[True, True, False]"] l0' by auto
  obtain d2 l2 where l2: "zc_arraylist_set l1 20 (Some ?lv2) [True, False] = Some (0, d2, l2, [True, False])"
      "al_rep l2 (slots_set (slots_set [] 0 (Some ?lv)) 20 (Some ?lv2))" "al_size l2 = 32"
    using set_inside [OF l1(2), of 20 "Some ?lv2" "[True, False]"] l1 by auto
  have l3: "zc_arraylist_set l2 40 (Some ?lv3) [False] = Some (-1, [], l2\<lparr>al_array := None\<rparr>, [])"
    using expand_inner_fail [OF l2(2), of "[False]" "[]" 40] l2(3) by (simp add: zc_arraylist_set_def)
  show ?thesis
    using l0 l1(1) l2(1) l3
    by (simp add: zlog_level_list_new_def zlog_level_list_set_default_def default_levels_def zlog_level_list_set_def
        level_new_script [OF parse_default(1)] level_new_script [OF parse_default(2)] level_new_script [OF parse_default(3)]
        zc_arraylist_del_def)
qed

end
