(* ===== verification/Zlog_Mdc.thy ===== *)
theory Zlog_Mdc
  imports Zc_Hashtable Zlog_Buf
begin

text \<open>
  Clients of the hash table: the mapped diagnostic context of a thread (\<^verbatim>\<open>mdc.c\<close>), a table from a
  key to a key-value record that owns the key, and the table of user-defined output functions
  (\<^verbatim>\<open>record.c\<close>, \<^verbatim>\<open>record_table.c\<close>). The correctness of the table enters through the facts of its
  interpretation for strings.
\<close>

record zlog_mdc_kv =
  kv_key :: string
  kv_value :: string
  kv_value_len :: nat

record zlog_mdc =
  mdc_tab :: "(string, zlog_mdc_kv) zc_hashtable"

text \<open>\<open>snprintf(dst, n, "%s", s)\<close>: what is stored, and the return value.\<close>

definition snprintf_s :: "nat \<Rightarrow> string \<Rightarrow> string \<times> nat" where
  "snprintf_s n s = (take (n - 1) s, length s)"

definition zlog_mdc_kv_new :: "string \<Rightarrow> string \<Rightarrow> mem \<Rightarrow> zlog_mdc_kv option \<times> mem" where
  "zlog_mdc_kv_new key value m =
     (let (ok, m) = alloc m in
      if \<not> ok then (None, m)
      else let (k, _) = snprintf_s (MAXLEN_PATH + 1) key;
               (v, n) = snprintf_s (MAXLEN_PATH + 1) value
        in (Some \<lparr>kv_key = k, kv_value = v, kv_value_len = n\<rparr>, m))"

definition zlog_mdc_new :: "mem \<Rightarrow> zlog_mdc option \<times> mem" where
  "zlog_mdc_new m =
     (let (ok, m) = alloc m in
      if \<not> ok then (None, m)
      else case zc_hashtable_new 20 zc_hashtable_str_hash zc_hashtable_str_equal False True m of
             (None, m) \<Rightarrow> (None, m)
           | (Some tab, m) \<Rightarrow> (Some \<lparr>mdc_tab = tab\<rparr>, m))"

definition zlog_mdc_del :: "zlog_mdc \<Rightarrow> (string, zlog_mdc_kv) ht_del list option" where
  "zlog_mdc_del a_mdc = do { (_, dels) \<leftarrow> zc_hashtable_del (mdc_tab a_mdc); Some dels }"

text \<open>\<open>zlog_mdc_put\<close>: the return code, the records freed and the new context.\<close>

definition zlog_mdc_put ::
  "zlog_mdc \<Rightarrow> string \<Rightarrow> string \<Rightarrow> mem \<Rightarrow> (int \<times> (string, zlog_mdc_kv) ht_del list \<times> zlog_mdc \<times> mem) option" where
  "zlog_mdc_put a_mdc key value m =
     (case zlog_mdc_kv_new key value m of
        (None, m) \<Rightarrow> Some (-1, [], a_mdc, m)
      | (Some kv, m) \<Rightarrow> do {
          (rc, dels, tab, m) \<leftarrow> zc_hashtable_put (mdc_tab a_mdc) (kv_key kv) kv m;
          if rc \<noteq> 0 then Some (-1, dels @ [DelValue kv], a_mdc\<lparr>mdc_tab := tab\<rparr>, m)
          else Some (0, dels, a_mdc\<lparr>mdc_tab := tab\<rparr>, m)
        })"

definition zlog_mdc_clean :: "zlog_mdc \<Rightarrow> (zlog_mdc \<times> (string, zlog_mdc_kv) ht_del list) option" where
  "zlog_mdc_clean a_mdc = do {
     (tab, dels) \<leftarrow> zc_hashtable_clean (mdc_tab a_mdc);
     Some (a_mdc\<lparr>mdc_tab := tab\<rparr>, dels)
   }"

definition zlog_mdc_get_kv :: "zlog_mdc \<Rightarrow> string \<Rightarrow> zlog_mdc_kv option option" where
  "zlog_mdc_get_kv a_mdc key = zc_hashtable_get (mdc_tab a_mdc) key"

definition zlog_mdc_get :: "zlog_mdc \<Rightarrow> string \<Rightarrow> string option option" where
  "zlog_mdc_get a_mdc key = do {
     r \<leftarrow> zc_hashtable_get (mdc_tab a_mdc) key;
     (case r of None \<Rightarrow> Some None | Some kv \<Rightarrow> Some (Some (kv_value kv)))
   }"

definition zlog_mdc_remove :: "zlog_mdc \<Rightarrow> string \<Rightarrow> (zlog_mdc \<times> (string, zlog_mdc_kv) ht_del list) option" where
  "zlog_mdc_remove a_mdc key = do {
     (dels, tab) \<leftarrow> zc_hashtable_remove (mdc_tab a_mdc) key;
     Some (a_mdc\<lparr>mdc_tab := tab\<rparr>, dels)
   }"

subsection \<open>User-defined output functions\<close>

record 'f zlog_record =
  rec_name :: string
  rec_output :: 'f

definition zlog_record_new :: "string option \<Rightarrow> 'f option \<Rightarrow> mem \<Rightarrow> 'f zlog_record option \<times> mem" where
  "zlog_record_new name output m =
     (case (name, output) of
        (Some nm, Some f) \<Rightarrow>
          let (ok, m) = alloc m in
          if \<not> ok then (None, m)
          else if length nm > MAXLEN_PATH then (None, m)
          else (Some \<lparr>rec_name = nm, rec_output = f\<rparr>, m)
      | _ \<Rightarrow> (None, m))"

definition zlog_record_table_new :: "mem \<Rightarrow> (string, 'f zlog_record) zc_hashtable option \<times> mem" where
  "zlog_record_table_new m = zc_hashtable_new 20 zc_hashtable_str_hash zc_hashtable_str_equal False True m"

definition zlog_record_table_del ::
  "(string, 'f zlog_record) zc_hashtable option \<Rightarrow> (string, 'f zlog_record) ht_del list option" where
  "zlog_record_table_del records =
     (case records of None \<Rightarrow> Some [] | Some t \<Rightarrow> do { (_, dels) \<leftarrow> zc_hashtable_del t; Some dels })"

subsection \<open>Facts\<close>

definition mdc_ok :: "zlog_mdc \<Rightarrow> bool" where
  "mdc_ok a_mdc \<longleftrightarrow> str_table (mdc_tab a_mdc)"

lemma mdc_ok_new: "zlog_mdc_new m = (Some a_mdc, m') \<Longrightarrow> mdc_ok a_mdc \<and> ht_abs (mdc_tab a_mdc) = Map.empty"
  unfolding zlog_mdc_new_def mdc_ok_def
  by (auto dest!: str_table_new split: prod.splits if_splits option.splits)

lemma mdc_get_abs: "mdc_ok a_mdc \<Longrightarrow> zlog_mdc_get a_mdc k = Some (map_option kv_value (ht_abs (mdc_tab a_mdc) k))"
  by (auto simp: zlog_mdc_get_def mdc_ok_def str_get split: option.splits)

lemma mdc_get_kv_abs: "mdc_ok a_mdc \<Longrightarrow> zlog_mdc_get_kv a_mdc k = Some (ht_abs (mdc_tab a_mdc) k)"
  by (simp add: zlog_mdc_get_kv_def mdc_ok_def str_get)

text \<open>The record stored for a key and a value.\<close>

definition kv_of :: "string \<Rightarrow> string \<Rightarrow> zlog_mdc_kv" where
  "kv_of key value = \<lparr>kv_key = take MAXLEN_PATH key, kv_value = take MAXLEN_PATH value, kv_value_len = length value\<rparr>"

lemma mdc_kv_new_eq: "zlog_mdc_kv_new key value m = (if fst (alloc m) then Some (kv_of key value) else None, snd (alloc m))"
  by (simp add: zlog_mdc_kv_new_def snprintf_s_def kv_of_def split: prod.splits)

lemma mdc_put_cases:
  assumes "mdc_ok a_mdc"
  obtains rc dels a' m' where "zlog_mdc_put a_mdc key value m = Some (rc, dels, a', m')" and "mdc_ok a'"
    and "rc = 0 \<and> ht_abs (mdc_tab a') = (ht_abs (mdc_tab a_mdc))(take MAXLEN_PATH key \<mapsto> kv_of key value) \<or>
      rc = -1 \<and> False \<in> set m \<and> ht_abs (mdc_tab a') = ht_abs (mdc_tab a_mdc)"
    and "set m' \<subseteq> set m"
proof (cases "alloc m")
  case (Pair ok m1)
  have sub: "set m1 \<subseteq> set m" "\<not> ok \<Longrightarrow> False \<in> set m" using Pair by (cases m; auto)+
  show ?thesis
  proof (cases ok)
    case False
    then have "zlog_mdc_put a_mdc key value m = Some (-1, [], a_mdc, m1)"
      using Pair by (simp add: zlog_mdc_put_def mdc_kv_new_eq)
    then show ?thesis using that assms sub False by blast
  next
    case True
    let ?kv = "kv_of key value"
    have st: "str_table (mdc_tab a_mdc)" using assms by (simp add: mdc_ok_def)
    obtain rc ds t' m' where p: "zc_hashtable_put (mdc_tab a_mdc) (kv_key ?kv) ?kv m1 = Some (rc, ds, t', m')" "str_table t'"
        "rc = 0 \<and> ht_abs t' = (ht_abs (mdc_tab a_mdc))(kv_key ?kv \<mapsto> ?kv) \<or>
         rc = -1 \<and> False \<in> set m1 \<and> ht_abs t' = ht_abs (mdc_tab a_mdc)" "set m' \<subseteq> set m1"
      using str_put [OF st, of "kv_key ?kv" ?kv m1] by blast
    have k: "kv_key ?kv = take MAXLEN_PATH key" by (simp add: kv_of_def)
    have e: "zlog_mdc_kv_new key value m = (Some ?kv, m1)" using Pair True by (simp add: mdc_kv_new_eq)
    show ?thesis
    proof (cases "rc = 0")
      case True
      then have "zlog_mdc_put a_mdc key value m = Some (0, ds, a_mdc\<lparr>mdc_tab := t'\<rparr>, m')"
        using e p(1) by (simp add: zlog_mdc_put_def)
      then show ?thesis by (rule that) (use p True sub k in \<open>auto simp: mdc_ok_def\<close>)
    next
      case False
      then have "zlog_mdc_put a_mdc key value m = Some (-1, ds @ [DelValue ?kv], a_mdc\<lparr>mdc_tab := t'\<rparr>, m')"
        using e p(1) by (simp add: zlog_mdc_put_def)
      then show ?thesis by (rule that) (use p False sub in \<open>auto simp: mdc_ok_def\<close>)
    qed
  qed
qed

lemma mdc_remove_cases:
  assumes "mdc_ok a_mdc"
  shows "\<exists>a' dels. zlog_mdc_remove a_mdc key = Some (a', dels) \<and> mdc_ok a' \<and>
    ht_abs (mdc_tab a') = (ht_abs (mdc_tab a_mdc))(key := None)"
  using str_remove [of "mdc_tab a_mdc" key] assms by (auto simp: zlog_mdc_remove_def mdc_ok_def)

lemma mdc_clean_cases:
  assumes "mdc_ok a_mdc"
  shows "\<exists>a' dels. zlog_mdc_clean a_mdc = Some (a', dels) \<and> mdc_ok a' \<and> ht_abs (mdc_tab a') = Map.empty"
  using str_clean [of "mdc_tab a_mdc"] assms by (auto simp: zlog_mdc_clean_def mdc_ok_def)

subsection \<open>Properties\<close>

definition fresh_mdc :: zlog_mdc where
  "fresh_mdc = the (fst (zlog_mdc_new []))"

lemma fresh_mdc_ok: "mdc_ok fresh_mdc"
  using mdc_ok_new [of "[]" fresh_mdc "[]"] by (simp add: fresh_mdc_def zlog_mdc_new_def zc_hashtable_new_def)

text \<open>C30: For a key that fits the 1024 bytes of a record: after a successful \<open>zlog_mdc_put\<close>,
  \<open>zlog_mdc_get\<close> of that key returns the value cut to 1024 bytes and every other key reads as before; a
  following \<open>zlog_mdc_remove\<close> makes exactly that key read as absent; a put fails only when memory does,
  and then nothing has changed.\<close>

theorem zlog_mdc_put_get:
  assumes "mdc_ok a_mdc" and "length key \<le> MAXLEN_PATH"
  shows "\<exists>rc dels a' m'. zlog_mdc_put a_mdc key value m = Some (rc, dels, a', m') \<and> mdc_ok a' \<and>
    (rc = 0 \<longrightarrow> (\<forall>k. zlog_mdc_get a' k = (if k = key then Some (Some (take MAXLEN_PATH value)) else zlog_mdc_get a_mdc k)) \<and>
       (\<exists>a2 dels2. zlog_mdc_remove a' key = Some (a2, dels2) \<and>
          (\<forall>k. zlog_mdc_get a2 k = (if k = key then Some None else zlog_mdc_get a_mdc k)))) \<and>
    (rc \<noteq> 0 \<longrightarrow> rc = -1 \<and> False \<in> set m \<and> (\<forall>k. zlog_mdc_get a' k = zlog_mdc_get a_mdc k))"
proof (rule mdc_put_cases [OF assms(1), of key "value" m])
  fix rc dels a' m'
  assume p: "zlog_mdc_put a_mdc key value m = Some (rc, dels, a', m')" "mdc_ok a'"
    "rc = 0 \<and> ht_abs (mdc_tab a') = (ht_abs (mdc_tab a_mdc))(take MAXLEN_PATH key \<mapsto> kv_of key value) \<or>
      rc = -1 \<and> False \<in> set m \<and> ht_abs (mdc_tab a') = ht_abs (mdc_tab a_mdc)"
  obtain a2 dels2 where r: "zlog_mdc_remove a' key = Some (a2, dels2)" "mdc_ok a2"
      "ht_abs (mdc_tab a2) = (ht_abs (mdc_tab a'))(key := None)"
    using mdc_remove_cases [OF p(2), of key] by blast
  show ?thesis
    using p r assms(2) mdc_get_abs [OF p(2)] mdc_get_abs [OF assms(1)] mdc_get_abs [OF r(2)]
    by (intro exI [of _ rc] exI [of _ dels] exI [of _ a'] exI [of _ m']) (auto simp: kv_of_def)
qed

theorem zlog_mdc_put_get_witness:
  "\<exists>rc dels a' m'. zlog_mdc_put fresh_mdc ''user'' ''bob'' [] = Some (rc, dels, a', m') \<and>
    (rc = 0 \<longrightarrow> zlog_mdc_get a' ''user'' = Some (Some (take MAXLEN_PATH ''bob'')))"
  using zlog_mdc_put_get [OF fresh_mdc_ok, of "''user''" "''bob''" "[]"] by (fastforce simp: MAXLEN_PATH_def)

text \<open>The record stored by \<open>zlog_mdc_put\<close> keeps as its \<open>value_len\<close> the length of the whole value and not
  of the 1024 bytes it stored: for a longer value, \<open>value_len\<close> points past the array \<open>value\<close> (a defect),
  and a key longer than 1024 bytes cannot be found again under its own name.\<close>

theorem zlog_mdc_put_untruncated_length:
  assumes "mdc_ok a_mdc" and "MAXLEN_PATH < length value" and "MAXLEN_PATH < length key"
    and "zlog_mdc_get a_mdc key = Some None" and "False \<notin> set m"
  shows "\<exists>dels a' m' kv. zlog_mdc_put a_mdc key value m = Some (0, dels, a', m') \<and>
    zlog_mdc_get_kv a' (take MAXLEN_PATH key) = Some (Some kv) \<and> length (kv_value kv) = MAXLEN_PATH \<and>
    MAXLEN_PATH < kv_value_len kv \<and> zlog_mdc_get a' key = Some None"
proof (rule mdc_put_cases [OF assms(1), of key "value" m])
  fix rc dels a' m'
  assume p: "zlog_mdc_put a_mdc key value m = Some (rc, dels, a', m')" "mdc_ok a'"
    "rc = 0 \<and> ht_abs (mdc_tab a') = (ht_abs (mdc_tab a_mdc))(take MAXLEN_PATH key \<mapsto> kv_of key value) \<or>
      rc = -1 \<and> False \<in> set m \<and> ht_abs (mdc_tab a') = ht_abs (mdc_tab a_mdc)"
  have "key \<noteq> take MAXLEN_PATH key" using assms(3) by (metis length_take min_less_iff_conj nless_le)
  then show ?thesis
    using p assms mdc_get_abs [OF p(2)] mdc_get_abs [OF assms(1)] mdc_get_kv_abs [OF p(2)]
    by (auto simp: kv_of_def)
qed

theorem zlog_mdc_put_untruncated_length_witness:
  "\<exists>dels a' m' kv. zlog_mdc_put fresh_mdc (replicate 1025 (CHR ''k'')) (replicate 2000 (CHR ''v'')) [] = Some (0, dels, a', m') \<and>
    zlog_mdc_get_kv a' (take MAXLEN_PATH (replicate 1025 (CHR ''k''))) = Some (Some kv) \<and> length (kv_value kv) = MAXLEN_PATH \<and>
    MAXLEN_PATH < kv_value_len kv \<and> zlog_mdc_get a' (replicate 1025 (CHR ''k'')) = Some None"
  using mdc_ok_new [of "[]" fresh_mdc "[]"] mdc_get_abs [OF fresh_mdc_ok]
  by (intro zlog_mdc_put_untruncated_length [OF fresh_mdc_ok])
    (simp_all add: MAXLEN_PATH_def fresh_mdc_def zlog_mdc_new_def zc_hashtable_new_def)

end
