(* ===== verification/Zlog_Selector.thy ===== *)
theory Zlog_Selector
  imports Zlog_Level "HOL-Library.Signed_Division"
begin

unbundle bit_operations_syntax

text \<open>
  The selector of a rule (\<^verbatim>\<open>rule.c\<close>): which categories and levels it is for. This is the first half
  of \<open>zlog_rule_new\<close> (category, compare character, level and its bitmap), the decision of
  \<open>zlog_rule_output\<close>, \<open>zlog_rule_match_category\<close> and \<open>zlog_rule_is_wastebin\<close>. The rest of a rule
  extends the record \<open>rule_sel\<close>.
\<close>

record rule_sel =
  ru_category :: string
  ru_compare_char :: char
  ru_level :: int
  ru_level_bitmap :: "8 word list"

definition category_char :: "char \<Rightarrow> bool" where
  "category_char c \<longleftrightarrow> isalnum c \<or> c = CHR ''_'' \<or> c = CHR ''*'' \<or> c = CHR ''!''"

text \<open>The switch on the first character of the level: the compare character and the level name.\<close>

definition level_compare :: "string \<Rightarrow> char \<times> string" where
  "level_compare level =
     (case level of
        [] \<Rightarrow> (CHR ''.'', [])
      | c # cs \<Rightarrow>
          if c = CHR ''='' then (CHR ''='', cs)
          else if c = CHR ''!'' then (CHR ''!'', cs)
          else if c = CHR ''*'' then (CHR ''*'', level)
          else (CHR ''.'', level))"

text \<open>
  The bitmap of 32 bytes. \<open>/\<close> and \<open>%\<close> are the truncating operations of C; the shifts are in \<open>int\<close> and
  the results are cut to a byte. A level that is not found is -1.
\<close>

definition level_bitmap :: "char \<Rightarrow> int \<Rightarrow> 8 word list option" where
  "level_bitmap compare_char l =
     (let i = l sdiv 8; k = l smod 8 in
      if compare_char = CHR ''='' then do {
        b \<leftarrow> cell (replicate 32 0) i;
        Some ((replicate 32 0)[nat i := b OR ucast (push_bit (nat (7 - k)) (1 :: 32 word))])
      }
      else if compare_char = CHR ''!'' then do {
        b \<leftarrow> cell (replicate 32 0xFF) i;
        Some ((replicate 32 0xFF)[nat i := b AND ucast (NOT (push_bit (nat (7 - k)) (1 :: 32 word)))])
      }
      else if compare_char = CHR ''*'' then Some (replicate 32 0xFF)
      else if compare_char = CHR ''.'' then do {
        b \<leftarrow> cell (replicate 32 0) i;
        write_at ((replicate 32 0)[nat i := b OR ucast (NOT (push_bit (nat (8 - k)) (0xFF :: 32 word)))])
          (nat (i + 1)) (replicate (nat (32 - i - 1)) 0xFF)
      }
      else Some (replicate 32 0))"

text \<open>
  The selector part of \<open>zlog_rule_new\<close>: an error, or the selector and the rest of the line (the
  action).
\<close>

definition rule_parse_selector :: "level_list \<Rightarrow> string \<Rightarrow> (rule_sel \<times> string) option option" where
  "rule_parse_selector levels line =
     (let vs = sscanf [ScanStr, ScanWs, ScanCount] line;
          selector = val_str vs 0;
          action = drop (nat (val_int 0 vs 1)) line
      in
        if length selector > MAXLEN_CFG_LINE then None
        else if nscan vs \<noteq> 1 then Some None
        else
          let ws = sscanf [ScanWs, ScanSet (\<lambda>c. c \<noteq> CHR ''.''), ScanLit (CHR ''.''), ScanStr] selector;
              category = val_str ws 0; level = val_str ws 1
          in
            if nscan ws \<noteq> 2 then Some None
            else if \<not> list_all category_char category then Some None
            else
              let (compare_char, p) = level_compare level in do {
                l \<leftarrow> zlog_level_list_atoi levels (Some p);
                bm \<leftarrow> level_bitmap compare_char l;
                Some (Some (\<lparr>ru_category = category, ru_compare_char = compare_char, ru_level = l,
                             ru_level_bitmap = bm\<rparr>, action))
              })"

text \<open>The switch of \<open>zlog_rule_output\<close>: does the rule output an event of this level?\<close>

definition rule_passes :: "'z rule_sel_scheme \<Rightarrow> int \<Rightarrow> bool" where
  "rule_passes r lv =
     (if ru_compare_char r = CHR ''*'' then True
      else if ru_compare_char r = CHR ''.'' then lv \<ge> ru_level r
      else if ru_compare_char r = CHR ''='' then lv = ru_level r
      else if ru_compare_char r = CHR ''!'' then lv \<noteq> ru_level r
      else False)"

definition zlog_rule_is_wastebin :: "'z rule_sel_scheme \<Rightarrow> bool" where
  "zlog_rule_is_wastebin r \<longleftrightarrow> ru_category r = ''!''"

definition zlog_rule_match_category :: "'z rule_sel_scheme \<Rightarrow> string \<Rightarrow> bool option" where
  "zlog_rule_match_category r category =
     (if ru_category r = ''*'' then Some True
      else if ru_category r = category then Some True
      else
        let len = length (ru_category r) in do {
          last_char \<leftarrow> cell (ru_category r) (int len - 1);
          if last_char = CHR ''_'' then
            let n = (if length category = len - 1 then len - 1 else len) in
            Some (strnceq (ru_category r) category n)
          else Some False
        })"

subsection \<open>Bits\<close>

text \<open>The bit of a level in a bitmap, as \<open>zlog_category_needless_level\<close> reads it.\<close>

definition bitmap_bit :: "8 word list \<Rightarrow> nat \<Rightarrow> bool" where
  "bitmap_bit bm lv \<longleftrightarrow> bit (bm ! (lv div 8)) (7 - lv mod 8)"

lemma bit_ff [simp]: "bit (255 :: int) n \<longleftrightarrow> n < 8" "bit (255 :: nat) n \<longleftrightarrow> n < 8"
proof -
  have "(255 :: int) = mask 8" "(255 :: nat) = mask 8" by (simp_all add: mask_eq_exp_minus_1)
  then show "bit (255 :: int) n \<longleftrightarrow> n < 8" "bit (255 :: nat) n \<longleftrightarrow> n < 8"
    by (simp_all only: bit_mask_iff) simp_all
qed

lemma nat_sdiv_smod:
  "0 \<le> l \<Longrightarrow> l sdiv 8 = int (nat l div 8) \<and> l smod 8 = int (nat l mod 8)"
  by (cases "l = 0") (simp_all add: signed_divide_int_def signed_modulo_int_def zdiv_int zmod_int)

lemma minus_one_sdiv: "(-1 :: int) sdiv 8 = 0" "(-1 :: int) smod 8 = -1"
  by (simp_all add: signed_divide_int_def signed_modulo_int_def)

text \<open>The shifts of a byte, for every pair of bit positions.\<close>

lemma bit_shifts:
  assumes "k < 8" and "j < 8"
  shows "bit (ucast (push_bit (7 - k) (1 :: 32 word)) :: 8 word) (7 - j) \<longleftrightarrow> j = k"
    and "bit (ucast (NOT (push_bit (7 - k) (1 :: 32 word))) :: 8 word) (7 - j) \<longleftrightarrow> j \<noteq> k"
    and "bit (ucast (NOT (push_bit (8 - k) (0xFF :: 32 word))) :: 8 word) (7 - j) \<longleftrightarrow> k \<le> j"
proof -
  have "list_all (\<lambda>k. list_all (\<lambda>j.
      (bit (ucast (push_bit (7 - k) (1 :: 32 word)) :: 8 word) (7 - j) \<longleftrightarrow> j = k) \<and>
      (bit (ucast (NOT (push_bit (7 - k) (1 :: 32 word))) :: 8 word) (7 - j) \<longleftrightarrow> j \<noteq> k) \<and>
      (bit (ucast (NOT (push_bit (8 - k) (0xFF :: 32 word))) :: 8 word) (7 - j) \<longleftrightarrow> k \<le> j)) [0..<8]) [0..<8]"
    by code_simp
  then show "bit (ucast (push_bit (7 - k) (1 :: 32 word)) :: 8 word) (7 - j) \<longleftrightarrow> j = k"
    and "bit (ucast (NOT (push_bit (7 - k) (1 :: 32 word))) :: 8 word) (7 - j) \<longleftrightarrow> j \<noteq> k"
    and "bit (ucast (NOT (push_bit (8 - k) (0xFF :: 32 word))) :: 8 word) (7 - j) \<longleftrightarrow> k \<le> j"
    using assms by (auto simp only: list_all_iff set_upt atLeastLessThan_iff le0 simp_thms)
qed

lemma level_bitmap_eqs:
  assumes "n < 256"
  shows "level_bitmap (CHR ''='') (int n) = Some ((replicate 32 0)[n div 8 := ucast (push_bit (7 - n mod 8) (1 :: 32 word))])"
    and "level_bitmap (CHR ''!'') (int n) =
      Some ((replicate 32 0xFF)[n div 8 := 0xFF AND ucast (NOT (push_bit (7 - n mod 8) (1 :: 32 word)))])"
    and "level_bitmap (CHR ''.'') (int n) =
      Some (replicate (n div 8) 0 @ ucast (NOT (push_bit (8 - n mod 8) (0xFF :: 32 word))) # replicate (31 - n div 8) 0xFF)"
proof -
  have i: "n div 8 < 32" using assms by linarith
  have sd: "int n sdiv 8 = int (n div 8)" "int n smod 8 = int (n mod 8)" using nat_sdiv_smod [of "int n"] by auto
  have k: "nat (7 - int (n mod 8)) = 7 - n mod 8" "nat (8 - int (n mod 8)) = 8 - n mod 8" by linarith+
  have c: "cell (replicate 32 x) (int (n div 8)) = Some x" for x :: "8 word" using i by simp
  show "level_bitmap (CHR ''='') (int n) = Some ((replicate 32 0)[n div 8 := ucast (push_bit (7 - n mod 8) (1 :: 32 word))])"
    by (simp add: level_bitmap_def Let_def sd k c del: of_nat_div)
  show "level_bitmap (CHR ''!'') (int n) =
      Some ((replicate 32 0xFF)[n div 8 := 0xFF AND ucast (NOT (push_bit (7 - n mod 8) (1 :: 32 word)))])"
    by (simp add: level_bitmap_def Let_def sd k c del: of_nat_div)
  have m: "nat (int (n div 8) + 1) = Suc (n div 8)" "nat (31 - int (n div 8)) = 31 - n div 8" using i by linarith+
  have u: "(replicate 32 (0 :: 8 word))[n div 8 := b] = replicate (n div 8) 0 @ b # replicate (31 - n div 8) 0" for b
    using i by (intro nth_equalityI) (auto simp: nth_append nth_Cons' nth_list_update)
  show "level_bitmap (CHR ''.'') (int n) =
      Some (replicate (n div 8) 0 @ ucast (NOT (push_bit (8 - n mod 8) (0xFF :: 32 word))) # replicate (31 - n div 8) 0xFF)"
    using i by (simp add: level_bitmap_def Let_def sd k c m u write_at_def del: of_nat_div)
qed

lemma div8_cases: "lv div 8 < n div 8 \<Longrightarrow> lv < (n :: nat)" "n div 8 < lv div 8 \<Longrightarrow> n < (lv :: nat)"
  by (metis div_le_mono leD leI)+

lemma bitmap_equal:
  assumes "n < 256" "lv < 256"
  shows "bitmap_bit ((replicate 32 0)[n div 8 := ucast (push_bit (7 - n mod 8) (1 :: 32 word))]) lv \<longleftrightarrow> lv = n"
proof (cases "lv div 8 = n div 8")
  case True
  have "lv mod 8 = n mod 8 \<longleftrightarrow> lv = n" using True by (metis mult_div_mod_eq)
  then show ?thesis using True assms bit_shifts(1) [of "n mod 8" "lv mod 8"] by (simp add: bitmap_bit_def)
next
  case False
  then show ?thesis using assms by (auto simp: bitmap_bit_def)
qed

lemma bitmap_differ:
  assumes "n < 256" "lv < 256"
  shows "bitmap_bit ((replicate 32 0xFF)[n div 8 := 0xFF AND ucast (NOT (push_bit (7 - n mod 8) (1 :: 32 word)))]) lv \<longleftrightarrow> lv \<noteq> n"
proof (cases "lv div 8 = n div 8")
  case True
  have "lv mod 8 = n mod 8 \<longleftrightarrow> lv = n" using True by (metis mult_div_mod_eq)
  then show ?thesis using True assms bit_shifts(2) [of "n mod 8" "lv mod 8"]
    by (auto simp: bitmap_bit_def bit_and_iff)
next
  case False
  then show ?thesis using assms by (auto simp: bitmap_bit_def)
qed

lemma bitmap_from:
  assumes "n < 256" "lv < 256"
  shows "bitmap_bit (replicate (n div 8) 0 @ ucast (NOT (push_bit (8 - n mod 8) (0xFF :: 32 word))) # replicate (31 - n div 8) 0xFF) lv
    \<longleftrightarrow> n \<le> lv"
proof -
  consider "lv div 8 < n div 8" | "lv div 8 = n div 8" | "n div 8 < lv div 8" by linarith
  then show ?thesis
  proof cases
    case 1
    then show ?thesis using div8_cases(1) [OF 1] by (simp add: bitmap_bit_def nth_append)
  next
    case 2
    have "n mod 8 \<le> lv mod 8 \<longleftrightarrow> n \<le> lv" using 2 by (metis add_le_cancel_left div_mult_mod_eq)
    then show ?thesis using 2 bit_shifts(3) [of "n mod 8" "lv mod 8"] by (simp add: bitmap_bit_def nth_append)
  next
    case 3
    have "lv div 8 < 32" using assms by linarith
    then show ?thesis using 3 div8_cases(2) [OF 3] by (simp add: bitmap_bit_def nth_append nth_Cons')
  qed
qed

text \<open>A level that was not found: the equality rule selects no level, the other three select all.\<close>

lemma level_bitmap_unknown:
  "level_bitmap (CHR ''='') (-1) = Some (replicate 32 0)" "level_bitmap (CHR ''!'') (-1) = Some (replicate 32 0xFF)"
  "level_bitmap (CHR ''.'') (-1) = Some (replicate 32 0xFF)"
  by code_simp+

lemma bitmap_all: "lv < 256 \<Longrightarrow> bitmap_bit (replicate 32 0xFF) lv" "lv < 256 \<Longrightarrow> \<not> bitmap_bit (replicate 32 0) lv"
  by (simp_all add: bitmap_bit_def)

definition compare_chars :: "char set" where
  "compare_chars = {CHR ''='', CHR ''!'', CHR ''*'', CHR ''.''}"

lemma level_bitmap_passes:
  assumes "c \<in> compare_chars" and "-1 \<le> l" and "l < 256"
  shows "\<exists>bm. level_bitmap c l = Some bm \<and> length bm = 32 \<and>
    (\<forall>lv < 256. bitmap_bit bm lv \<longleftrightarrow> rule_passes \<lparr>ru_category = cat, ru_compare_char = c, ru_level = l, ru_level_bitmap = bm\<rparr> (int lv))"
proof (cases "l = -1")
  case True
  then show ?thesis using assms(1) bitmap_all
    by (auto simp: compare_chars_def level_bitmap_unknown rule_passes_def, simp add: level_bitmap_def bitmap_all)
next
  case False
  define n where "n = nat l"
  have n: "n < 256" "l = int n" using False assms by (auto simp: n_def)
  have star: "level_bitmap (CHR ''*'') l = Some (replicate 32 0xFF)" by (simp add: level_bitmap_def)
  have i: "n div 8 < 32" using n by linarith
  show ?thesis
    using assms(1) level_bitmap_eqs [OF n(1)] bitmap_equal [OF n(1)] bitmap_differ [OF n(1)] bitmap_from [OF n(1)] bitmap_all star i
    by (auto simp: compare_chars_def n(2) rule_passes_def)
qed

subsection \<open>Selectors\<close>

definition sel_ok :: "'z rule_sel_scheme \<Rightarrow> bool" where
  "sel_ok r \<longleftrightarrow> ru_category r \<noteq> [] \<and> length (ru_level_bitmap r) = 32 \<and>
     (\<forall>lv < 256. bitmap_bit (ru_level_bitmap r) lv \<longleftrightarrow> rule_passes r (int lv))"

lemma level_compare_chars: "fst (level_compare s) \<in> compare_chars"
  by (auto simp: level_compare_def compare_chars_def split: list.splits)

lemma atoi_range:
  assumes "level_list_ok ls"
  shows "\<exists>l. zlog_level_list_atoi ls (Some s) = Some l \<and> -1 \<le> l \<and> l < 256"
proof (cases "s = []")
  case True
  then show ?thesis by (simp add: zlog_level_list_atoi_def)
next
  case False
  have "length (al_slots ls) = 256" using assms by (auto simp: level_list_ok_def al_inv_iff_rep al_rep_def)
  then show ?thesis using level_find_spec [of s "al_slots ls"] atoi_eq [OF assms False] by auto
qed

lemma scan_set_nonempty:
  assumes "nscan (sscanf [ScanWs, ScanSet P, ScanLit c, ScanStr] s) = 2"
  shows "val_str (sscanf [ScanWs, ScanSet P, ScanLit c, ScanStr] s) 0 \<noteq> []"
  using assms by (auto simp: sscanf_def Let_def nscan_def val_str_def split: if_splits list.splits)

lemma parse_selector_ok:
  assumes ok: "level_list_ok ls" and len: "length line \<le> MAXLEN_CFG_LINE"
  shows "\<exists>res. rule_parse_selector ls line = Some res \<and>
    (\<forall>r action. res = Some (r, action) \<longrightarrow> sel_ok r \<and> ru_compare_char r \<in> compare_chars \<and>
       -1 \<le> ru_level r \<and> ru_level r < 256 \<and> list_all category_char (ru_category r))"
proof -
  let ?vs = "sscanf [ScanStr, ScanWs, ScanCount] line"
  let ?sel = "val_str ?vs 0"
  let ?ws = "sscanf [ScanWs, ScanSet (\<lambda>c. c \<noteq> CHR ''.''), ScanLit (CHR ''.''), ScanStr] ?sel"
  have sl: "\<not> length ?sel > MAXLEN_CFG_LINE" using val_str_bound [of "[ScanStr, ScanWs, ScanCount]" line 0] len by linarith
  show ?thesis
  proof (cases "nscan ?vs \<noteq> 1 \<or> nscan ?ws \<noteq> 2 \<or> \<not> list_all category_char (val_str ?ws 0)")
    case True
    then have "rule_parse_selector ls line = Some None"
      using sl unfolding rule_parse_selector_def Let_def by (simp split: prod.split)
    then show ?thesis by simp
  next
    case False
    obtain c p where cp: "level_compare (val_str ?ws 1) = (c, p)" by (cases "level_compare (val_str ?ws 1)")
    have c: "c \<in> compare_chars" using level_compare_chars [of "val_str ?ws 1"] cp by simp
    obtain l where l: "zlog_level_list_atoi ls (Some p) = Some l" "-1 \<le> l" "l < 256" using atoi_range [OF ok] by blast
    obtain bm where bm: "level_bitmap c l = Some bm" "length bm = 32"
        "\<forall>lv < 256. bitmap_bit bm lv \<longleftrightarrow>
          rule_passes \<lparr>ru_category = val_str ?ws 0, ru_compare_char = c, ru_level = l, ru_level_bitmap = bm\<rparr> (int lv)"
      using level_bitmap_passes [OF c l(2,3)] by blast
    have "val_str ?ws 0 \<noteq> []" using scan_set_nonempty False by blast
    moreover have "rule_parse_selector ls line =
        Some (Some (\<lparr>ru_category = val_str ?ws 0, ru_compare_char = c, ru_level = l, ru_level_bitmap = bm\<rparr>,
          drop (nat (val_int 0 ?vs 1)) line))"
      using sl False cp l(1) bm(1) unfolding rule_parse_selector_def Let_def by simp
    ultimately show ?thesis using bm c l False by (simp add: sel_ok_def)
  qed
qed

lemma match_category_iff:
  assumes "ru_category r \<noteq> []"
  shows "zlog_rule_match_category r cat = Some (ru_category r = ''*'' \<or> ru_category r = cat \<or>
    (last (ru_category r) = CHR ''_'' \<and> (cat = butlast (ru_category r) \<or> (\<exists>rest. cat = ru_category r @ rest))))"
proof -
  define R where "R = ru_category r"
  have R: "R \<noteq> []" using assms by (simp add: R_def)
  have lc: "cell R (int (length R) - 1) = Some (last R)"
    using R by (simp add: cell_def last_conv_nth nat_diff_distrib' Suc_le_eq)
  have pre: "strnceq R cat (length R) \<longleftrightarrow> (\<exists>rest. cat = R @ rest)"
    by (auto simp: strnceq_def) (metis append_take_drop_id)
  have but: "strnceq R cat (length R - 1) \<longleftrightarrow> cat = butlast R" if "length cat = length R - 1"
    using that by (auto simp: strnceq_def butlast_conv_take)
  have no: "\<not> (\<exists>rest. cat = R @ rest)" if "length cat = length R - 1" using that R by (cases R) auto
  have no': "length cat = length R - 1" if "cat = butlast R" using that by simp
  show ?thesis
    unfolding zlog_rule_match_category_def R_def [symmetric] Let_def lc
    using pre but no no' by (cases "length cat = length R - 1") auto
qed

text \<open>The names of the levels of a new list.\<close>

lemma store_levels_elems:
  "Some lv \<in> set (foldl store_level xs lines) \<Longrightarrow> Some lv \<in> set xs \<or> (\<exists>l \<in> set lines. lv = line_level l)"
proof (induction lines arbitrary: xs)
  case (Cons l lines)
  have "Some lv \<in> set (store_level xs l) \<Longrightarrow> Some lv \<in> set xs \<or> lv = line_level l"
    by (auto simp: store_level_def slots_set_def dest!: set_update_subset_insert [THEN subsetD])
  then show ?case using Cons by auto
qed simp

lemma fresh_levels_names:
  assumes "j < 256"
  shows "\<not> names_level ''DBG'' (al_slots fresh_levels ! j)"
proof -
  have sl: "al_slots fresh_levels = foldl store_level [] default_levels" "length (al_slots fresh_levels) = 256"
    using level_list_new_ok fresh_levels_ok
    by (auto simp: fresh_levels_def level_list_ok_def al_inv_iff_rep al_rep_def)
  then have "al_slots fresh_levels ! j \<in> set (foldl store_level [] default_levels)" using assms nth_mem by metis
  then have "lv \<in> line_level ` set default_levels" if "al_slots fresh_levels ! j = Some lv" for lv
    using store_levels_elems [of lv "[]" default_levels] that by auto
  then show ?thesis
    by (cases "al_slots fresh_levels ! j") (auto simp: names_level_def default_levels_def default_level_def char_eval)
qed

subsection \<open>Properties\<close>

text \<open>C29: The bitmap that \<open>zlog_rule_new\<close> computes for the selector of a rule agrees with the decision of
  \<open>zlog_rule_output\<close> on all 256 levels: the bit of a level is set exactly when the rule, with its compare
  character \<open>=\<close>, \<open>!\<close>, \<open>*\<close> or \<open>.\<close>, outputs an event of that level. No line makes the computation read or
  write outside the 32 bytes.\<close>

theorem rule_bitmap_agrees:
  assumes "level_list_ok ls" and "length line \<le> MAXLEN_CFG_LINE"
  shows "\<exists>res. rule_parse_selector ls line = Some res \<and>
    (\<forall>r action. res = Some (r, action) \<longrightarrow> length (ru_level_bitmap r) = 32 \<and>
       (\<forall>lv < 256. bitmap_bit (ru_level_bitmap r) lv \<longleftrightarrow> rule_passes r (int lv)))"
  using parse_selector_ok [OF assms] by (auto simp: sel_ok_def)

theorem rule_bitmap_agrees_witness:
  "\<exists>res. rule_parse_selector fresh_levels ''my_cat.=WARN >stdout'' = Some res \<and>
    (\<forall>r action. res = Some (r, action) \<longrightarrow> length (ru_level_bitmap r) = 32 \<and>
       (\<forall>lv < 256. bitmap_bit (ru_level_bitmap r) lv \<longleftrightarrow> rule_passes r (int lv)))"
  by (rule rule_bitmap_agrees [OF fresh_levels_ok]) (simp add: MAXLEN_CFG_LINE_def)

text \<open>A rule whose level name is not in the level list is not rejected: \<open>zlog_level_list_atoi\<close> returns
  -1, the rule with the default compare character gets a bitmap of ones and outputs events of every
  level.\<close>

theorem rule_unknown_level_logs_all:
  assumes "level_list_ok ls" and "p \<noteq> []" and "\<forall>j < 256. \<not> names_level p (al_slots ls ! j)"
  shows "\<exists>l bm. zlog_level_list_atoi ls (Some p) = Some l \<and> level_bitmap (CHR ''.'') l = Some bm \<and>
    (\<forall>lv < 256. bitmap_bit bm lv)"
proof -
  have "length (al_slots ls) = 256" using assms(1) by (auto simp: level_list_ok_def al_inv_iff_rep al_rep_def)
  then have "zlog_level_list_atoi ls (Some p) = Some (-1)"
    using level_find_spec [of p "al_slots ls"] atoi_eq [OF assms(1,2)] assms(3) by auto
  then show ?thesis using level_bitmap_unknown(3) bitmap_all(1) by auto
qed

theorem rule_unknown_level_logs_all_witness:
  "\<exists>l bm. zlog_level_list_atoi fresh_levels (Some ''DBG'') = Some l \<and> level_bitmap (CHR ''.'') l = Some bm \<and>
    (\<forall>lv < 256. bitmap_bit bm lv)"
  using fresh_levels_names by (intro rule_unknown_level_logs_all [OF fresh_levels_ok]) simp_all

end
