(* ===== verification/Zlog_Category.thy ===== *)
theory Zlog_Category
  imports Zlog_Selector Zc_Hashtable
begin

text \<open>
  Categories (\<^verbatim>\<open>category.c\<close>) and their table (\<^verbatim>\<open>category_table.c\<close>). A category keeps pointers to
  the rules that match its name; rules are owned by the configuration, so they live in a heap \<open>rh\<close> from
  addresses to rules and a category holds addresses. Categories are shared between the table and the
  program, so they live in a heap of their own.
\<close>

type_synonym 'z rule_heap = "nat \<rightharpoonup> 'z rule_sel_scheme"

record zlog_category =
  ca_name :: string
  ca_name_len :: nat
  ca_level_bitmap :: "8 word list"
  ca_level_bitmap_backup :: "8 word list"
  ca_fit_rules :: "nat zc_arraylist option"
  ca_fit_rules_backup :: "nat zc_arraylist option"

definition overlap :: "8 word list \<Rightarrow> 8 word list \<Rightarrow> 8 word list" where
  "overlap bm bm' = map2 (OR) bm bm'"

definition zlog_category_overlap_bitmap :: "zlog_category \<Rightarrow> 'z rule_sel_scheme \<Rightarrow> zlog_category" where
  "zlog_category_overlap_bitmap c r = c\<lparr>ca_level_bitmap := overlap (ca_level_bitmap c) (ru_level_bitmap r)\<rparr>"

text \<open>Freeing a list of rule pointers, when there is one.\<close>

definition del_rules :: "nat zc_arraylist option \<Rightarrow> unit option" where
  "del_rules l = (case l of None \<Rightarrow> Some () | Some a \<Rightarrow> do { _ \<leftarrow> zc_arraylist_del (Some a); Some () })"

definition zlog_category_del :: "zlog_category \<Rightarrow> unit option" where
  "zlog_category_del c = del_rules (ca_fit_rules c)"

text \<open>Adding one rule to the list of a category; the list exists.\<close>

definition category_add_rule ::
  "'z rule_heap \<Rightarrow> zlog_category \<Rightarrow> nat \<Rightarrow> mem \<Rightarrow> (int \<times> zlog_category \<times> mem) option" where
  "category_add_rule rh c i m = do {
     r \<leftarrow> rh i;
     l \<leftarrow> ca_fit_rules c;
     (rc, _, l, m) \<leftarrow> zc_arraylist_add l (Some i) m;
     if rc \<noteq> 0 then Some (-1, c\<lparr>ca_fit_rules := Some l\<rparr>, m)
     else Some (0, zlog_category_overlap_bitmap (c\<lparr>ca_fit_rules := Some l\<rparr>) r, m)
   }"

text \<open>The loop over all rules: the count of matching rules and the last rule of the category \<open>!\<close>.\<close>

fun obtain_loop ::
  "'z rule_heap \<Rightarrow> zlog_category \<Rightarrow> nat option list \<Rightarrow> nat \<Rightarrow> nat option \<Rightarrow> mem \<Rightarrow>
   (int \<times> zlog_category \<times> nat \<times> nat option \<times> mem) option" where
  "obtain_loop rh c [] cnt wastebin m = Some (0, c, cnt, wastebin, m)"
| "obtain_loop rh c (p # ps) cnt wastebin m = do {
     i \<leftarrow> p;
     r \<leftarrow> rh i;
     fit \<leftarrow> zlog_rule_match_category r (ca_name c);
     (rc, c, m) \<leftarrow> (if fit then category_add_rule rh c i m else Some (0, c, m));
     if rc \<noteq> 0 then Some (-1, c, cnt, wastebin, m)
     else obtain_loop rh c ps (if fit then cnt + 1 else cnt)
            (if zlog_rule_is_wastebin r then Some i else wastebin) m
   }"

text \<open>The label \<open>err\<close>: the list is deleted and the pointer reset.\<close>

definition obtain_err :: "zlog_category \<Rightarrow> mem \<Rightarrow> (int \<times> zlog_category \<times> mem) option" where
  "obtain_err c m = do { _ \<leftarrow> del_rules (ca_fit_rules c); Some (-1, c\<lparr>ca_fit_rules := None\<rparr>, m) }"

definition zlog_category_obtain_rules ::
  "'z rule_heap \<Rightarrow> zlog_category \<Rightarrow> nat zc_arraylist \<Rightarrow> mem \<Rightarrow> (int \<times> zlog_category \<times> mem) option" where
  "zlog_category_obtain_rules rh c rules m = do {
     _ \<leftarrow> del_rules (ca_fit_rules c);
     let c = c\<lparr>ca_level_bitmap := replicate 32 0\<rparr>;
     (case zc_arraylist_new False m of
        (None, m) \<Rightarrow> Some (-1, c\<lparr>ca_fit_rules := None\<rparr>, m)
      | (Some l, m) \<Rightarrow> do {
          ps \<leftarrow> zc_arraylist_foreach rules;
          (rc, c, cnt, wastebin, m) \<leftarrow> obtain_loop rh (c\<lparr>ca_fit_rules := Some l\<rparr>) ps 0 None m;
          if rc \<noteq> 0 then obtain_err c m
          else if cnt = 0 then
            (case wastebin of
               None \<Rightarrow> Some (0, c, m)
             | Some w \<Rightarrow> do {
                 (rc, c, m) \<leftarrow> category_add_rule rh c w m;
                 if rc \<noteq> 0 then obtain_err c m else Some (0, c, m)
               })
          else Some (0, c, m)
        })
   }"

definition zlog_category_new ::
  "'z rule_heap \<Rightarrow> string \<Rightarrow> nat zc_arraylist \<Rightarrow> mem \<Rightarrow> (zlog_category option \<times> mem) option" where
  "zlog_category_new rh name rules m =
     (if length name > MAXLEN_PATH then Some (None, m)
      else let (ok, m) = alloc m in
        if \<not> ok then Some (None, m)
        else do {
          (rc, c, m) \<leftarrow> zlog_category_obtain_rules rh
             \<lparr>ca_name = name, ca_name_len = length name, ca_level_bitmap = replicate 32 0,
              ca_level_bitmap_backup = replicate 32 0, ca_fit_rules = None, ca_fit_rules_backup = None\<rparr> rules m;
          if rc \<noteq> 0 then do { _ \<leftarrow> zlog_category_del c; Some (None, m) }
          else Some (Some c, m)
        })"

definition zlog_category_update_rules ::
  "'z rule_heap \<Rightarrow> zlog_category \<Rightarrow> nat zc_arraylist \<Rightarrow> mem \<Rightarrow> (int \<times> zlog_category \<times> mem) option" where
  "zlog_category_update_rules rh c new_rules m = do {
     _ \<leftarrow> del_rules (ca_fit_rules_backup c);
     let c = c\<lparr>ca_fit_rules_backup := ca_fit_rules c, ca_fit_rules := None,
               ca_level_bitmap_backup := ca_level_bitmap c\<rparr>;
     (rc, c, m) \<leftarrow> zlog_category_obtain_rules rh c new_rules m;
     if rc \<noteq> 0 then Some (-1, c\<lparr>ca_fit_rules := None\<rparr>, m)
     else Some (0, c, m)
   }"

definition zlog_category_commit_rules :: "zlog_category \<Rightarrow> zlog_category option" where
  "zlog_category_commit_rules c =
     (if ca_fit_rules_backup c = None then Some c
      else do {
        _ \<leftarrow> del_rules (ca_fit_rules_backup c);
        Some (c\<lparr>ca_fit_rules_backup := None, ca_level_bitmap_backup := replicate 32 0\<rparr>)
      })"

definition zlog_category_rollback_rules :: "zlog_category \<Rightarrow> zlog_category option" where
  "zlog_category_rollback_rules c =
     (if ca_fit_rules_backup c = None then Some c
      else do {
        c \<leftarrow> (if ca_fit_rules c \<noteq> None then do {
               _ \<leftarrow> del_rules (ca_fit_rules c);
               Some (c\<lparr>ca_fit_rules := ca_fit_rules_backup c, ca_fit_rules_backup := None\<rparr>)
             }
             else Some (c\<lparr>ca_fit_rules := ca_fit_rules_backup c, ca_fit_rules_backup := None\<rparr>));
        Some (c\<lparr>ca_level_bitmap := ca_level_bitmap_backup c, ca_level_bitmap_backup := replicate 32 0\<rparr>)
      })"

text \<open>The macro \<open>zlog_category_needless_level\<close>: the byte is promoted to \<open>int\<close> before the shift.\<close>

definition zlog_category_needless_level :: "zlog_category \<Rightarrow> int \<Rightarrow> bool option" where
  "zlog_category_needless_level c lv = do {
     b \<leftarrow> cell (ca_level_bitmap c) (lv sdiv 8);
     Some (\<not> bit (ucast b :: 32 word) (nat (7 - lv smod 8)))
   }"

text \<open>
  \<open>zlog_category_output\<close>, over the effect \<open>out\<close> of \<open>zlog_rule_output\<close> on a rule and the state of the
  thread and of the system: every rule is tried, and the return code is that of the last one.
\<close>

fun output_loop :: "(nat \<Rightarrow> 's \<Rightarrow> (int \<times> 's) option) \<Rightarrow> nat option list \<Rightarrow> int \<Rightarrow> 's \<Rightarrow> (int \<times> 's) option" where
  "output_loop out [] rc s = Some (rc, s)"
| "output_loop out (p # ps) rc s = do {
     i \<leftarrow> p;
     (rc, s) \<leftarrow> out i s;
     output_loop out ps rc s
   }"

definition zlog_category_output ::
  "(nat \<Rightarrow> 's \<Rightarrow> (int \<times> 's) option) \<Rightarrow> zlog_category \<Rightarrow> 's \<Rightarrow> (int \<times> 's) option" where
  "zlog_category_output out c s = do {
     l \<leftarrow> ca_fit_rules c;
     ps \<leftarrow> zc_arraylist_foreach l;
     output_loop out ps 0 s
   }"

subsection \<open>The table of categories\<close>

record cat_heap =
  ch_map :: "nat \<rightharpoonup> zlog_category"
  ch_brk :: nat

type_synonym category_table = "(string, nat) zc_hashtable"

definition zlog_category_table_new :: "mem \<Rightarrow> category_table option \<times> mem" where
  "zlog_category_table_new m = zc_hashtable_new 20 zc_hashtable_str_hash zc_hashtable_str_equal False True m"

text \<open>A loop \<open>zc_hashtable_foreach\<close> that applies an operation to each category and may stop early.\<close>

fun table_loop ::
  "category_table \<Rightarrow> (zlog_category \<Rightarrow> mem \<Rightarrow> (int \<times> zlog_category \<times> mem) option) \<Rightarrow> nat list \<Rightarrow> cat_heap \<Rightarrow> mem \<Rightarrow>
   (int \<times> cat_heap \<times> mem) option" where
  "table_loop t f [] h m = Some (0, h, m)"
| "table_loop t f (a # as) h m = do {
     e \<leftarrow> ht_store t a;
     c \<leftarrow> ch_map h (he_value e);
     (rc, c, m) \<leftarrow> f c m;
     let h = h\<lparr>ch_map := (ch_map h)(he_value e \<mapsto> c)\<rparr>;
     if rc \<noteq> 0 then Some (-1, h, m) else table_loop t f as h m
   }"

definition zlog_category_table_update_rules ::
  "'z rule_heap \<Rightarrow> category_table \<Rightarrow> cat_heap \<Rightarrow> nat zc_arraylist \<Rightarrow> mem \<Rightarrow> (int \<times> cat_heap \<times> mem) option" where
  "zlog_category_table_update_rules rh t h new_rules m = do {
     as \<leftarrow> zc_hashtable_foreach t;
     table_loop t (\<lambda>c m. zlog_category_update_rules rh c new_rules m) as h m
   }"

definition zlog_category_table_commit_rules :: "category_table \<Rightarrow> cat_heap \<Rightarrow> cat_heap option" where
  "zlog_category_table_commit_rules t h = do {
     as \<leftarrow> zc_hashtable_foreach t;
     (_, h, _) \<leftarrow> table_loop t (\<lambda>c m. do { c \<leftarrow> zlog_category_commit_rules c; Some (0, c, m) }) as h [];
     Some h
   }"

definition zlog_category_table_rollback_rules :: "category_table \<Rightarrow> cat_heap \<Rightarrow> cat_heap option" where
  "zlog_category_table_rollback_rules t h = do {
     as \<leftarrow> zc_hashtable_foreach t;
     (_, h, _) \<leftarrow> table_loop t (\<lambda>c m. do { c \<leftarrow> zlog_category_rollback_rules c; Some (0, c, m) }) as h [];
     Some h
   }"

text \<open>
  \<open>zlog_category_table_fetch_category\<close>: the address of the category, found or new; the table owns it.
\<close>

definition zlog_category_table_fetch_category ::
  "'z rule_heap \<Rightarrow> category_table \<Rightarrow> cat_heap \<Rightarrow> string \<Rightarrow> nat zc_arraylist \<Rightarrow> mem \<Rightarrow>
   (nat option \<times> category_table \<times> cat_heap \<times> mem) option" where
  "zlog_category_table_fetch_category rh t h name rules m = do {
     r \<leftarrow> zc_hashtable_get t name;
     (case r of
        Some a \<Rightarrow> Some (Some a, t, h, m)
      | None \<Rightarrow> do {
          (c, m) \<leftarrow> zlog_category_new rh name rules m;
          (case c of
             None \<Rightarrow> Some (None, t, h, m)
           | Some c \<Rightarrow> do {
               let a = ch_brk h;
               (rc, _, t, m) \<leftarrow> zc_hashtable_put t (ca_name c) a m;
               if rc \<noteq> 0 then do { _ \<leftarrow> zlog_category_del c; Some (None, t, h, m) }
               else Some (Some a, t, h\<lparr>ch_map := (ch_map h)(a \<mapsto> c), ch_brk := a + 1\<rparr>, m)
             })
        })
   }"

text \<open>\<open>zlog_category_table_del\<close>: every category is deleted with its list.\<close>

fun del_categories :: "cat_heap \<Rightarrow> (string, nat) ht_del list \<Rightarrow> cat_heap option" where
  "del_categories h [] = Some h"
| "del_categories h (DelKey k # ds) = del_categories h ds"
| "del_categories h (DelValue a # ds) = do {
     c \<leftarrow> ch_map h a;
     _ \<leftarrow> zlog_category_del c;
     del_categories (h\<lparr>ch_map := (ch_map h)(a := None)\<rparr>) ds
   }"

definition zlog_category_table_del :: "category_table \<Rightarrow> cat_heap \<Rightarrow> cat_heap option" where
  "zlog_category_table_del t h = do { (_, dels) \<leftarrow> zc_hashtable_del t; del_categories h dels }"

subsection \<open>Which rules a category gets\<close>

definition rule_fits :: "'z rule_sel_scheme \<Rightarrow> string \<Rightarrow> bool" where
  "rule_fits r name \<longleftrightarrow> zlog_rule_match_category r name = Some True"

text \<open>The matching rules in the order of the configuration, or else the last rule of the category \<open>!\<close>.\<close>

definition fit_ids :: "'z rule_heap \<Rightarrow> string \<Rightarrow> nat list \<Rightarrow> nat list" where
  "fit_ids rh name ids =
     (let ms = filter (\<lambda>i. rule_fits (the (rh i)) name) ids;
          ws = filter (\<lambda>i. zlog_rule_is_wastebin (the (rh i))) ids
      in if ms \<noteq> [] then ms else if ws = [] then [] else [last ws])"

definition rules_ok :: "'z rule_heap \<Rightarrow> nat list \<Rightarrow> bool" where
  "rules_ok rh ids \<longleftrightarrow> (\<forall>i \<in> set ids. \<exists>r. rh i = Some r \<and> sel_ok r)"

definition rule_bm :: "'z rule_heap \<Rightarrow> nat \<Rightarrow> 8 word list" where
  "rule_bm rh i = ru_level_bitmap (the (rh i))"

definition live :: "nat zc_arraylist option \<Rightarrow> bool" where
  "live l \<longleftrightarrow> (case l of None \<Rightarrow> True | Some a \<Rightarrow> al_inv a)"

lemma del_rules_live: "live l \<Longrightarrow> del_rules l = Some ()"
  by (auto simp: live_def del_rules_def al_inv_iff_rep dest!: zc_arraylist_del_rep split: option.splits)

lemma elems_live: "al_elems a xs \<Longrightarrow> live (Some a)"
  by (auto simp: live_def al_elems_def intro: al_rep_inv)

lemma add_rule_cases:
  assumes "ca_fit_rules c = Some l" "al_elems l xs" "rh i = Some r"
  obtains (ok) l' m' where "category_add_rule rh c i m =
      Some (0, c\<lparr>ca_fit_rules := Some l', ca_level_bitmap := overlap (ca_level_bitmap c) (rule_bm rh i)\<rparr>, m')"
      "al_elems l' (xs @ [i])" "set m' \<subseteq> set m"
  | (fail) l' m' where "category_add_rule rh c i m = Some (-1, c\<lparr>ca_fit_rules := Some l'\<rparr>, m')" "al_array l' = None"
      "False \<in> set m" "set m' \<subseteq> set m"
proof -
  have rep: "al_rep l (map Some xs)" using assms(2) by (simp add: al_elems_def)
  have mem: "set m' \<subseteq> set m" if "zc_arraylist_add l (Some i) m = Some (rc, d, l', m')" for rc d l' m'
    using that set_mem_suffix unfolding zc_arraylist_add_def by blast
  from rep show thesis
  proof (cases rule: zc_arraylist_add_rep [of l "map Some xs" "Some i" m])
    case (ok a' m')
    have "category_add_rule rh c i m =
      Some (0, c\<lparr>ca_fit_rules := Some a', ca_level_bitmap := overlap (ca_level_bitmap c) (rule_bm rh i)\<rparr>, m')"
      using ok(1) assms(1,3) by (simp add: category_add_rule_def zlog_category_overlap_bitmap_def rule_bm_def)
    then show thesis using that(1) ok(2) mem [OF ok(1)] by (simp add: al_elems_def)
  next
    case (fail m')
    have "category_add_rule rh c i m = Some (-1, c\<lparr>ca_fit_rules := Some (l\<lparr>al_array := None\<rparr>)\<rparr>, m')"
      using fail(1) assms(1,3) by (simp add: category_add_rule_def)
    then show thesis using that(2) alloc_False [OF fail(2)] mem [OF fail(1)] by simp
  qed
qed

lemma overlap_length [simp]: "length (overlap a b) = min (length a) (length b)"
  by (simp add: overlap_def)

lemma overlap_bit:
  assumes "length a = 32" "length b = 32" "lv < 256"
  shows "bitmap_bit (overlap a b) lv \<longleftrightarrow> bitmap_bit a lv \<or> bitmap_bit b lv"
  using assms by (simp add: bitmap_bit_def overlap_def bit_or_iff)

lemma foldl_overlap_bit:
  "length a = 32 \<Longrightarrow> \<forall>b \<in> set bs. length b = 32 \<Longrightarrow> lv < 256 \<Longrightarrow>
   length (foldl overlap a bs) = 32 \<and> (bitmap_bit (foldl overlap a bs) lv \<longleftrightarrow> bitmap_bit a lv \<or> (\<exists>b \<in> set bs. bitmap_bit b lv))"
  by (induction bs arbitrary: a) (auto simp: overlap_bit)

lemma obtain_loop_result:
  assumes "rules_ok rh ids"
  shows "ca_fit_rules c = Some l \<Longrightarrow> al_elems l xs \<Longrightarrow>
   \<exists>rc c' cnt' w' m'. obtain_loop rh c (map Some ids) cnt w m = Some (rc, c', cnt', w', m') \<and> set m' \<subseteq> set m \<and>
     (let ms = filter (\<lambda>i. rule_fits (the (rh i)) (ca_name c)) ids;
          ws = filter (\<lambda>i. zlog_rule_is_wastebin (the (rh i))) ids in
      rc = 0 \<and> cnt' = cnt + length ms \<and> w' = (if ws = [] then w else Some (last ws)) \<and>
       (\<exists>l'. c' = c\<lparr>ca_fit_rules := Some l', ca_level_bitmap := foldl overlap (ca_level_bitmap c) (map (rule_bm rh) ms)\<rparr> \<and>
          al_elems l' (xs @ ms)) \<or>
      rc = -1 \<and> False \<in> set m \<and> (\<exists>l'. ca_fit_rules c' = Some l' \<and> al_array l' = None))"
  using assms
proof (induction ids arbitrary: c l xs cnt w m)
  case Nil
  then show ?case by (auto intro!: exI [of _ l])
next
  case (Cons i ids)
  obtain r where r: "rh i = Some r" "sel_ok r" "rules_ok rh ids" using Cons.prems(3) by (auto simp: rules_ok_def)
  have mc: "zlog_rule_match_category r (ca_name c) = Some (rule_fits r (ca_name c))"
    using match_category_iff [of r "ca_name c"] r(2) by (simp add: sel_ok_def rule_fits_def)
  let ?w = "if zlog_rule_is_wastebin r then Some i else w"
  show ?case
  proof (cases "rule_fits r (ca_name c)")
    case False
    have "obtain_loop rh c (map Some (i # ids)) cnt w m = obtain_loop rh c (map Some ids) cnt ?w m"
      using r(1) mc False by simp
    then show ?thesis using Cons.IH [OF Cons.prems(1,2) r(3), of cnt ?w m] False r(1) by (auto simp: Let_def)
  next
    case True
    from Cons.prems(1,2) r(1) show ?thesis
    proof (cases rule: add_rule_cases [where m = m])
      case (ok l1 m1)
      let ?c = "c\<lparr>ca_fit_rules := Some l1, ca_level_bitmap := overlap (ca_level_bitmap c) (rule_bm rh i)\<rparr>"
      have eq: "obtain_loop rh c (map Some (i # ids)) cnt w m = obtain_loop rh ?c (map Some ids) (cnt + 1) ?w m1"
        using r(1) mc True ok(1) by simp
      have fr: "ca_fit_rules ?c = Some l1" by simp
      let ?ms = "filter (\<lambda>i. rule_fits (the (rh i)) (ca_name c)) ids"
      let ?ws = "filter (\<lambda>i. zlog_rule_is_wastebin (the (rh i))) ids"
      have "\<exists>rc c' cnt' w' m'. obtain_loop rh ?c (map Some ids) (cnt + 1) ?w m1 = Some (rc, c', cnt', w', m') \<and> set m' \<subseteq> set m1 \<and>
          (rc = 0 \<and> cnt' = cnt + 1 + length ?ms \<and> w' = (if ?ws = [] then ?w else Some (last ?ws)) \<and>
          (\<exists>l'. c' = ?c\<lparr>ca_fit_rules := Some l', ca_level_bitmap := foldl overlap (ca_level_bitmap ?c) (map (rule_bm rh) ?ms)\<rparr> \<and>
            al_elems l' ((xs @ [i]) @ ?ms)) \<or>
          rc = -1 \<and> False \<in> set m1 \<and> (\<exists>l'. ca_fit_rules c' = Some l' \<and> al_array l' = None))"
        using Cons.IH [OF fr ok(2) r(3), of "cnt + 1" ?w m1] by (simp add: Let_def)
      then obtain rc c' cnt' w' m' where
          e: "obtain_loop rh ?c (map Some ids) (cnt + 1) ?w m1 = Some (rc, c', cnt', w', m')" "set m' \<subseteq> set m1"
        and d: "rc = 0 \<and> cnt' = cnt + 1 + length ?ms \<and> w' = (if ?ws = [] then ?w else Some (last ?ws)) \<and>
          (\<exists>l'. c' = ?c\<lparr>ca_fit_rules := Some l', ca_level_bitmap := foldl overlap (ca_level_bitmap ?c) (map (rule_bm rh) ?ms)\<rparr> \<and>
            al_elems l' ((xs @ [i]) @ ?ms)) \<or>
          rc = -1 \<and> False \<in> set m1 \<and> (\<exists>l'. ca_fit_rules c' = Some l' \<and> al_array l' = None)"
        by blast
      from d show ?thesis
      proof (elim disjE conjE exE)
        fix l'
        assume a: "rc = 0" "cnt' = cnt + 1 + length ?ms" "w' = (if ?ws = [] then ?w else Some (last ?ws))"
          "c' = ?c\<lparr>ca_fit_rules := Some l', ca_level_bitmap := foldl overlap (ca_level_bitmap ?c) (map (rule_bm rh) ?ms)\<rparr>"
          "al_elems l' ((xs @ [i]) @ ?ms)"
        show ?thesis
          unfolding eq e(1) Let_def
          by (intro exI [of _ rc] exI [of _ c'] exI [of _ cnt'] exI [of _ w'] exI [of _ m'] conjI disjI1 exI [of _ l'])
            (use a r(1) True e(2) ok(3) in \<open>auto split: if_splits\<close>)
      next
        fix l'
        assume "rc = -1" "False \<in> set m1" "ca_fit_rules c' = Some l'" "al_array l' = None"
        then show ?thesis unfolding eq e(1) Let_def using e(2) ok(3) by blast
      qed
    next
      case (fail l1 m1)
      then have "obtain_loop rh c (map Some (i # ids)) cnt w m = Some (-1, c\<lparr>ca_fit_rules := Some l1\<rparr>, cnt, w, m1)"
        using r(1) mc True by simp
      then show ?thesis using fail by (auto simp: Let_def)
    qed
  qed
qed

lemma obtain_err_lost: "ca_fit_rules c = Some l \<Longrightarrow> al_array l = None \<Longrightarrow> obtain_err c m = None"
  by (simp add: obtain_err_def del_rules_def zc_arraylist_del_def)

text \<open>When no rule matches, the last rule of the category \<open>!\<close> is added to the empty list.\<close>

lemma obtain_wastebin:
  assumes "ca_fit_rules c = Some l" and "al_elems l []" and "rh i = Some r"
  shows "let res = do { (rc, c, m) \<leftarrow> category_add_rule rh c i m; if rc \<noteq> 0 then obtain_err c m else Some (0, c, m) } in
    res = None \<and> False \<in> set m \<or>
    (\<exists>l' m'. res = Some (0, c\<lparr>ca_fit_rules := Some l', ca_level_bitmap := overlap (ca_level_bitmap c) (rule_bm rh i)\<rparr>, m') \<and>
      al_elems l' [i] \<and> set m' \<subseteq> set m)"
  using assms
proof (cases rule: add_rule_cases [where m = m])
  case (ok l2 m2)
  then show ?thesis by (auto intro: exI [of _ l2])
next
  case (fail l2 m2)
  then show ?thesis using obtain_err_lost by simp
qed

lemma obtain_rules_result:
  assumes "rules_ok rh ids" and "al_elems rules ids" and "live (ca_fit_rules c)"
  shows "(zlog_category_obtain_rules rh c rules m = None \<and> False \<in> set m) \<or>
    (\<exists>m'. zlog_category_obtain_rules rh c rules m = Some (-1, c\<lparr>ca_level_bitmap := replicate 32 0, ca_fit_rules := None\<rparr>, m') \<and>
       False \<in> set m \<and> set m' \<subseteq> set m) \<or>
    (\<exists>l' m'. zlog_category_obtain_rules rh c rules m = Some (0, c\<lparr>ca_fit_rules := Some l',
         ca_level_bitmap := foldl overlap (replicate 32 0) (map (rule_bm rh) (fit_ids rh (ca_name c) ids))\<rparr>, m') \<and>
       al_elems l' (fit_ids rh (ca_name c) ids) \<and> set m' \<subseteq> set m)"
proof -
  note arr = foreach_elems [OF assms(2)]
  let ?c = "c\<lparr>ca_level_bitmap := replicate 32 0\<rparr>"
  obtain lo :: "nat zc_arraylist option" and m1 where nw: "zc_arraylist_new False m = (lo, m1)"
    by (cases "zc_arraylist_new False m :: nat zc_arraylist option \<times> mem") blast
  have m1: "set m1 \<subseteq> set m" "lo = None \<Longrightarrow> False \<in> set m"
    using nw by (cases m; cases "tl m"; auto simp: zc_arraylist_new_def Let_def split: if_splits)+
  show ?thesis
  proof (cases lo)
    case None
    then show ?thesis using nw m1 del_rules_live [OF assms(3)] by (simp add: zlog_category_obtain_rules_def)
  next
    case (Some l0)
    have l0: "al_elems l0 []" using zc_arraylist_new_rep [of False m l0 m1] nw Some by (simp add: al_elems_def)
    let ?c0 = "?c\<lparr>ca_fit_rules := Some l0\<rparr>"
    let ?ms = "filter (\<lambda>i. rule_fits (the (rh i)) (ca_name c)) ids"
    let ?ws = "filter (\<lambda>i. zlog_rule_is_wastebin (the (rh i))) ids"
    have "\<exists>rc c' cnt' w' m'. obtain_loop rh ?c0 (map Some ids) 0 None m1 = Some (rc, c', cnt', w', m') \<and> set m' \<subseteq> set m1 \<and>
       (rc = 0 \<and> cnt' = length ?ms \<and> w' = (if ?ws = [] then None else Some (last ?ws)) \<and>
         (\<exists>l'. c' = ?c0\<lparr>ca_fit_rules := Some l', ca_level_bitmap := foldl overlap (replicate 32 0) (map (rule_bm rh) ?ms)\<rparr> \<and> al_elems l' ?ms)
       \<or> rc = -1 \<and> False \<in> set m1 \<and> (\<exists>l'. ca_fit_rules c' = Some l' \<and> al_array l' = None))"
      using obtain_loop_result [OF assms(1), of ?c0 l0 "[]" 0 None m1] l0 by (simp add: Let_def)
    then obtain rc c' cnt' w' m' where lp: "obtain_loop rh ?c0 (map Some ids) 0 None m1 = Some (rc, c', cnt', w', m')" "set m' \<subseteq> set m1"
      and res: "rc = 0 \<and> cnt' = length ?ms \<and> w' = (if ?ws = [] then None else Some (last ?ws)) \<and>
         (\<exists>l'. c' = ?c0\<lparr>ca_fit_rules := Some l', ca_level_bitmap := foldl overlap (replicate 32 0) (map (rule_bm rh) ?ms)\<rparr> \<and> al_elems l' ?ms)
       \<or> rc = -1 \<and> False \<in> set m1 \<and> (\<exists>l'. ca_fit_rules c' = Some l' \<and> al_array l' = None)"
      by blast
    have unf: "zlog_category_obtain_rules rh c rules m =
        (if rc \<noteq> 0 then obtain_err c' m'
         else if cnt' = 0 then (case w' of None \<Rightarrow> Some (0, c', m')
            | Some w \<Rightarrow> do { (rc, c, m) \<leftarrow> category_add_rule rh c' w m'; if rc \<noteq> 0 then obtain_err c m else Some (0, c, m) })
         else Some (0, c', m'))"
      using del_rules_live [OF assms(3)] nw Some arr lp(1) by (simp add: zlog_category_obtain_rules_def)
    show ?thesis
    proof (cases "rc = 0")
      case False
      then show ?thesis using res unf obtain_err_lost m1 by auto
    next
      case True
      then obtain l' where l': "c' = ?c0\<lparr>ca_fit_rules := Some l', ca_level_bitmap := foldl overlap (replicate 32 0) (map (rule_bm rh) ?ms)\<rparr>"
          "al_elems l' ?ms" "cnt' = length ?ms" "w' = (if ?ws = [] then None else Some (last ?ws))" using res by auto
      show ?thesis
      proof (cases "?ms = [] \<and> ?ws \<noteq> []")
        case False
        then have "zlog_category_obtain_rules rh c rules m = Some (0, c', m')" "fit_ids rh (ca_name c) ids = ?ms"
          using True unf l' by (auto simp: fit_ids_def Let_def)
        then show ?thesis using l' lp(2) m1 by auto
      next
        case wb: True
        let ?w = "last ?ws"
        have fi: "fit_ids rh (ca_name c) ids = [?w]" using wb by (simp add: fit_ids_def Let_def)
        have "?w \<in> set ids" using wb last_in_set [of ?ws] by auto
        then obtain r where r: "rh ?w = Some r" using assms(1) by (auto simp: rules_ok_def)
        have f: "ca_fit_rules c' = Some l'" "al_elems l' []" using l' wb by simp_all
        have unf': "zlog_category_obtain_rules rh c rules m =
            do { (rc, c, m) \<leftarrow> category_add_rule rh c' ?w m'; if rc \<noteq> 0 then obtain_err c m else Some (0, c, m) }"
          using True unf l'(3,4) wb by simp
        have c': "c'\<lparr>ca_fit_rules := Some l2, ca_level_bitmap := overlap (ca_level_bitmap c') (rule_bm rh ?w)\<rparr> =
            c\<lparr>ca_fit_rules := Some l2, ca_level_bitmap := foldl overlap (replicate 32 0) (map (rule_bm rh) [?w])\<rparr>" for l2
          using l'(1) wb by simp
        show ?thesis
          using obtain_wastebin [of c' l' rh ?w r m', OF f r] lp(2) m1 unfolding Let_def unf' [symmetric] fi c' by (meson subset_iff)
      qed
    qed
  qed
qed

subsection \<open>A category and its rules\<close>

definition category_ok :: "'z rule_heap \<Rightarrow> zlog_category \<Rightarrow> nat list \<Rightarrow> bool" where
  "category_ok rh c ids \<longleftrightarrow> (\<exists>l. ca_fit_rules c = Some l \<and> al_elems l ids) \<and> rules_ok rh ids \<and>
     length (ca_level_bitmap c) = 32 \<and>
     (\<forall>lv < 256. bitmap_bit (ca_level_bitmap c) lv \<longleftrightarrow> (\<exists>i \<in> set ids. rule_passes (the (rh i)) (int lv)))"

lemma fit_ids_subset: "set (fit_ids rh name ids) \<subseteq> set ids"
  using last_in_set [of "filter (\<lambda>i. zlog_rule_is_wastebin (the (rh i))) ids"] by (auto simp: fit_ids_def Let_def)

lemma rules_ok_mono: "rules_ok rh ids \<Longrightarrow> set ids' \<subseteq> set ids \<Longrightarrow> rules_ok rh ids'"
  by (auto simp: rules_ok_def)

lemma merged_bitmap_ok:
  assumes "rules_ok rh ids"
  shows "length (foldl overlap (replicate 32 0) (map (rule_bm rh) ids)) = 32 \<and>
    (\<forall>lv < 256. bitmap_bit (foldl overlap (replicate 32 0) (map (rule_bm rh) ids)) lv \<longleftrightarrow>
       (\<exists>i \<in> set ids. rule_passes (the (rh i)) (int lv)))"
proof -
  have b: "\<forall>b \<in> set (map (rule_bm rh) ids). length b = 32" using assms by (auto simp: rules_ok_def rule_bm_def sel_ok_def)
  have p: "bitmap_bit (rule_bm rh i) lv \<longleftrightarrow> rule_passes (the (rh i)) (int lv)" if "i \<in> set ids" "lv < 256" for i lv
    using assms that by (auto simp: rules_ok_def rule_bm_def sel_ok_def)
  show ?thesis
    using foldl_overlap_bit [of "replicate 32 0" "map (rule_bm rh) ids", OF _ b] bitmap_all(2) p
    by (auto intro: foldl_overlap_bit [of "replicate 32 0" _ 0, OF _ b, THEN conjunct1])
qed

lemma obtain_rules_ok:
  assumes "rules_ok rh ids" and "al_elems rules ids" and "live (ca_fit_rules c)"
    and "zlog_category_obtain_rules rh c rules m = Some (rc, c', m')"
  shows "set m' \<subseteq> set m \<and> ca_name c' = ca_name c \<and> ca_fit_rules_backup c' = ca_fit_rules_backup c \<and>
    ca_level_bitmap_backup c' = ca_level_bitmap_backup c \<and>
    (rc = 0 \<and> category_ok rh c' (fit_ids rh (ca_name c) ids) \<or> rc = -1 \<and> ca_fit_rules c' = None \<and> False \<in> set m)"
  using obtain_rules_result [OF assms(1-3), of m] assms(4)
    merged_bitmap_ok [OF rules_ok_mono [OF assms(1) fit_ids_subset [of rh "ca_name c" ids]]]
    rules_ok_mono [OF assms(1) fit_ids_subset [of rh "ca_name c" ids]]
  by (auto simp: category_ok_def)

lemma obtain_rules_succeeds:
  assumes "rules_ok rh ids" and "al_elems rules ids" and "live (ca_fit_rules c)" and "False \<notin> set m"
  shows "\<exists>c' m'. zlog_category_obtain_rules rh c rules m = Some (0, c', m')"
  using obtain_rules_result [OF assms(1-3), of m] assms(4) by auto

lemma needless_eq:
  assumes "category_ok rh c ids" and "0 \<le> lv" and "lv < 256"
  shows "zlog_category_needless_level c lv = Some (\<forall>i \<in> set ids. \<not> rule_passes (the (rh i)) lv)"
proof -
  define n where "n = nat lv"
  have n: "n < 256" "lv = int n" "n div 8 < 32" using assms(2,3) by (auto simp: n_def)
  have sd: "int n sdiv 8 = int (n div 8)" "int n smod 8 = int (n mod 8)" using nat_sdiv_smod [of "int n"] by auto
  have len: "length (ca_level_bitmap c) = 32" using assms(1) by (simp add: category_ok_def)
  have "nat (7 - int (n mod 8)) = 7 - n mod 8" "7 - n mod 8 < 32" by linarith+
  then have "zlog_category_needless_level c lv = Some (\<not> bitmap_bit (ca_level_bitmap c) n)"
    using n len by (simp add: zlog_category_needless_level_def sd bitmap_bit_def bit_unsigned_iff del: of_nat_div)
  then show ?thesis using assms(1) n by (simp add: category_ok_def)
qed

lemma output_loop_skips:
  "(\<And>i s. i \<in> set ids \<Longrightarrow> out i s = Some (0, s)) \<Longrightarrow> output_loop out (map Some ids) 0 s = Some (0, s)"
  by (induction ids) auto

lemma category_output_elems:
  "ca_fit_rules c = Some l \<Longrightarrow> al_elems l ids \<Longrightarrow> zlog_category_output out c s = output_loop out (map Some ids) 0 s"
  by (simp add: zlog_category_output_def foreach_elems)

subsection \<open>Update, commit and roll back\<close>

lemma update_rules_result:
  assumes "rules_ok rh ids" and "al_elems rules ids" and "live (ca_fit_rules_backup c)" and "live (ca_fit_rules c)"
    and "zlog_category_update_rules rh c rules m = Some (rc, c', m')"
  shows "ca_name c' = ca_name c \<and> ca_fit_rules_backup c' = ca_fit_rules c \<and> ca_level_bitmap_backup c' = ca_level_bitmap c \<and>
    set m' \<subseteq> set m \<and> live (ca_fit_rules c') \<and>
    (rc = 0 \<and> category_ok rh c' (fit_ids rh (ca_name c) ids) \<or> rc = -1 \<and> ca_fit_rules c' = None \<and> False \<in> set m)"
proof -
  let ?c = "c\<lparr>ca_fit_rules_backup := ca_fit_rules c, ca_fit_rules := None, ca_level_bitmap_backup := ca_level_bitmap c\<rparr>"
  obtain rc1 c1 m1 where o: "zlog_category_obtain_rules rh ?c rules m = Some (rc1, c1, m1)"
    and c': "if rc1 \<noteq> 0 then rc = -1 \<and> c' = c1\<lparr>ca_fit_rules := None\<rparr> \<and> m' = m1 else rc = 0 \<and> c' = c1 \<and> m' = m1"
    using assms(5) del_rules_live [OF assms(3)]
    by (auto simp: zlog_category_update_rules_def Option.bind_eq_Some_conv split: if_splits)
  have "live (ca_fit_rules ?c)" by (simp add: live_def)
  from obtain_rules_ok [OF assms(1,2) this o] c' show ?thesis
    by (auto simp: category_ok_def live_def dest!: elems_live split: if_splits)
qed

lemma rollback_restores:
  assumes "live (ca_fit_rules c')" and "ca_fit_rules c = Some l" and "ca_name c' = ca_name c" and "ca_name_len c' = ca_name_len c"
    and "ca_fit_rules_backup c' = ca_fit_rules c" and "ca_level_bitmap_backup c' = ca_level_bitmap c"
  shows "zlog_category_rollback_rules c' = Some (c\<lparr>ca_fit_rules_backup := None, ca_level_bitmap_backup := replicate 32 0\<rparr>)"
  using assms del_rules_live [OF assms(1)] by (auto simp: zlog_category_rollback_rules_def)

subsection \<open>All categories of the table\<close>

definition table_values :: "category_table \<Rightarrow> nat list \<Rightarrow> nat list" where
  "table_values t as = map (\<lambda>a. he_value (the (ht_store t a))) as"

lemma table_loop_rel:
  assumes "\<And>c m rc c' m'. P c \<Longrightarrow> f c m = Some (rc, c', m') \<Longrightarrow> rel c c' \<and> (rc = 0 \<longrightarrow> S c c')"
    and "\<And>c. P c \<Longrightarrow> rel c c"
  shows "\<forall>a \<in> set as. ht_store t a \<noteq> None \<Longrightarrow> distinct (table_values t as) \<Longrightarrow>
    \<forall>v \<in> set (table_values t as). \<exists>c. ch_map h v = Some c \<and> P c \<Longrightarrow> table_loop t f as h m = Some (rc, h1, m1) \<Longrightarrow>
    (\<forall>v \<in> set (table_values t as). \<exists>c c'. ch_map h v = Some c \<and> ch_map h1 v = Some c' \<and> rel c c' \<and> (rc = 0 \<longrightarrow> S c c')) \<and>
    (\<forall>v. v \<notin> set (table_values t as) \<longrightarrow> ch_map h1 v = ch_map h v) \<and> ch_brk h1 = ch_brk h"
proof (induction as arbitrary: h m)
  case Nil
  then show ?case by (simp add: table_values_def)
next
  case (Cons a as)
  obtain e where e: "ht_store t a = Some e" using Cons.prems(1) by auto
  let ?v = "he_value e"
  have vs: "table_values t (a # as) = ?v # table_values t as" using e by (simp add: table_values_def)
  have nin: "?v \<notin> set (table_values t as)" "distinct (table_values t as)" using Cons.prems(2) unfolding vs by auto
  obtain c where c: "ch_map h ?v = Some c" "P c" using Cons.prems(3) unfolding vs by auto
  obtain rc1 c1 m2 where f: "f c m = Some (rc1, c1, m2)"
    using Cons.prems(4) e c by (cases "f c m") (auto split: prod.splits)
  let ?h = "h\<lparr>ch_map := (ch_map h)(?v \<mapsto> c1)\<rparr>"
  show ?case
  proof (cases "rc1 = 0")
    case True
    have "table_loop t f as ?h m2 = Some (rc, h1, m1)" using Cons.prems(4) e c f True by simp
    moreover have "\<forall>v \<in> set (table_values t as). \<exists>c. ch_map ?h v = Some c \<and> P c"
      using Cons.prems(3) nin unfolding vs by auto
    ultimately have "(\<forall>v \<in> set (table_values t as). \<exists>c c'. ch_map ?h v = Some c \<and> ch_map h1 v = Some c' \<and> rel c c' \<and> (rc = 0 \<longrightarrow> S c c')) \<and>
      (\<forall>v. v \<notin> set (table_values t as) \<longrightarrow> ch_map h1 v = ch_map ?h v) \<and> ch_brk h1 = ch_brk ?h"
      using Cons.IH [of ?h m2] Cons.prems(1) nin(2) by simp
    then show ?thesis using assms(1) [OF c(2) f] True c nin unfolding vs by (auto split: if_splits)
  next
    case False
    then have "rc = -1" "h1 = ?h" using Cons.prems(4) e c f by auto
    moreover have "ch_map ?h v = ch_map h v" if "v \<in> set (table_values t as)" for v using that nin by auto
    ultimately show ?thesis using assms(1) [OF c(2) f] assms(2) c Cons.prems(3) unfolding vs by fastforce
  qed
qed

lemma table_loop_map:
  "\<forall>a \<in> set as. ht_store t a \<noteq> None \<Longrightarrow> distinct (table_values t as) \<Longrightarrow>
   \<forall>v \<in> set (table_values t as). \<exists>c. ch_map h v = Some c \<and> g c \<noteq> None \<Longrightarrow>
   table_loop t (\<lambda>c m. do { c \<leftarrow> g c; Some (0, c, m) }) as h m =
     Some (0, h\<lparr>ch_map := (\<lambda>v. if v \<in> set (table_values t as) then Option.bind (ch_map h v) g else ch_map h v)\<rparr>, m)"
proof (induction as arbitrary: h)
  case Nil
  then show ?case by (simp add: table_values_def)
next
  case (Cons a as)
  obtain e where e: "ht_store t a = Some e" using Cons.prems(1) by auto
  let ?v = "he_value e"
  have vs: "table_values t (a # as) = ?v # table_values t as" using e by (simp add: table_values_def)
  have nin: "?v \<notin> set (table_values t as)" "distinct (table_values t as)" using Cons.prems(2) unfolding vs by auto
  obtain c c1 where c: "ch_map h ?v = Some c" "g c = Some c1" using Cons.prems(3) unfolding vs by auto
  let ?h = "h\<lparr>ch_map := (ch_map h)(?v \<mapsto> c1)\<rparr>"
  have "\<forall>v \<in> set (table_values t as). \<exists>c. ch_map ?h v = Some c \<and> g c \<noteq> None"
    using Cons.prems(3) nin unfolding vs by auto
  from Cons.IH [OF _ nin(2) this] Cons.prems(1)
  have "table_loop t (\<lambda>c m. do { c \<leftarrow> g c; Some (0, c, m) }) as ?h m =
      Some (0, ?h\<lparr>ch_map := (\<lambda>v. if v \<in> set (table_values t as) then Option.bind (ch_map ?h v) g else ch_map ?h v)\<rparr>, m)" by simp
  moreover have "(\<lambda>v. if v \<in> set (table_values t as) then Option.bind (ch_map ?h v) g else ch_map ?h v) =
      (\<lambda>v. if v \<in> set (table_values t (a # as)) then Option.bind (ch_map h v) g else ch_map h v)"
    using c nin unfolding vs by (auto simp: fun_eq_iff)
  ultimately show ?case using e c by simp
qed

text \<open>The table owns its categories: the key of an entry is the name of the category it points to.\<close>

definition table_ok :: "category_table \<Rightarrow> cat_heap \<Rightarrow> bool" where
  "table_ok t h \<longleftrightarrow> str_table t \<and>
     (\<forall>k a. ht_abs t k = Some a \<longrightarrow> a < ch_brk h \<and> (\<exists>c. ch_map h a = Some c \<and> ca_name c = k))"

lemma table_foreach:
  assumes "table_ok t h"
  obtains as where "zc_hashtable_foreach t = Some as" and "\<forall>a \<in> set as. ht_store t a \<noteq> None"
    and "distinct (table_values t as)" and "set (table_values t as) = ran (ht_abs t)"
proof -
  have st: "str_table t" using assms by (simp add: table_ok_def)
  obtain css where r: "ht_rep t css" "str.uses t" by (rule str_tableE [OF st])
  let ?as = "concat css"
  let ?kv = "\<lambda>a. (he_key (the (ht_store t a)), he_value (the (ht_store t a)))"
  have d: "dom (ht_store t) = set ?as" "distinct ?as" using r(1) by (auto simp: ht_rep_def ht_chains_def)
  note ent = str_entries [OF r]
  have mem: "ht_abs t k = Some v \<longleftrightarrow> (k, v) \<in> set (map ?kv ?as)" for k v
    using map_of_eq_Some_iff [OF ent(2), of k v] ent(1) by simp
  have ra: "set (table_values t ?as) = ran (ht_abs t)"
    using mem by (fastforce simp: table_values_def ran_def image_iff)
  have "inj_on (\<lambda>a. he_value (the (ht_store t a))) (set ?as)"
  proof (rule inj_onI)
    fix a b
    assume ab: "a \<in> set ?as" "b \<in> set ?as" and eq: "he_value (the (ht_store t a)) = he_value (the (ht_store t b))"
    have "ht_abs t (fst (?kv a)) = Some (snd (?kv a))" "ht_abs t (fst (?kv b)) = Some (snd (?kv b))"
      using mem ab by (auto simp: image_iff)
    moreover have "k = ca_name (the (ch_map h v))" if "ht_abs t k = Some v" for k v
      using assms that unfolding table_ok_def by force
    ultimately have "fst (?kv a) = fst (?kv b)" using eq by (metis snd_conv)
    then show "a = b" using ent(2) ab by (auto simp: distinct_map inj_on_def comp_def)
  qed
  then have "distinct (table_values t ?as)" using d(2) by (simp add: table_values_def distinct_map)
  then show thesis using that ht_foreach_rep [OF r(1)] ra d(1) by blast
qed

definition steady :: "zlog_category \<Rightarrow> bool" where
  "steady c \<longleftrightarrow> (\<exists>l. ca_fit_rules c = Some l \<and> al_inv l) \<and> ca_fit_rules_backup c = None \<and>
     ca_level_bitmap_backup c = replicate 32 0"

definition table_steady :: "category_table \<Rightarrow> cat_heap \<Rightarrow> bool" where
  "table_steady t h \<longleftrightarrow> table_ok t h \<and> (\<forall>a \<in> ran (ht_abs t). \<exists>c. ch_map h a = Some c \<and> steady c)"

lemma update_name_len: "zlog_category_update_rules rh c rules m = Some (rc, c', m') \<Longrightarrow> live (ca_fit_rules_backup c) \<Longrightarrow>
  rules_ok rh ids \<Longrightarrow> al_elems rules ids \<Longrightarrow> ca_name_len c' = ca_name_len c"
proof -
  let ?c = "c\<lparr>ca_fit_rules_backup := ca_fit_rules c, ca_fit_rules := None, ca_level_bitmap_backup := ca_level_bitmap c\<rparr>"
  assume "zlog_category_update_rules rh c rules m = Some (rc, c', m')" "live (ca_fit_rules_backup c)"
    "rules_ok rh ids" "al_elems rules ids"
  moreover have "live (ca_fit_rules ?c)" by (simp add: live_def)
  ultimately show ?thesis using obtain_rules_result [of rh ids rules ?c m] del_rules_live
    by (auto simp: zlog_category_update_rules_def)
qed

lemma update_then_rollback:
  assumes "steady c" "rules_ok rh ids" "al_elems rules ids" "zlog_category_update_rules rh c rules m = Some (rc, c', m')"
  shows "zlog_category_rollback_rules c' = Some c"
proof -
  obtain l where l: "ca_fit_rules c = Some l" "al_inv l" using assms(1) by (auto simp: steady_def)
  have lv: "live (ca_fit_rules_backup c)" "live (ca_fit_rules c)" using assms(1) l by (auto simp: steady_def live_def)
  note u = update_rules_result [OF assms(2,3) lv assms(4)]
  have "zlog_category_rollback_rules c' = Some (c\<lparr>ca_fit_rules_backup := None, ca_level_bitmap_backup := replicate 32 0\<rparr>)"
    using u l update_name_len [OF assms(4) lv(1) assms(2,3)] by (intro rollback_restores) auto
  then show ?thesis using assms(1) by (simp add: steady_def)
qed

lemma table_rollback_back:
  assumes "table_ok t h" and "\<forall>v \<in> ran (ht_abs t). \<exists>c c'. ch_map h v = Some c \<and> ch_map h1 v = Some c' \<and> zlog_category_rollback_rules c' = Some c"
    and "\<forall>v. v \<notin> ran (ht_abs t) \<longrightarrow> ch_map h1 v = ch_map h v" and "ch_brk h1 = ch_brk h"
  shows "zlog_category_table_rollback_rules t h1 = Some h"
proof -
  obtain as where as: "zc_hashtable_foreach t = Some as" "\<forall>a \<in> set as. ht_store t a \<noteq> None"
      "distinct (table_values t as)" "set (table_values t as) = ran (ht_abs t)" by (rule table_foreach [OF assms(1)])
  have "\<forall>v \<in> set (table_values t as). \<exists>c. ch_map h1 v = Some c \<and> zlog_category_rollback_rules c \<noteq> None"
    using assms(2) as(4) by auto
  from table_loop_map [OF as(2,3) this, of "[]"]
  have "zlog_category_table_rollback_rules t h1 =
      Some (h1\<lparr>ch_map := (\<lambda>v. if v \<in> ran (ht_abs t) then Option.bind (ch_map h1 v) zlog_category_rollback_rules else ch_map h1 v)\<rparr>)"
    using as(1,4) by (simp add: zlog_category_table_rollback_rules_def)
  moreover have "(\<lambda>v. if v \<in> ran (ht_abs t) then Option.bind (ch_map h1 v) zlog_category_rollback_rules else ch_map h1 v) = ch_map h"
    using assms(2,3) by (auto simp: fun_eq_iff)
  ultimately show ?thesis using assms(4) by simp
qed

lemma table_update_rel:
  assumes st: "table_steady t h" and ok: "rules_ok rh ids" "al_elems rules ids"
    and u: "zlog_category_table_update_rules rh t h rules m = Some (rc, h1, m1)"
  shows "\<forall>v \<in> ran (ht_abs t). \<exists>c c'. ch_map h v = Some c \<and> ch_map h1 v = Some c' \<and> zlog_category_rollback_rules c' = Some c \<and>
      (rc = 0 \<longrightarrow> ca_name c' = ca_name c \<and> category_ok rh c' (fit_ids rh (ca_name c) ids) \<and> live (ca_fit_rules_backup c'))"
    and "\<forall>v. v \<notin> ran (ht_abs t) \<longrightarrow> ch_map h1 v = ch_map h v" and "ch_brk h1 = ch_brk h"
proof -
  have tok: "table_ok t h" using st by (simp add: table_steady_def)
  obtain as where as: "zc_hashtable_foreach t = Some as" "\<forall>a \<in> set as. ht_store t a \<noteq> None"
      "distinct (table_values t as)" "set (table_values t as) = ran (ht_abs t)" by (rule table_foreach [OF tok])
  let ?S = "\<lambda>c c'. ca_name c' = ca_name c \<and> category_ok rh c' (fit_ids rh (ca_name c) ids) \<and> live (ca_fit_rules_backup c')"
  have f: "zlog_category_rollback_rules c' = Some c \<and> (rc = 0 \<longrightarrow> ?S c c')"
    if "steady c" "zlog_category_update_rules rh c rules m = Some (rc, c', m')" for c m rc c' m'
  proof -
    have lv: "live (ca_fit_rules_backup c)" "live (ca_fit_rules c)" using that(1) by (auto simp: steady_def live_def)
    show ?thesis
      using update_rules_result [OF ok lv that(2)] update_then_rollback [OF that(1) ok that(2)] lv by auto
  qed
  have r: "zlog_category_rollback_rules c = Some c" if "steady c" for c
    using that by (simp add: steady_def zlog_category_rollback_rules_def)
  have p: "\<forall>v \<in> set (table_values t as). \<exists>c. ch_map h v = Some c \<and> steady c" using st as(4) by (simp add: table_steady_def)
  have lp: "table_loop t (\<lambda>c m. zlog_category_update_rules rh c rules m) as h m = Some (rc, h1, m1)"
    using u as(1) by (simp add: zlog_category_table_update_rules_def)
  note all = table_loop_rel [of steady "\<lambda>c m. zlog_category_update_rules rh c rules m"
      "\<lambda>c c'. zlog_category_rollback_rules c' = Some c" ?S, OF f r as(2,3) p lp]
  show "\<forall>v \<in> ran (ht_abs t). \<exists>c c'. ch_map h v = Some c \<and> ch_map h1 v = Some c' \<and> zlog_category_rollback_rules c' = Some c \<and>
      (rc = 0 \<longrightarrow> ?S c c')" using all as(4) by simp
  show "\<forall>v. v \<notin> ran (ht_abs t) \<longrightarrow> ch_map h1 v = ch_map h v" "ch_brk h1 = ch_brk h" using all as(4) by simp_all
qed

lemma table_update_done:
  assumes "table_steady t h" and "rules_ok rh ids" and "al_elems rules ids"
    and "zlog_category_table_update_rules rh t h rules m = Some (0, h1, m1)"
  shows "table_ok t h1"
    and "\<forall>v \<in> ran (ht_abs t). \<exists>c. ch_map h1 v = Some c \<and> category_ok rh c (fit_ids rh (ca_name c) ids) \<and>
      live (ca_fit_rules_backup c) \<and> (ca_fit_rules_backup c = None \<longrightarrow> ca_level_bitmap_backup c = replicate 32 0)"
proof -
  note u = table_update_rel [OF assms]
  have steadies: "\<forall>v \<in> ran (ht_abs t). \<exists>c. ch_map h v = Some c \<and> steady c" "table_ok t h"
    using assms(1) by (simp_all add: table_steady_def)
  have all: "\<forall>v \<in> ran (ht_abs t). \<exists>c. ch_map h1 v = Some c \<and> category_ok rh c (fit_ids rh (ca_name c) ids) \<and> live (ca_fit_rules_backup c) \<and>
      (ca_fit_rules_backup c = None \<longrightarrow> ca_level_bitmap_backup c = replicate 32 0) \<and> ca_name c = ca_name (the (ch_map h v))"
  proof
    fix v assume v: "v \<in> ran (ht_abs t)"
    obtain c c' where c: "ch_map h v = Some c" "ch_map h1 v = Some c'" "zlog_category_rollback_rules c' = Some c"
        "ca_name c' = ca_name c" "category_ok rh c' (fit_ids rh (ca_name c) ids)" "live (ca_fit_rules_backup c')"
      using u(1) v by auto
    have "steady c" using steadies(1) v c(1) by auto
    then have "ca_fit_rules_backup c' = None \<longrightarrow> ca_level_bitmap_backup c' = replicate 32 0"
      using c(3) by (auto simp: zlog_category_rollback_rules_def steady_def)
    then show "\<exists>c. ch_map h1 v = Some c \<and> category_ok rh c (fit_ids rh (ca_name c) ids) \<and> live (ca_fit_rules_backup c) \<and>
      (ca_fit_rules_backup c = None \<longrightarrow> ca_level_bitmap_backup c = replicate 32 0) \<and> ca_name c = ca_name (the (ch_map h v))"
      using c by simp
  qed
  show "table_ok t h1"
    unfolding table_ok_def
  proof (intro conjI allI impI)
    show "str_table t" using steadies(2) by (simp add: table_ok_def)
    fix k a assume ka: "ht_abs t k = Some a"
    then have "a \<in> ran (ht_abs t)" by (auto simp: ran_def)
    then show "\<exists>c. ch_map h1 a = Some c \<and> ca_name c = k" using all steadies(2) ka by (fastforce simp: table_ok_def)
    show "a < ch_brk h1" using steadies(2) ka u(3) by (simp add: table_ok_def)
  qed
  show "\<forall>v \<in> ran (ht_abs t). \<exists>c. ch_map h1 v = Some c \<and> category_ok rh c (fit_ids rh (ca_name c) ids) \<and>
      live (ca_fit_rules_backup c) \<and> (ca_fit_rules_backup c = None \<longrightarrow> ca_level_bitmap_backup c = replicate 32 0)"
  proof
    fix v assume "v \<in> ran (ht_abs t)"
    from bspec [OF all this] show "\<exists>c. ch_map h1 v = Some c \<and> category_ok rh c (fit_ids rh (ca_name c) ids) \<and>
      live (ca_fit_rules_backup c) \<and> (ca_fit_rules_backup c = None \<longrightarrow> ca_level_bitmap_backup c = replicate 32 0)"
      by (elim exE conjE) (intro exI conjI)
  qed
qed

lemma table_commit_steady:
  assumes "table_ok t h1"
    and "\<forall>v \<in> ran (ht_abs t). \<exists>c. ch_map h1 v = Some c \<and> category_ok rh c (fit_ids rh (ca_name c) ids) \<and> live (ca_fit_rules_backup c) \<and>
      (ca_fit_rules_backup c = None \<longrightarrow> ca_level_bitmap_backup c = replicate 32 0)"
  shows "\<exists>h2. zlog_category_table_commit_rules t h1 = Some h2 \<and> table_steady t h2 \<and>
    (\<forall>v \<in> ran (ht_abs t). \<exists>c. ch_map h2 v = Some c \<and> category_ok rh c (fit_ids rh (ca_name c) ids))"
proof -
  obtain as where as: "zc_hashtable_foreach t = Some as" "\<forall>a \<in> set as. ht_store t a \<noteq> None"
      "distinct (table_values t as)" "set (table_values t as) = ran (ht_abs t)" by (rule table_foreach [OF assms(1)])
  have g: "\<exists>c'. zlog_category_commit_rules c = Some c' \<and> steady c' \<and> category_ok rh c' (fit_ids rh (ca_name c') ids) \<and> ca_name c' = ca_name c"
    if "category_ok rh c (fit_ids rh (ca_name c) ids)" "live (ca_fit_rules_backup c)"
      "ca_fit_rules_backup c = None \<longrightarrow> ca_level_bitmap_backup c = replicate 32 0" for c
    using that del_rules_live [OF that(2)]
    by (auto simp: zlog_category_commit_rules_def steady_def category_ok_def live_def dest: elems_live)
  have "\<forall>v \<in> set (table_values t as). \<exists>c. ch_map h1 v = Some c \<and> zlog_category_commit_rules c \<noteq> None"
    using assms(2) as(4) g by fastforce
  from table_loop_map [OF as(2,3) this, of "[]"]
  have eq: "zlog_category_table_commit_rules t h1 =
      Some (h1\<lparr>ch_map := (\<lambda>v. if v \<in> ran (ht_abs t) then Option.bind (ch_map h1 v) zlog_category_commit_rules else ch_map h1 v)\<rparr>)"
    using as(1,4) by (simp add: zlog_category_table_commit_rules_def)
  let ?h = "h1\<lparr>ch_map := (\<lambda>v. if v \<in> ran (ht_abs t) then Option.bind (ch_map h1 v) zlog_category_commit_rules else ch_map h1 v)\<rparr>"
  have all: "\<exists>c. ch_map ?h v = Some c \<and> steady c \<and> category_ok rh c (fit_ids rh (ca_name c) ids) \<and> ca_name c = ca_name (the (ch_map h1 v))"
    if "v \<in> ran (ht_abs t)" for v
    using assms(2) that g by fastforce
  have "table_ok t ?h"
    unfolding table_ok_def
  proof (intro conjI allI impI)
    show "str_table t" using assms(1) by (simp add: table_ok_def)
    fix k a assume ka: "ht_abs t k = Some a"
    then have "a \<in> ran (ht_abs t)" by (auto simp: ran_def)
    then show "\<exists>c. ch_map ?h a = Some c \<and> ca_name c = k" using all [of a] assms(1) ka by (fastforce simp: table_ok_def)
    show "a < ch_brk ?h" using assms(1) ka by (simp add: table_ok_def)
  qed
  then show ?thesis using eq all by (fastforce simp: table_steady_def)
qed

text \<open>After a successful update of all categories and the commit, every category of the table points only
  to rules of the new configuration, the ones that match its name, keeps no backup, and its bitmap is that of
  the new rules: no pointer to a rule of the old configuration is left when that is freed.\<close>

lemma zlog_category_table_commit_new_rules:
  assumes "table_steady t h" and "rules_ok rh ids" and "al_elems rules ids"
    and "zlog_category_table_update_rules rh t h rules m = Some (0, h1, m1)"
  shows "\<exists>h2. zlog_category_table_commit_rules t h1 = Some h2 \<and> table_steady t h2 \<and>
    (\<forall>v \<in> ran (ht_abs t). \<exists>c. ch_map h2 v = Some c \<and> category_ok rh c (fit_ids rh (ca_name c) ids))"
  by (rule table_commit_steady [OF table_update_done [OF assms]])

lemma category_new_ok:
  assumes "rules_ok rh ids" and "al_elems rules ids" and "zlog_category_new rh name rules m = Some (r, m')"
  shows "set m' \<subseteq> set m \<and> (r = None \<longrightarrow> length name > MAXLEN_PATH \<or> False \<in> set m) \<and>
    (\<forall>c. r = Some c \<longrightarrow> ca_name c = name \<and> steady c \<and> category_ok rh c (fit_ids rh name ids))"
proof (cases "length name > MAXLEN_PATH \<or> \<not> fst (alloc m)")
  case True
  then show ?thesis using assms(3) alloc_suffix [of m] alloc_False [of m]
    by (auto simp: zlog_category_new_def Let_def split: prod.splits if_splits)
next
  case False
  let ?c = "\<lparr>ca_name = name, ca_name_len = length name, ca_level_bitmap = replicate 32 0,
              ca_level_bitmap_backup = replicate 32 0, ca_fit_rules = None, ca_fit_rules_backup = None\<rparr>"
  obtain m1 where al: "alloc m = (True, m1)" using False by (cases "alloc m") auto
  have m1: "set m1 \<subseteq> set m" using alloc_suffix [of m] al by simp
  obtain rc c' m2 where o: "zlog_category_obtain_rules rh ?c rules m1 = Some (rc, c', m2)"
    and res: "if rc \<noteq> 0 then r = None \<and> m' = m2 else r = Some c' \<and> m' = m2"
    using assms(3) False al by (auto simp: zlog_category_new_def Option.bind_eq_Some_conv split: if_splits)
  have "live (ca_fit_rules ?c)" by (simp add: live_def)
  from obtain_rules_ok [OF assms(1,2) this o] res m1 show ?thesis
    by (auto simp: steady_def category_ok_def live_def dest: elems_live split: if_splits)
qed

subsection \<open>Properties\<close>

text \<open>C27: A new category points to exactly the rules that match its name, in the order of the configuration,
  or, when none does, to the last rule of the category \<open>!\<close>; and the bitmap test
  \<open>zlog_category_needless_level\<close>, by which the logging calls return early, is right: it holds for a level
  exactly when no rule of the category outputs that level, and then running all the rules changes nothing.\<close>

theorem zlog_category_filter_sound:
  assumes "rules_ok rh ids" and "al_elems rules ids"
    and "zlog_category_new rh name rules m = Some (Some c, m')" and "0 \<le> lv" and "lv < 256"
  shows "(\<exists>l. ca_fit_rules c = Some l \<and> al_elems l (fit_ids rh name ids)) \<and>
    (\<exists>b. zlog_category_needless_level c lv = Some b \<and>
      (b \<longleftrightarrow> (\<forall>i \<in> set (fit_ids rh name ids). \<not> rule_passes (the (rh i)) lv)) \<and>
      (b \<longrightarrow> zlog_category_output (\<lambda>i s. if rule_passes (the (rh i)) lv then out i s else Some (0, s)) c s = Some (0, s)))"
proof -
  have ok: "category_ok rh c (fit_ids rh name ids)" using category_new_ok [OF assms(1-3)] by blast
  then obtain l where l: "ca_fit_rules c = Some l" "al_elems l (fit_ids rh name ids)" by (auto simp: category_ok_def)
  let ?out = "\<lambda>i s. if rule_passes (the (rh i)) lv then out i s else Some (0, s)"
  have "zlog_category_output ?out c s = Some (0, s)" if "\<forall>i \<in> set (fit_ids rh name ids). \<not> rule_passes (the (rh i)) lv"
    using that by (simp add: category_output_elems [OF l] output_loop_skips)
  then show ?thesis using l needless_eq [OF ok assms(4,5)] by auto
qed

definition sample_rules :: "unit rule_heap" where
  "sample_rules = (\<lambda>i. if i = 0 then Some \<lparr>ru_category = ''*'', ru_compare_char = CHR ''='', ru_level = 20,
     ru_level_bitmap = the (level_bitmap (CHR ''='') 20)\<rparr> else None)"

definition sample_list :: "nat zc_arraylist" where
  "sample_list = \<lparr>al_array = Some [Some 0], al_len = 1, al_size = 1, al_del = True\<rparr>"

lemma sample_ok: "rules_ok sample_rules [0]" "al_elems sample_list [0]"
proof -
  obtain bm where "level_bitmap (CHR ''='') 20 = Some bm" "length bm = 32"
      "\<forall>lv < 256. bitmap_bit bm lv \<longleftrightarrow> rule_passes \<lparr>ru_category = ''*'', ru_compare_char = CHR ''='', ru_level = 20, ru_level_bitmap = bm\<rparr> (int lv)"
    using level_bitmap_passes [of "CHR ''=''" 20 "''*''"] by (auto simp: compare_chars_def)
  then show "rules_ok sample_rules [0]" by (simp add: rules_ok_def sel_ok_def sample_rules_def)
  show "al_elems sample_list [0]" by (simp add: sample_list_def al_elems_def al_rep_def)
qed

lemma sample_category: "\<exists>c m'. zlog_category_new sample_rules ''app'' sample_list [] = Some (Some c, m')"
proof -
  let ?c = "\<lparr>ca_name = ''app'', ca_name_len = length ''app'', ca_level_bitmap = replicate 32 0,
              ca_level_bitmap_backup = replicate 32 0, ca_fit_rules = None, ca_fit_rules_backup = None\<rparr>"
  have "live (ca_fit_rules ?c)" by (simp add: live_def)
  from obtain_rules_succeeds [OF sample_ok this, of "[]"] show ?thesis
    by (auto simp: zlog_category_new_def MAXLEN_PATH_def)
qed

theorem zlog_category_filter_sound_witness:
  "\<exists>c b. zlog_category_needless_level c 40 = Some b \<and>
      (b \<longleftrightarrow> (\<forall>i \<in> set (fit_ids sample_rules ''app'' [0]). \<not> rule_passes (the (sample_rules i)) 40))"
proof -
  obtain c m' where "zlog_category_new sample_rules ''app'' sample_list [] = Some (Some c, m')" using sample_category by blast
  from zlog_category_filter_sound [OF sample_ok this, of 40 "\<lambda>i s. Some (1, s)" "()"] show ?thesis by auto
qed

text \<open>C28: Rolling back undoes an update of all categories: from a table whose categories are in use, whatever
  \<open>zlog_category_table_update_rules\<close> returns, after success as well as after a failure in the middle of the
  table, \<open>zlog_category_table_rollback_rules\<close> brings back exactly the categories there were.\<close>

theorem zlog_category_table_rollback_restores:
  assumes "table_steady t h" and "rules_ok rh ids" and "al_elems rules ids"
    and "zlog_category_table_update_rules rh t h rules m = Some (rc, h1, m1)"
  shows "zlog_category_table_rollback_rules t h1 = Some h"
  using table_update_rel [OF assms] assms(1)
  by (intro table_rollback_back) (auto simp: table_steady_def)

definition sample_table :: category_table where
  "sample_table = the (fst (zlog_category_table_new []))"

lemma sample_table_steady: "table_steady sample_table \<lparr>ch_map = Map.empty, ch_brk = 0\<rparr>"
proof -
  have "zc_hashtable_new 20 zc_hashtable_str_hash zc_hashtable_str_equal False True [] = (Some sample_table, [])"
    by (simp add: sample_table_def zlog_category_table_new_def zc_hashtable_new_def)
  from str_table_new [OF this] show ?thesis by (simp add: table_steady_def table_ok_def)
qed

lemma sample_update: "\<exists>m1. zlog_category_table_update_rules sample_rules sample_table \<lparr>ch_map = Map.empty, ch_brk = 0\<rparr> sample_list [] =
    Some (0, \<lparr>ch_map = Map.empty, ch_brk = 0\<rparr>, m1)"
proof -
  let ?h = "\<lparr>ch_map = Map.empty, ch_brk = 0\<rparr>"
  have tok: "table_ok sample_table ?h" using sample_table_steady by (simp add: table_steady_def)
  obtain as where as: "zc_hashtable_foreach sample_table = Some as" "set (table_values sample_table as) = ran (ht_abs sample_table)"
    by (rule table_foreach [OF tok])
  have "ran (ht_abs sample_table) = {}" using tok by (auto simp: table_ok_def ran_def)
  then have "as = []" using as(2) by (simp add: table_values_def)
  then show ?thesis using as(1) by (simp add: zlog_category_table_update_rules_def)
qed

theorem zlog_category_table_rollback_restores_witness:
  "\<exists>h1. zlog_category_table_rollback_rules sample_table h1 = Some \<lparr>ch_map = Map.empty, ch_brk = 0\<rparr>"
  using sample_update zlog_category_table_rollback_restores [OF sample_table_steady sample_ok] by blast

end
