(* ===== verification/Zc_Util.thy ===== *)
theory Zc_Util
  imports Zlog_Libc
begin

text \<open>
  The two helpers of \<^verbatim>\<open>zc_util.c\<close>. \<open>zc_parse_byte_size\<close> reads sizes such as \<open>10MB\<close>;
  \<open>zc_str_replace_env\<close> replaces \<open>%E(NAME)\<close> by the value of an environment variable, in place. The second
  goes on scanning at an address and not at a position of the text, so it is modelled on the whole
  character array: a list of bytes in which strings end at the first zero byte.
\<close>

definition strtol :: "string \<Rightarrow> int" where
  "strtol s = (case scan_number 10 (dropWhile isspace s) of None \<Rightarrow> 0 | Some (v, _) \<Rightarrow> v)"

definition LONG_MAX :: int where "LONG_MAX = 2 ^ 63 - 1"

text \<open>Multiplication of a \<open>long\<close>: an overflow is undefined behaviour.\<close>

definition long_times :: "int \<Rightarrow> int \<Rightarrow> int option" where
  "long_times a b = (if - LONG_MAX - 1 \<le> a * b \<and> a * b \<le> LONG_MAX then Some (a * b) else None)"

definition zc_parse_byte_size :: "string \<Rightarrow> nat option" where
  "zc_parse_byte_size astring =
     (let s = filter (\<lambda>c. \<not> isspace c) astring; sz = int (length s); res = strtol s in
      if res \<le> 0 then Some 0
      else do {
        z \<leftarrow> cell s (sz - 1);
        (c, m) \<leftarrow> (if z = CHR ''B'' \<or> z = CHR ''b''
                   then do { c \<leftarrow> cell s (sz - 2); Some (c, 1024) }
                   else Some (z, 1000 :: int));
        res \<leftarrow> (if c = CHR ''K'' \<or> c = CHR ''k'' then long_times res m
                else if c = CHR ''M'' \<or> c = CHR ''m'' then long_times res (m * m)
                else if c = CHR ''G'' \<or> c = CHR ''g'' then long_times res (m * m * m)
                else Some res);
        Some (nat res)
      })"

subsection \<open>Environment variables\<close>

text \<open>The string that starts at an index of a character array; without a zero byte up to the end it is undefined.\<close>

definition cstr :: "string \<Rightarrow> nat \<Rightarrow> string option" where
  "cstr blk i = (if CHR 0x00 \<in> set (drop i blk) then Some (takeWhile (\<lambda>c. c \<noteq> CHR 0x00) (drop i blk)) else None)"

definition fmt_char :: "char \<Rightarrow> bool" where
  "fmt_char c \<longleftrightarrow> c = CHR ''.'' \<or> isdigit c \<or> c = CHR ''-''"

text \<open>
  \<open>snprintf\<close> of one string with the conversion \<open>%<fmt>s\<close>. The characters of \<open>fmt\<close> are flags, a width
  and a precision; \<open>None\<close> for any other arrangement of them, and for the flag \<open>0\<close>, where the behaviour
  of \<open>snprintf\<close> is undefined.
\<close>

definition printf_str :: "string \<Rightarrow> string \<Rightarrow> string option" where
  "printf_str fmt v =
     (let t = dropWhile (\<lambda>c. c = CHR ''-'') fmt;
          w = takeWhile isdigit t; u = dropWhile isdigit t;
          (prec, rest) = (case u of [] \<Rightarrow> (None, [])
             | c # cs \<Rightarrow> if c = CHR ''.'' then (Some (nat (digits_val 10 (takeWhile isdigit cs))), dropWhile isdigit cs)
                        else (None, u));
          cut = (case prec of None \<Rightarrow> v | Some n \<Rightarrow> take n v);
          pad = replicate (nat (digits_val 10 w) - length cut) (CHR '' '')
      in
        if rest \<noteq> [] \<or> (w \<noteq> [] \<and> hd w = CHR ''0'') then None
        else Some (if fmt \<noteq> t then cut @ pad else pad @ cut))"

definition env_ref :: "scan_item list" where
  "env_ref = [ScanLit (CHR ''E''), ScanLit (CHR ''(''), ScanSet (\<lambda>c. c \<noteq> CHR '')''), ScanLit (CHR '')''), ScanCount]"

lemma cstr_Some: "cstr blk i = Some s \<Longrightarrow> i + length s < length blk \<and> s = take (length s) (drop i blk) \<and> blk ! (i + length s) = CHR 0x00"
proof -
  assume "cstr blk i = Some s"
  then have s: "s = takeWhile (\<lambda>c. c \<noteq> CHR 0x00) (drop i blk)" and z: "CHR 0x00 \<in> set (drop i blk)"
    by (auto simp: cstr_def split: if_splits)
  have len: "length s < length (drop i blk)"
    using z unfolding s by (metis (mono_tags, lifting) length_takeWhile_le le_neq_implies_less set_takeWhileD takeWhile_eq_take take_all le_refl)
  have "drop i blk ! length s = CHR 0x00" using nth_length_takeWhile [of "\<lambda>c. c \<noteq> CHR 0x00" "drop i blk"] len s by simp
  then show ?thesis using len by (simp add: s takeWhile_eq_take [symmetric] add.commute less_diff_conv)
qed

text \<open>
  The loop of \<open>zc_str_replace_env\<close> from the index \<open>q\<close> on; \<open>getenv\<close> gives the environment and \<open>n\<close> is the
  variable \<open>str_len\<close>. An unset variable passes a null pointer to \<open>snprintf\<close>, which is undefined. The
  variable \<open>nread\<close> keeps the length of the format when the second \<open>sscanf\<close> does not reach \<open>%n\<close>.
\<close>

function replace_env_loop ::
  "(string \<Rightarrow> string option) \<Rightarrow> nat \<Rightarrow> string \<Rightarrow> nat \<Rightarrow> int \<Rightarrow> (int \<times> string) option" where
  "replace_env_loop getenv str_size blk q n = do {
     s \<leftarrow> cstr blk q;
     if CHR ''%'' \<notin> set s then Some (0, blk)
     else
       let p = q + length (takeWhile (\<lambda>c. c \<noteq> CHR ''%'') s);
           t = drop (p + 1 - q) s;
           fmt = takeWhile fmt_char t;
           q1 = p + 1 + length fmt;
           u = drop (length fmt) t;
           vs = sscanf env_ref u
       in
         if nscan vs = 0 \<and> \<not> scan_eof env_ref u then replace_env_loop getenv str_size blk q1 n
         else
           let q2 = q1 + nat (val_int (int (length fmt)) vs 1) in do {
             c \<leftarrow> cell blk (int q2 - 1);
             if c \<noteq> CHR '')'' then Some (-1, blk)
             else do {
               v \<leftarrow> getenv (val_str vs 0);
               env_value \<leftarrow> printf_str fmt v;
               if length env_value \<ge> MAXLEN_CFG_LINE + 1 then Some (-1, blk)
               else
                 let n = n - (int q2 - int p) + int (length env_value) in
                 if n < 0 \<or> n > int str_size - 1 then Some (-1, blk)
                 else do {
                   r \<leftarrow> cstr blk q2;
                   blk' \<leftarrow> write_at blk (p + length env_value) (r @ [CHR 0x00]);
                   blk' \<leftarrow> write_at blk' p env_value;
                   replace_env_loop getenv str_size blk' q2 n
                 }
             }
           }
   }"
  by pat_completeness auto

termination
  by (relation "measure (\<lambda>(_, _, blk, q, _). length blk - q)")
     (auto dest!: cstr_Some write_at_length)

definition zc_str_replace_env ::
  "(string \<Rightarrow> string option) \<Rightarrow> string \<Rightarrow> nat \<Rightarrow> (int \<times> string) option" where
  "zc_str_replace_env getenv blk str_size = do {
     s \<leftarrow> cstr blk 0;
     replace_env_loop getenv str_size blk 0 (int (length s))
   }"

subsection \<open>Sizes\<close>

text \<open>The suffixes that the configuration documents, and what they multiply by.\<close>

definition size_units :: "(string \<times> int) list" where
  "size_units = [('''', 1), (''B'', 1), (''b'', 1), (''K'', 1000), (''k'', 1000), (''KB'', 1024), (''kb'', 1024),
     (''M'', 1000 ^ 2), (''m'', 1000 ^ 2), (''MB'', 1024 ^ 2), (''mb'', 1024 ^ 2),
     (''G'', 1000 ^ 3), (''g'', 1000 ^ 3), (''GB'', 1024 ^ 3), (''gb'', 1024 ^ 3)]"

lemma isdigit_range: "isdigit c \<Longrightarrow> of_char c < (58 :: nat)"
  by (simp add: isdigit_def Let_def)

lemma isdigit_not: "isdigit c \<Longrightarrow> \<not> isspace c \<and> c \<noteq> CHR ''-'' \<and> c \<noteq> CHR ''+''"
  by (auto simp: isdigit_def isspace_def Let_def)

lemma unit_chars: "(u, k) \<in> set size_units \<Longrightarrow> u \<noteq> [] \<Longrightarrow> \<not> isdigit (hd u)"
  by (auto simp: size_units_def isdigit_def)

lemma isdigit_char: "isdigit c \<Longrightarrow> c \<notin> {CHR ''B'', CHR ''b'', CHR ''K'', CHR ''k'', CHR ''M'', CHR ''m'', CHR ''G'', CHR ''g''}"
  by (auto simp: isdigit_def)

lemma strtol_digits:
  assumes "ds \<noteq> []" and "list_all isdigit ds" and "u \<noteq> [] \<Longrightarrow> \<not> isdigit (hd u)"
  shows "strtol (ds @ u) = clamp_long (digits_val 10 ds)"
proof -
  obtain c cs where ds: "ds = c # cs" using assms(1) by (cases ds) auto
  then have c: "\<not> isspace c" "c \<noteq> CHR ''-''" "c \<noteq> CHR ''+''" using assms(2) isdigit_not by auto
  have "takeWhile (\<lambda>c. isdigit c \<and> of_char c < (48 + 10 :: nat)) (ds @ u) = ds"
    using assms(2,3) isdigit_range by (cases u) (auto simp: takeWhile_append list_all_iff)
  then show ?thesis using c by (simp add: strtol_def scan_number_def ds)
qed

lemma cell_append_last: "cell (xs @ [x]) (int (length xs)) = Some x"
  using cell_nat [of "length xs" "xs @ [x]"] by simp

lemma cell_append_two: "cell (xs @ [x, y]) (int (length xs)) = Some x"
  "cell (xs @ [x, y]) (1 + int (length xs)) = Some y"
  using cell_nat [of "length xs" "xs @ [x, y]"] cell_nat [of "Suc (length xs)" "xs @ [x, y]"]
  by (simp_all add: nth_append add.commute)

lemma parse_byte_size_eval:
  assumes "ds \<noteq> []" and "list_all isdigit ds" and "0 < digits_val 10 ds" and "digits_val 10 ds \<le> LONG_MAX"
    and "filter (\<lambda>c. \<not> isspace c) s = ds @ u" and "(u, k) \<in> set size_units"
  shows "zc_parse_byte_size s = map_option nat (if k = 1 then Some (digits_val 10 ds) else long_times (digits_val 10 ds) k)"
proof -
  have n: "strtol (ds @ u) = digits_val 10 ds"
    using strtol_digits [OF assms(1,2) unit_chars [OF assms(6)]] assms(3,4) by (simp add: clamp_long_def LONG_MAX_def)
  obtain es d where ds: "ds = es @ [d]" and d: "isdigit d" using assms(1,2) by (cases ds rule: rev_cases) auto
  note d' = isdigit_char [OF d]
  have z: "cell (es @ [d]) (int (length es)) = Some d" "\<And>x. cell (es @ [d, x]) (int (length es)) = Some d"
    "\<And>x. cell (es @ [d, x]) (1 + int (length es)) = Some x" "\<And>x y. cell (es @ [d, x, y]) (1 + int (length es)) = Some x"
    "\<And>x y. cell (es @ [d, x, y]) (2 + int (length es)) = Some y"
    using cell_append_last [of es d] cell_append_two [of es d] cell_append_two [of "es @ [d]"] by simp_all
  show ?thesis
    using assms(3,6) n d' unfolding zc_parse_byte_size_def assms(5) ds Let_def
    by (auto simp: size_units_def z z [simplified add.commute [of _ "int (length es)"]] map_option_case split: option.splits)
qed



subsection \<open>Replacing environment variables\<close>

text \<open>After a replacement the scan goes on at the old address and not behind the inserted value. When the
  value is shorter than the reference, the text behind it has moved in front of that address: of two
  references in a row the second is left in place, although the call succeeds. A defect.\<close>

theorem zc_str_replace_env_skips:
  "\<exists>rest. zc_str_replace_env (\<lambda>k. if k = ''A'' then Some ''1'' else None)
       (''%E(A)%E(A)'' @ replicate 6 (CHR 0x00)) 16 = Some (0, ''1%E(A)'' @ CHR 0x00 # rest)"
  by (intro exI [of _ "''(A)'' @ replicate 6 (CHR 0x00)"]) code_simp

lemma cstr_at: "CHR 0x00 \<notin> set s \<Longrightarrow> cstr (xs @ s @ CHR 0x00 # ys) (length xs) = Some s"
  by (simp add: cstr_def takeWhile_append)

lemma cstr_at0: "CHR 0x00 \<notin> set s \<Longrightarrow> cstr (s @ CHR 0x00 # ys) 0 = Some s"
  using cstr_at [of s "[]" ys] by simp

lemma sscanf_env_ref:
  assumes "key \<noteq> []" and "CHR '')'' \<notin> set key"
  shows "sscanf env_ref (CHR ''E'' # CHR ''('' # key @ CHR '')'' # post) = [VStr key, VCount (length key + 3)]"
proof -
  have "takeWhile (\<lambda>c. c \<noteq> CHR '')'') (key @ CHR '')'' # post) = key" using assms(2) by (auto simp: takeWhile_append)
  then show ?thesis using assms(1) by (simp add: sscanf_def env_ref_def Let_def)
qed

declare replace_env_loop.simps [simp del]

text \<open>One replacement.\<close>

lemma replace_env_step:
  assumes "cstr blk q = Some s" and "s = pre @ CHR ''%'' # u" and "CHR ''%'' \<notin> set pre" and "takeWhile fmt_char u = []"
    and "sscanf env_ref u = [VStr key, VCount k]" and "cell blk (int (q + length pre + 1 + k) - 1) = Some (CHR '')'')"
    and "getenv key = Some v" and "length v \<le> MAXLEN_CFG_LINE" and "cstr blk (q + length pre + 1 + k) = Some r"
    and "write_at blk (q + length pre + length v) (r @ [CHR 0x00]) = Some b" and "write_at b (q + length pre) v = Some blk'"
    and "n' = n - (int (q + length pre + 1 + k) - int (q + length pre)) + int (length v)" and "\<not> (n' < 0 \<or> n' > int str_size - 1)"
  shows "replace_env_loop getenv str_size blk q n = replace_env_loop getenv str_size blk' (q + length pre + 1 + k) n'"
proof -
  have tw: "takeWhile (\<lambda>c. c \<noteq> CHR ''%'') s = pre" "CHR ''%'' \<in> set s" "drop (q + length pre + 1 - q) s = u"
    using assms(2,3) by (auto simp: takeWhile_append)
  have vs: "nscan [VStr key, VCount k] = 1" "val_str [VStr key, VCount k] 0 = key" "val_int (int 0) [VStr key, VCount k] 1 = int k"
    by (simp_all add: nscan_def val_str_def val_int_def)
  have "printf_str [] v = Some v" "\<not> MAXLEN_CFG_LINE + 1 \<le> length v" using assms(8) by (simp_all add: printf_str_def digits_val_def)
  then show ?thesis
    unfolding replace_env_loop.simps [of getenv str_size blk q n]
    by (simp only: assms(1,4-7) assms(9-11) assms(12) [symmetric] assms(13) Let_def Option.bind.simps tw vs list.size drop0 add_0_right nat_int
        if_False if_True not_True_eq_False simp_thms one_neq_zero cong: if_weak_cong)
qed

text \<open>From the old address on there is no further reference when the value and the rest of the text have none.\<close>

lemma no_percent_behind:
  assumes "CHR 0x00 \<notin> set (v @ post)" and "CHR ''%'' \<notin> set (v @ post)" and "length ref + length post + length pre < length blk"
    and "blk = pre @ ref @ post @ CHR 0x00 # junk"
    and "blk' = pre @ v @ post @ CHR 0x00 # drop (length pre + length v + length post + 1) blk"
  shows "\<exists>s. cstr blk' (length pre + length ref) = Some s \<and> CHR ''%'' \<notin> set s"
proof (cases "length ref \<le> length (v @ post)")
  case True
  let ?a = "take (length ref) (v @ post)" and ?b = "drop (length ref) (v @ post)"
  have "blk' = (pre @ ?a) @ ?b @ CHR 0x00 # drop (length pre + length v + length post + 1) blk"
    unfolding assms(5) by (metis append.assoc append_take_drop_id)
  moreover have "length (pre @ ?a) = length pre + length ref" using True by simp
  moreover have "CHR 0x00 \<notin> set ?b" "CHR ''%'' \<notin> set ?b" using assms(1,2) by (blast dest: in_set_dropD)+
  ultimately show ?thesis using cstr_at by metis
next
  case False
  then have "drop (length pre + length ref) blk' = drop (length pre + length ref) blk"
    unfolding assms(5) by (cases "length ref + length pre") (simp_all add: drop_Cons' add.commute)
  also have "\<dots> = post @ CHR 0x00 # junk" by (simp add: assms(4))
  finally show ?thesis using assms(1,2) by (simp add: cstr_def takeWhile_append)
qed



end
