(* ===== verification/Zlog_Event.thy ===== *)
theory Zlog_Event
  imports Zlog_Mdc Zlog_Libc
begin

text \<open>
  Events (\<^verbatim>\<open>event.c\<close>) and the state of a thread (\<^verbatim>\<open>thread.c\<close>): what one logging call is about,
  the context of the thread and the buffers in which its messages and paths are built.

  What the code asks the system for is split in two: \<open>libc\<close> are its answers that do not change
  (host name, thread, environment, time zone and locale), and the record \<open>sys\<close> is the part of the system
  that changes: the allocator, the clock (the answers of successive calls of \<open>gettimeofday\<close>, as seconds
  and microseconds) and the process id. Later theories extend it by files.
\<close>

record tm =
  tm_sec :: int
  tm_min :: int
  tm_hour :: int
  tm_mday :: int
  tm_mon :: int
  tm_year :: int
  tm_wday :: int
  tm_yday :: int
  tm_isdst :: int

text \<open>\<open>lc_expand\<close> is the text that \<open>strftime\<close> produces for a format and a time.\<close>

record libc =
  lc_hostname :: "string option"
  lc_self :: "64 word"
  lc_getenv :: "string \<Rightarrow> string option"
  lc_localtime :: "int \<Rightarrow> tm"
  lc_expand :: "string \<Rightarrow> tm \<Rightarrow> string"

definition strftime :: "libc \<Rightarrow> nat \<Rightarrow> string \<Rightarrow> tm \<Rightarrow> string" where
  "strftime lc n fmt t = (let s = lc_expand lc fmt t in if length s < n then s else [])"

record sys =
  sy_mem :: mem
  sy_clock :: "nat \<Rightarrow> int \<times> int"
  sy_ticks :: nat
  sy_pid :: int

definition gettimeofday :: "'z sys_scheme \<Rightarrow> (int \<times> int) \<times> 'z sys_scheme" where
  "gettimeofday w = (sy_clock w (sy_ticks w), w\<lparr>sy_ticks := sy_ticks w + 1\<rparr>)"

datatype zlog_event_cmd = ZLOG_FMT | ZLOG_HEX

record zlog_time_cache =
  tc_str :: string
  tc_len :: nat
  tc_sec :: int

text \<open>
  The event. A format and its arguments enter through the text that \<open>vsnprintf\<close> makes of them: \<open>ev_str_format\<close>
  is \<open>None\<close> for a null format, and \<open>Some None\<close> for a format with an encoding error.
\<close>

record zlog_event =
  ev_category_name :: string
  ev_category_name_len :: nat
  ev_host_name :: string
  ev_host_name_len :: nat
  ev_file :: "string option"
  ev_file_len :: nat
  ev_func :: "string option"
  ev_func_len :: nat
  ev_line :: "64 word"
  ev_level :: int
  ev_hex_buf :: "string option"
  ev_hex_buf_len :: nat
  ev_str_format :: "string option option"
  ev_generate_cmd :: zlog_event_cmd
  ev_time_stamp :: "int \<times> int"
  ev_time_local_sec :: int
  ev_time_local :: tm
  ev_time_caches :: "zlog_time_cache list"
  ev_time_cache_count :: nat
  ev_pid :: int
  ev_last_pid :: int
  ev_pid_str :: string
  ev_pid_str_len :: nat
  ev_tid :: "64 word"
  ev_tid_str :: string
  ev_tid_str_len :: nat
  ev_tid_hex_str :: string
  ev_tid_hex_str_len :: nat

text \<open>The zeroed memory of \<open>calloc\<close>.\<close>

definition zero_tm :: tm where
  "zero_tm = \<lparr>tm_sec = 0, tm_min = 0, tm_hour = 0, tm_mday = 0, tm_mon = 0, tm_year = 0, tm_wday = 0, tm_yday = 0,
     tm_isdst = 0\<rparr>"

definition zero_event :: zlog_event where
  "zero_event = \<lparr>ev_category_name = [], ev_category_name_len = 0, ev_host_name = [], ev_host_name_len = 0,
     ev_file = None, ev_file_len = 0, ev_func = None, ev_func_len = 0, ev_line = 0, ev_level = 0,
     ev_hex_buf = None, ev_hex_buf_len = 0, ev_str_format = None, ev_generate_cmd = ZLOG_FMT,
     ev_time_stamp = (0, 0), ev_time_local_sec = 0, ev_time_local = zero_tm, ev_time_caches = [], ev_time_cache_count = 0,
     ev_pid = 0, ev_last_pid = 0, ev_pid_str = [], ev_pid_str_len = 0, ev_tid = 0, ev_tid_str = [], ev_tid_str_len = 0,
     ev_tid_hex_str = [], ev_tid_hex_str_len = 0\<rparr>"

text \<open>
  \<open>zlog_event_new\<close>: the event, and the number of blocks that stay allocated. \<open>zlog_event_del\<close> gives the
  number it frees. When the second \<open>calloc\<close> fails, the first block is not freed.
\<close>

definition zlog_event_del :: "zlog_event \<Rightarrow> nat" where
  "zlog_event_del e = 2"

definition zlog_event_new :: "libc \<Rightarrow> nat \<Rightarrow> mem \<Rightarrow> zlog_event option \<times> nat \<times> mem" where
  "zlog_event_new lc time_cache_count m =
     (let (ok, m) = alloc m in
      if \<not> ok then (None, 0, m)
      else let (ok, m) = alloc m in
        if \<not> ok then (None, 1, m)
        else
          let e = zero_event\<lparr>ev_time_caches := replicate time_cache_count \<lparr>tc_str = [], tc_len = 0, tc_sec = 0\<rparr>,
                             ev_time_cache_count := time_cache_count\<rparr> in
          case lc_hostname lc of
            None \<Rightarrow> (None, 2 - zlog_event_del e, m)
          | Some h \<Rightarrow>
              let host = take 256 h;
                  tid_str = base_string 10 (unat (lc_self lc));
                  tid_hex_str = ''0x'' @ base_string 16 (unat (ucast (lc_self lc) :: 32 word))
              in (Some (e\<lparr>ev_host_name := host, ev_host_name_len := length host, ev_tid := lc_self lc,
                          ev_tid_str := tid_str, ev_tid_str_len := length tid_str,
                          ev_tid_hex_str := tid_hex_str, ev_tid_hex_str_len := length tid_hex_str\<rparr>), 2, m))"

definition zlog_event_set_fmt ::
  "zlog_event \<Rightarrow> string \<Rightarrow> nat \<Rightarrow> string option \<Rightarrow> nat \<Rightarrow> string option \<Rightarrow> nat \<Rightarrow> 64 word \<Rightarrow> int \<Rightarrow>
   string option option \<Rightarrow> zlog_event" where
  "zlog_event_set_fmt e category_name category_name_len file file_len func func_len line level str_format =
     e\<lparr>ev_category_name := category_name, ev_category_name_len := category_name_len,
       ev_file := file, ev_file_len := file_len, ev_func := func, ev_func_len := func_len,
       ev_line := line, ev_level := level, ev_generate_cmd := ZLOG_FMT, ev_str_format := str_format,
       ev_pid := 0, ev_time_stamp := (0, snd (ev_time_stamp e))\<rparr>"

definition zlog_event_set_hex ::
  "zlog_event \<Rightarrow> string \<Rightarrow> nat \<Rightarrow> string option \<Rightarrow> nat \<Rightarrow> string option \<Rightarrow> nat \<Rightarrow> 64 word \<Rightarrow> int \<Rightarrow>
   string option \<Rightarrow> nat \<Rightarrow> zlog_event" where
  "zlog_event_set_hex e category_name category_name_len file file_len func func_len line level hex_buf hex_buf_len =
     e\<lparr>ev_category_name := category_name, ev_category_name_len := category_name_len,
       ev_file := file, ev_file_len := file_len, ev_func := func, ev_func_len := func_len,
       ev_line := line, ev_level := level, ev_generate_cmd := ZLOG_HEX, ev_hex_buf := hex_buf, ev_hex_buf_len := hex_buf_len,
       ev_pid := 0, ev_time_stamp := (0, snd (ev_time_stamp e))\<rparr>"

subsection \<open>Threads\<close>

record zlog_thread =
  th_init_version :: int
  th_mdc :: zlog_mdc
  th_event :: zlog_event
  th_pre_path_buf :: zlog_buf
  th_path_buf :: zlog_buf
  th_archive_path_buf :: zlog_buf
  th_pre_msg_buf :: zlog_buf
  th_msg_buf :: zlog_buf

definition truncate_mark :: string where
  "truncate_mark = ''...'' @ [CHR 0x0A]"

text \<open>
  \<open>zlog_thread_new\<close> builds the parts in order and at the label \<open>err\<close> deletes those that exist; deleting the
  context is the one that can go wrong, in its table. \<open>zlog_thread_del\<close> deletes all of them.
\<close>

definition thread_release :: "zlog_mdc option \<Rightarrow> zlog_event option \<Rightarrow> zlog_buf list \<Rightarrow> nat option" where
  "thread_release a_mdc e bufs = do {
     _ \<leftarrow> (case a_mdc of None \<Rightarrow> Some [] | Some d \<Rightarrow> zlog_mdc_del d);
     Some ((case e of None \<Rightarrow> 0 | Some e \<Rightarrow> zlog_event_del e) + sum_list (map zlog_buf_del bufs) + 1)
   }"

definition zlog_thread_del :: "zlog_thread \<Rightarrow> nat option" where
  "zlog_thread_del t = thread_release (Some (th_mdc t)) (Some (th_event t))
     [th_pre_path_buf t, th_path_buf t, th_archive_path_buf t, th_pre_msg_buf t, th_msg_buf t]"

text \<open>The sizes and marks of the five buffers, in the order they are made.\<close>

fun new_bufs :: "(nat \<times> nat \<times> string option) list \<Rightarrow> zlog_buf list \<Rightarrow> mem \<Rightarrow> bool \<times> zlog_buf list \<times> mem" where
  "new_bufs [] bs m = (True, bs, m)"
| "new_bufs ((mn, mx, mark) # ss) bs m =
     (case zlog_buf_new mn mx mark m of
        (None, m) \<Rightarrow> (False, bs, m)
      | (Some b, m) \<Rightarrow> new_bufs ss (bs @ [b]) m)"

definition thread_bufs :: "nat \<Rightarrow> nat \<Rightarrow> (nat \<times> nat \<times> string option) list" where
  "thread_bufs mn mx =
     [(MAXLEN_PATH + 1, MAXLEN_PATH + 1, None), (MAXLEN_PATH + 1, MAXLEN_PATH + 1, None),
      (MAXLEN_PATH + 1, MAXLEN_PATH + 1, None), (mn, mx, Some truncate_mark), (mn, mx, Some truncate_mark)]"

definition zlog_thread_new ::
  "libc \<Rightarrow> int \<Rightarrow> nat \<Rightarrow> nat \<Rightarrow> nat \<Rightarrow> mem \<Rightarrow> (zlog_thread option \<times> mem) option" where
  "zlog_thread_new lc init_version buf_size_min buf_size_max time_cache_count m =
     (let (ok, m) = alloc m in
      if \<not> ok then Some (None, m)
      else case zlog_mdc_new m of
        (None, m) \<Rightarrow> do { _ \<leftarrow> thread_release None None []; Some (None, m) }
      | (Some a_mdc, m) \<Rightarrow>
          (case zlog_event_new lc time_cache_count m of
             (None, _, m) \<Rightarrow> do { _ \<leftarrow> thread_release (Some a_mdc) None []; Some (None, m) }
           | (Some e, _, m) \<Rightarrow>
               (case new_bufs (thread_bufs buf_size_min buf_size_max) [] m of
                  (True, [b1, b2, b3, b4, b5], m) \<Rightarrow>
                    Some (Some \<lparr>th_init_version = init_version, th_mdc = a_mdc, th_event = e, th_pre_path_buf = b1,
                                th_path_buf = b2, th_archive_path_buf = b3, th_pre_msg_buf = b4, th_msg_buf = b5\<rparr>, m)
                | (_, bs, m) \<Rightarrow> do { _ \<leftarrow> thread_release (Some a_mdc) (Some e) bs; Some (None, m) })))"

definition zlog_thread_rebuild_msg_buf :: "zlog_thread \<Rightarrow> nat \<Rightarrow> nat \<Rightarrow> mem \<Rightarrow> int \<times> zlog_thread \<times> mem" where
  "zlog_thread_rebuild_msg_buf t buf_size_min buf_size_max m =
     (if zb_size_min (th_msg_buf t) = buf_size_min \<and> zb_size_max (th_msg_buf t) = buf_size_max then (0, t, m)
      else case zlog_buf_new buf_size_min buf_size_max (Some truncate_mark) m of
        (None, m) \<Rightarrow> (-1, t, m)
      | (Some pre, m) \<Rightarrow>
          (case zlog_buf_new buf_size_min buf_size_max (Some truncate_mark) m of
             (None, m) \<Rightarrow> (-1, t, m)
           | (Some msg, m) \<Rightarrow> (0, t\<lparr>th_pre_msg_buf := pre, th_msg_buf := msg\<rparr>, m)))"

definition zlog_thread_rebuild_event :: "libc \<Rightarrow> zlog_thread \<Rightarrow> nat \<Rightarrow> mem \<Rightarrow> int \<times> zlog_thread \<times> mem" where
  "zlog_thread_rebuild_event lc t time_cache_count m =
     (case zlog_event_new lc time_cache_count m of
        (None, _, m) \<Rightarrow> (-1, t, m)
      | (Some e, _, m) \<Rightarrow> (0, t\<lparr>th_event := e\<rparr>, m))"

end
