(* ===== verification/Zlog_Os.thy ===== *)
theory Zlog_Os
  imports Zlog_Event
begin

text \<open>
  The operating system as the outputs and the rotater see it: a directory of paths (in the order in which a
  scan of the directory finds them), files as inodes, so that a renamed file stays open under its old
  descriptor, descriptors, and the messages handed to \<open>syslog\<close>. Whether a call that could succeed does succeed is
  the next answer of the script \<open>os_io\<close>, as for the allocator. A \<open>write\<close> that succeeds writes everything; there
  are no directories besides the one that holds all paths.
\<close>

record os = sys +
  os_io :: "bool list"
  os_dir :: "(string \<times> nat) list"
  os_data :: "nat \<Rightarrow> string"
  os_fd :: "int \<rightharpoonup> nat"
  os_brk_inode :: nat
  os_brk_fd :: nat
  os_sync :: "int list"
  os_syslog :: "(int \<times> string) list"

definition io_ok :: "'z os_scheme \<Rightarrow> bool \<times> 'z os_scheme" where
  "io_ok w = (case os_io w of [] \<Rightarrow> (True, w) | b # bs \<Rightarrow> (b, w\<lparr>os_io := bs\<rparr>))"

text \<open>\<open>open\<close> for writing, with \<open>O_CREAT\<close>: the descriptor, or -1.\<close>

definition os_open :: "string \<Rightarrow> 'z os_scheme \<Rightarrow> int \<times> 'z os_scheme" where
  "os_open path w =
     (let (ok, w) = io_ok w in
      if \<not> ok then (-1, w)
      else
        let (i, w) = (case map_of (os_dir w) path of
               Some i \<Rightarrow> (i, w)
             | None \<Rightarrow> let i = os_brk_inode w in
                 (i, w\<lparr>os_dir := os_dir w @ [(path, i)], os_data := (os_data w)(i := []), os_brk_inode := i + 1\<rparr>));
            fd = os_brk_fd w
        in (int fd, w\<lparr>os_fd := (os_fd w)(int fd \<mapsto> i), os_brk_fd := fd + 1\<rparr>))"

definition os_write :: "int \<Rightarrow> string \<Rightarrow> 'z os_scheme \<Rightarrow> int \<times> 'z os_scheme" where
  "os_write fd s w =
     (let (ok, w) = io_ok w in
      case os_fd w fd of
        Some i \<Rightarrow> if ok then (int (length s), w\<lparr>os_data := (os_data w)(i := os_data w i @ s)\<rparr>) else (-1, w)
      | None \<Rightarrow> (-1, w))"

definition os_close :: "int \<Rightarrow> 'z os_scheme \<Rightarrow> int \<times> 'z os_scheme" where
  "os_close fd w =
     (let (ok, w) = io_ok w in
      if os_fd w fd = None then (-1, w)
      else (if ok then 0 else -1, w\<lparr>os_fd := (os_fd w)(fd := None)\<rparr>))"

definition os_fsync :: "int \<Rightarrow> 'z os_scheme \<Rightarrow> int \<times> 'z os_scheme" where
  "os_fsync fd w =
     (let (ok, w) = io_ok w in
      if os_fd w fd = None \<or> \<not> ok then (-1, w) else (0, w\<lparr>os_sync := os_sync w @ [fd]\<rparr>))"

text \<open>\<open>stat\<close>: the size of a file.\<close>

definition os_stat :: "string \<Rightarrow> 'z os_scheme \<Rightarrow> nat option \<times> 'z os_scheme" where
  "os_stat path w =
     (let (ok, w) = io_ok w in
      (if ok then map_option (\<lambda>i. length (os_data w i)) (map_of (os_dir w) path) else None, w))"

text \<open>\<open>rename\<close> replaces the target.\<close>

definition dir_rename :: "string \<Rightarrow> string \<Rightarrow> (string \<times> nat) list \<Rightarrow> (string \<times> nat) list" where
  "dir_rename old new d =
     (if old = new then d
      else map (\<lambda>(p, i). (if p = old then new else p, i)) (filter (\<lambda>(p, i). p \<noteq> new) d))"

definition os_rename :: "string \<Rightarrow> string \<Rightarrow> 'z os_scheme \<Rightarrow> int \<times> 'z os_scheme" where
  "os_rename old new w =
     (let (ok, w) = io_ok w in
      if \<not> ok \<or> map_of (os_dir w) old = None then (-1, w)
      else (0, w\<lparr>os_dir := dir_rename old new (os_dir w)\<rparr>))"

definition os_unlink :: "string \<Rightarrow> 'z os_scheme \<Rightarrow> int \<times> 'z os_scheme" where
  "os_unlink path w =
     (let (ok, w) = io_ok w in
      if \<not> ok \<or> map_of (os_dir w) path = None then (-1, w)
      else (0, w\<lparr>os_dir := filter (\<lambda>(p, i). p \<noteq> path) (os_dir w)\<rparr>))"

text \<open>
  \<open>glob\<close> without sorting: \<open>*\<close> and \<open>?\<close> match within a component, other characters match themselves (bracket
  expressions are not modelled). \<open>None\<close> is an error.
\<close>

fun glob_match :: "string \<Rightarrow> string \<Rightarrow> bool" where
  "glob_match [] s = (s = [])"
| "glob_match (p # ps) [] = (p = CHR ''*'' \<and> glob_match ps [])"
| "glob_match (p # ps) (c # cs) =
     (if p = CHR ''*'' then glob_match ps (c # cs) \<or> (c \<noteq> CHR ''/'' \<and> glob_match (p # ps) cs)
      else if p = CHR ''?'' then c \<noteq> CHR ''/'' \<and> glob_match ps cs
      else p = c \<and> glob_match ps cs)"

definition os_glob :: "string \<Rightarrow> 'z os_scheme \<Rightarrow> string list option \<times> 'z os_scheme" where
  "os_glob pat w = (let (ok, w) = io_ok w in (if ok then Some (filter (glob_match pat) (map fst (os_dir w))) else None, w))"

text \<open>
  \<open>popen\<close>: a stream with a descriptor whose other end, a new inode without a path, stands for the input of the process;
  \<open>pclose\<close> closes it. \<open>syslog\<close> takes a message with its priority.
\<close>

definition os_popen :: "string \<Rightarrow> 'z os_scheme \<Rightarrow> int option \<times> 'z os_scheme" where
  "os_popen cmd w =
     (let (ok, w) = io_ok w in
      if \<not> ok then (None, w)
      else
        let i = os_brk_inode w; fd = os_brk_fd w in
        (Some (int fd), w\<lparr>os_data := (os_data w)(i := []), os_brk_inode := i + 1, os_fd := (os_fd w)(int fd \<mapsto> i), os_brk_fd := fd + 1\<rparr>))"

definition os_pclose :: "int \<Rightarrow> 'z os_scheme \<Rightarrow> int \<times> 'z os_scheme" where
  "os_pclose fd w = os_close fd w"

definition os_log :: "int \<Rightarrow> string \<Rightarrow> 'z os_scheme \<Rightarrow> 'z os_scheme" where
  "os_log priority s w = w\<lparr>os_syslog := os_syslog w @ [(priority, s)]\<rparr>"

text \<open>The contents of a file by its path.\<close>

definition file_text :: "'z os_scheme \<Rightarrow> string \<Rightarrow> string option" where
  "file_text w path = map_option (os_data w) (map_of (os_dir w) path)"

subsection \<open>The directory as a map\<close>

text \<open>A system in which no call fails, with one entry per path.\<close>

definition os_good :: "'z os_scheme \<Rightarrow> bool" where
  "os_good w \<longleftrightarrow> False \<notin> set (os_io w) \<and> distinct (map fst (os_dir w))"

abbreviation view :: "'z os_scheme \<Rightarrow> string \<Rightarrow> nat option" where
  "view w \<equiv> map_of (os_dir w)"

lemma io_ok_good:
  assumes "os_good w"
  obtains w' where "io_ok w = (True, w')" and "os_good w'" and "os_dir w' = os_dir w" and "sy_mem w' = sy_mem w"
    and "os_data w' = os_data w" and "os_fd w' = os_fd w"
proof (cases "os_io w")
  case Nil
  then show thesis using that [of w] assms by (simp add: io_ok_def)
next
  case (Cons b bs)
  then show thesis using that [of "w\<lparr>os_io := bs\<rparr>"] assms by (simp add: io_ok_def os_good_def)
qed

lemma map_of_filter_key: "map_of (filter (\<lambda>(p, i). p \<noteq> q) d) = (map_of d)(q := None)"
  by (rule ext, induction d) auto

lemma map_of_rename_key:
  "old \<noteq> new \<Longrightarrow> new \<notin> fst ` set d \<Longrightarrow> distinct (map fst d) \<Longrightarrow>
     map_of (map (\<lambda>(p, i). (if p = old then new else p, i)) d) = (map_of d)(old := None, new := map_of d old)"
proof (induction d)
  case (Cons x d)
  show ?case
  proof (cases "fst x = old")
    case True
    then have "old \<notin> fst ` set d" using Cons.prems by auto
    then have "map (\<lambda>(p, i). (if p = old then new else p, i)) d = d" by (intro map_idI) (auto simp: image_iff)
    moreover have "map_of d old = None" "map_of d new = None"
      using \<open>old \<notin> fst ` set d\<close> Cons.prems by (auto simp: map_of_eq_None_iff)
    ultimately show ?thesis using True Cons.prems by (auto simp: fun_eq_iff split: prod.splits)
  next
    case False
    then show ?thesis using Cons by (auto simp: fun_eq_iff split: prod.splits)
  qed
qed auto

lemma map_of_dir_rename:
  assumes "old \<noteq> new" and "distinct (map fst d)"
  shows "map_of (dir_rename old new d) = (map_of d)(old := None, new := map_of d old)"
proof -
  let ?f = "filter (\<lambda>(p, i). p \<noteq> new) d"
  have "distinct (map fst ?f)" using assms(2) by (simp add: distinct_map_filter)
  moreover have "new \<notin> fst ` set ?f" by auto
  ultimately show ?thesis using assms(1) map_of_rename_key [of old new ?f]
    by (auto simp: dir_rename_def map_of_filter_key fun_eq_iff)
qed

lemma distinct_dir_rename:
  assumes "distinct (map fst d)"
  shows "distinct (map fst (dir_rename old new d))"
proof (cases "old = new")
  case False
  let ?f = "map fst (filter (\<lambda>(p, i). p \<noteq> new) d)"
  have "distinct ?f" "new \<notin> set ?f" using assms by (auto simp: distinct_map_filter)
  then have "distinct (map (\<lambda>p. if p = old then new else p) ?f)"
    by (auto simp: distinct_map inj_on_def)
  moreover have "map fst (dir_rename old new d) = map (\<lambda>p. if p = old then new else p) ?f"
    using False by (auto simp: dir_rename_def comp_def split: prod.splits)
  ultimately show ?thesis by simp
qed (simp add: dir_rename_def assms)

lemma os_rename_view:
  assumes "os_good w" and "view w old \<noteq> None" and "old \<noteq> new"
  obtains w' where "os_rename old new w = (0, w')" and "os_good w'" and "view w' = (view w)(old := None, new := view w old)"
    and "sy_mem w' = sy_mem w"
proof -
  from io_ok_good [OF assms(1)] obtain w1 where w1: "io_ok w = (True, w1)" "os_good w1" "os_dir w1 = os_dir w" "sy_mem w1 = sy_mem w"
    by blast
  show thesis
  proof (rule that)
    show "os_rename old new w = (0, w1\<lparr>os_dir := dir_rename old new (os_dir w)\<rparr>)"
      using w1 assms(2) by (simp add: os_rename_def)
    show "os_good (w1\<lparr>os_dir := dir_rename old new (os_dir w)\<rparr>)"
      using w1 by (simp add: os_good_def distinct_dir_rename)
    show "view (w1\<lparr>os_dir := dir_rename old new (os_dir w)\<rparr>) = (view w)(old := None, new := view w old)"
      using assms map_of_dir_rename by (simp add: os_good_def)
  qed (simp add: w1)
qed

lemma os_unlink_view:
  assumes "os_good w" and "view w p \<noteq> None"
  obtains w' where "os_unlink p w = (0, w')" and "os_good w'" and "view w' = (view w)(p := None)" and "sy_mem w' = sy_mem w"
proof -
  from io_ok_good [OF assms(1)] obtain w1 where w1: "io_ok w = (True, w1)" "os_good w1" "os_dir w1 = os_dir w" "sy_mem w1 = sy_mem w"
    by blast
  show thesis
  proof (rule that)
    show "os_unlink p w = (0, w1\<lparr>os_dir := filter (\<lambda>(q, i). q \<noteq> p) (os_dir w)\<rparr>)"
      using w1 assms(2) by (simp add: os_unlink_def)
    show "os_good (w1\<lparr>os_dir := filter (\<lambda>(q, i). q \<noteq> p) (os_dir w)\<rparr>)"
      using w1 by (simp add: os_good_def distinct_map_filter)
  qed (simp_all add: w1 map_of_filter_key)
qed

subsection \<open>Patterns with one star\<close>

lemma glob_match_star: "glob_match ps cs \<Longrightarrow> glob_match (CHR ''*'' # ps) cs"
  by (cases cs) auto

lemma glob_match_prefix: "glob_match ps cs \<Longrightarrow> glob_match (pre @ ps) (pre @ cs)"
  by (induction pre) (auto intro: glob_match_star)

lemma glob_match_skip: "CHR ''/'' \<notin> set d \<Longrightarrow> glob_match (CHR ''*'' # ps) cs \<Longrightarrow> glob_match (CHR ''*'' # ps) (d @ cs)"
  by (induction d) auto

lemma glob_match_name: "CHR ''/'' \<notin> set d \<Longrightarrow> glob_match (pre @ CHR ''*'' # suf) (pre @ d @ suf)"
  using glob_match_prefix [of "[]" "[]" suf]
  by (intro glob_match_prefix glob_match_skip glob_match_star) simp_all

end
