(* ===== verification/Zlog_Numerals.thy ===== *)
theory Zlog_Numerals
  imports Zlog_Buf Zlog_Libc
begin

text \<open>The decimal numerals that the library prints are read back by its scanners to the same number.\<close>

lemma digits_val_append: "digits_val b (xs @ [c]) = digits_val b xs * int b + (of_char c - 48)"
  by (simp add: digits_val_def)

lemma isdigit_bound: "isdigit c \<and> (of_char c :: nat) < 48 + 10 \<longleftrightarrow> isdigit c"
  by (auto simp: isdigit_def Let_def)

lemma base10_digit: "n < 10 \<Longrightarrow> isdigit (hex_digits ! n) \<and> (of_char (hex_digits ! n) :: int) = 48 + int n"
proof -
  have "list_all (\<lambda>n. isdigit (hex_digits ! n) \<and> (of_char (hex_digits ! n) :: int) = 48 + int n) [0..<10]"
    by code_simp
  then show "n < 10 \<Longrightarrow> ?thesis" by (simp add: list_all_iff)
qed

lemma base10_string: "digits_val 10 (base_string 10 n) = int n \<and> list_all isdigit (base_string 10 n) \<and> base_string 10 n \<noteq> []"
proof (induction n rule: less_induct)
  case (less n)
  show ?case
  proof (cases "n < 10")
    case True
    then show ?thesis using base10_digit [OF True] by (simp add: base_string.simps [of 10 n] digits_val_def)
  next
    case False
    have "n mod 10 < 10" by simp
    note d = base10_digit [OF this]
    have "digits_val 10 (base_string 10 n) = int (n div 10) * 10 + int (n mod 10)"
      using False less.IH [of "n div 10"] d by (subst base_string.simps) (simp add: digits_val_append)
    also have "\<dots> = int n" by (simp add: zdiv_int zmod_int)
    finally show ?thesis using False less.IH [of "n div 10"] d by (simp add: base_string.simps [of 10 n])
  qed
qed

lemma digits_val_zeros: "digits_val 10 (replicate k (CHR ''0'') @ s) = digits_val 10 s"
  by (induction k) (simp_all add: digits_val_def)

lemma scan_number_digits:
  assumes "list_all isdigit p" and "p \<noteq> []" and "digits_val 10 p = int n" and "n < 2 ^ 31" and "suf \<noteq> [] \<longrightarrow> \<not> isdigit (hd suf)"
  shows "scan_number 10 (p @ suf) = Some (int n, suf)" and "dropWhile isspace (p @ suf) = p @ suf"
proof -
  obtain c cs where c: "p = c # cs" using assms(2) by (cases p) auto
  have dc: "isdigit c" using assms(1) c by simp
  show "dropWhile isspace (p @ suf) = p @ suf"
    unfolding c using dc by (simp add: isdigit_def isspace_def Let_def)
  have sgn: "c \<noteq> CHR ''-''" "c \<noteq> CHR ''+''" using dc by (auto simp: isdigit_def)
  have tw: "takeWhile isdigit (p @ suf) = p"
    using assms(1,5) by (cases suf) (simp_all add: takeWhile_append list_all_iff takeWhile_eq_all_conv)
  have cl: "clamp_long (int n) = int n" using assms(4) by (simp add: clamp_long_def)
  have "(case p @ suf of [] \<Rightarrow> (False, []) | c # cs \<Rightarrow>
              if c = CHR ''-'' then (True, cs) else if c = CHR ''+'' then (False, cs) else (False, p @ suf)) = (False, p @ suf)"
    using sgn c by simp
  then show "scan_number 10 (p @ suf) = Some (int n, suf)"
    using tw assms(2,3) c cl unfolding scan_number_def Let_def isdigit_bound by simp
qed

lemma base10_length: "n < 10 ^ Suc k \<Longrightarrow> length (base_string 10 n) \<le> Suc k"
proof (induction k arbitrary: n)
  case 0
  then show ?case by (simp add: base_string.simps [of 10 n])
next
  case (Suc k)
  then have "n div 10 < 10 ^ Suc k" by (simp add: less_mult_imp_div_less)
  from Suc.IH [OF this] show ?case by (subst base_string.simps) simp
qed

end
