(* ===== verification/Zlog_Rotater.thy ===== *)
theory Zlog_Rotater
  imports Zlog_Os Zc_Arraylist Zlog_Numerals
begin

text \<open>
  The rotater (\<^verbatim>\<open>rotater.c\<close>): it moves a log file that has grown too big to an archive, numbered by one of
  two schemes. \<open>ROLLING\<close> shifts the archives (\<open>aa.1\<close> to \<open>aa.2\<close>, \<open>aa.0\<close> to \<open>aa.1\<close>, \<open>aa\<close> to \<open>aa.0\<close>), \<open>SEQUENCE\<close>
  gives the file the next number. The mutex is a flag of the rotater; the lock on the lock file is an answer of
  the system.
\<close>

definition ROLLING :: int where "ROLLING = 1"

definition SEQUENCE :: int where "SEQUENCE = 2"

record zlog_file =
  zf_index :: int
  zf_path :: string

record zlog_rotater =
  ro_locked :: bool
  ro_lock_file :: string
  ro_lock_fd :: int
  ro_base_path :: string
  ro_archive_path :: "string option"
  ro_glob_path :: string
  ro_num_start_len :: nat
  ro_num_end_len :: nat
  ro_num_width :: int
  ro_mv_type :: int
  ro_max_count :: int
  ro_files :: "zlog_file zc_arraylist option"

definition zlog_rotater_del :: "zlog_rotater \<Rightarrow> 'z os_scheme \<Rightarrow> 'z os_scheme" where
  "zlog_rotater_del r w = (if ro_lock_fd r \<noteq> 0 then snd (os_close (ro_lock_fd r) w) else w)"

text \<open>\<open>zlog_rotater_new\<close>: the answer of the system to \<open>pthread_mutex_init\<close> comes first.\<close>

definition zlog_rotater_new :: "string \<Rightarrow> 'z os_scheme \<Rightarrow> zlog_rotater option \<times> 'z os_scheme" where
  "zlog_rotater_new lock_file w =
     (let (ok, m) = alloc (sy_mem w); w = w\<lparr>sy_mem := m\<rparr> in
      if \<not> ok then (None, w)
      else let (ok, w) = io_ok w in
        if \<not> ok then (None, w)
        else
          let r = \<lparr>ro_locked = False, ro_lock_file = [], ro_lock_fd = 0, ro_base_path = [], ro_archive_path = None, ro_glob_path = [],
                   ro_num_start_len = 0, ro_num_end_len = 0, ro_num_width = 0, ro_mv_type = 0, ro_max_count = 0, ro_files = None\<rparr>;
              (fd, w) = os_open lock_file w
          in if fd < 0 then (None, zlog_rotater_del r w)
             else (Some (r\<lparr>ro_lock_fd := fd, ro_lock_file := lock_file\<rparr>), w))"

definition zlog_file_check_new :: "zlog_rotater \<Rightarrow> string \<Rightarrow> mem \<Rightarrow> (zlog_file option \<times> mem) option" where
  "zlog_file_check_new r path m =
     (if ro_base_path r = path then Some (None, m)
      else do {
        c \<leftarrow> cell path (int (length path) - 1);
        if c = CHR ''/'' then Some (None, m)
        else
          let (ok, m) = alloc m in
          if \<not> ok then Some (None, m)
          else if length path \<ge> MAXLEN_PATH + 1 then Some (None, m)
          else if ro_num_start_len r > MAXLEN_PATH then None
          else
            let vs = sscanf [ScanInt, ScanCount] (drop (ro_num_start_len r) path);
                nread = val_int 0 vs 1
            in if ro_num_width r \<noteq> 0 \<and> nread < ro_num_width r then Some (None, m)
               else Some (Some \<lparr>zf_index = val_int 0 vs 0, zf_path = path\<rparr>, m)
      })"

definition zlog_file_cmp :: "zlog_file \<Rightarrow> zlog_file \<Rightarrow> int" where
  "zlog_file_cmp f g = (if zf_index f > zf_index g then 1 else 0)"

text \<open>The loop over the paths that \<open>glob\<close> found; -1 is the jump to \<open>err\<close>.\<close>

fun add_files ::
  "zlog_rotater \<Rightarrow> string list \<Rightarrow> zlog_file zc_arraylist \<Rightarrow> mem \<Rightarrow> (int \<times> zlog_file zc_arraylist \<times> mem) option" where
  "add_files r [] l m = Some (0, l, m)"
| "add_files r (p # ps) l m = do {
     (f, m) \<leftarrow> zlog_file_check_new r p m;
     (case f of
        None \<Rightarrow> add_files r ps l m
      | Some f \<Rightarrow> do {
          (rc, _, l, m) \<leftarrow> zc_arraylist_sortadd l zlog_file_cmp f m;
          if rc \<noteq> 0 then Some (-1, l, m) else add_files r ps l m
        })
   }"

definition zlog_rotater_add_archive_files ::
  "zlog_rotater \<Rightarrow> 'z os_scheme \<Rightarrow> (int \<times> zlog_rotater \<times> 'z os_scheme) option" where
  "zlog_rotater_add_archive_files r w =
     (case zc_arraylist_new True (sy_mem w) of
        (None, m) \<Rightarrow> Some (-1, r\<lparr>ro_files := None\<rparr>, w\<lparr>sy_mem := m\<rparr>)
      | (Some l, m) \<Rightarrow>
          let (paths, w) = os_glob (ro_glob_path r) (w\<lparr>sy_mem := m\<rparr>) in
          (case paths of
             None \<Rightarrow> Some (-1, r\<lparr>ro_files := Some l\<rparr>, w)
           | Some ps \<Rightarrow> do {
               (rc, l, m) \<leftarrow> add_files r ps l (sy_mem w);
               Some (rc, r\<lparr>ro_files := Some l\<rparr>, w\<lparr>sy_mem := m\<rparr>)
             }))"

text \<open>
  The name of the archive with number \<open>n\<close>: \<open>snprintf\<close> with \<open>"%.*s%0*d%s"\<close>; a negative width pads on the
  right. \<open>None\<close> when it does not fit.
\<close>

definition pad_number :: "int \<Rightarrow> nat \<Rightarrow> string" where
  "pad_number width n =
     (let d = base_string 10 n in
      if width \<ge> 0 then replicate (nat width - length d) (CHR ''0'') @ d
      else d @ replicate (nat (- width) - length d) (CHR '' ''))"

definition archive_name :: "zlog_rotater \<Rightarrow> nat \<Rightarrow> string option" where
  "archive_name r n =
     (let s = take (ro_num_start_len r) (ro_glob_path r) @ pad_number (ro_num_width r) n @ drop (ro_num_end_len r) (ro_glob_path r)
      in if length s \<ge> MAXLEN_PATH + 1 then None else Some s)"

text \<open>The renaming of a file to the archive with number \<open>n\<close>; the rest of the pattern is read from inside its array.\<close>

definition rename_to :: "zlog_rotater \<Rightarrow> string \<Rightarrow> nat \<Rightarrow> 'z os_scheme \<Rightarrow> (int \<times> 'z os_scheme) option" where
  "rename_to r old n w =
     (if ro_num_end_len r > MAXLEN_PATH then None
      else case archive_name r n of
        None \<Rightarrow> Some (-1, w)
      | Some p \<Rightarrow> let (rc, w) = os_rename old p w in Some (if rc \<noteq> 0 then -1 else 0, w))"

text \<open>\<open>zlog_rotater_seq_files\<close>: old archives beyond the count are removed, the file gets the next number.\<close>

fun seq_unlink :: "int \<Rightarrow> int \<Rightarrow> zlog_file option list \<Rightarrow> int \<Rightarrow> 'z os_scheme \<Rightarrow> (int \<times> 'z os_scheme) option" where
  "seq_unlink max_count len [] i w = Some (0, w)"
| "seq_unlink max_count len (p # ps) i w = do {
     f \<leftarrow> p;
     let (rc, w) = (if max_count > 0 \<and> i < len - max_count then os_unlink (zf_path f) w else (0, w));
     if rc \<noteq> 0 then Some (-1, w) else seq_unlink max_count len ps (i + 1) w
   }"

definition zlog_rotater_seq_files :: "zlog_rotater \<Rightarrow> 'z os_scheme \<Rightarrow> (int \<times> 'z os_scheme) option" where
  "zlog_rotater_seq_files r w = do {
     l \<leftarrow> ro_files r;
     ps \<leftarrow> zc_arraylist_foreach l;
     let len = int (al_len l);
     (rc, w) \<leftarrow> seq_unlink (ro_max_count r) len ps 0 w;
     if rc \<noteq> 0 then Some (-1, w)
     else do {
       j \<leftarrow> (if len > 0 then do {
               f \<leftarrow> zc_arraylist_get l (len - 1);
               (case f of
                  None \<Rightarrow> Some None
                | Some f \<Rightarrow> let j = max (len - 1) (zf_index f) + 1 in if j \<ge> 2 ^ 31 then None else Some (Some j))
             }
             else Some (Some 0));
       (case j of
          None \<Rightarrow> Some (-1, w)
        | Some j \<Rightarrow> rename_to r (ro_base_path r) (nat j) w)
     }
   }"

text \<open>\<open>zlog_rotater_roll_files\<close>: from the last archive of the list to the first.\<close>

fun roll_loop :: "zlog_rotater \<Rightarrow> zlog_file zc_arraylist \<Rightarrow> nat \<Rightarrow> 'z os_scheme \<Rightarrow> (int \<times> 'z os_scheme) option" where
  "roll_loop r l 0 w = Some (0, w)"
| "roll_loop r l (Suc i) w = do {
     f \<leftarrow> zc_arraylist_get l (int i);
     (case f of
        None \<Rightarrow> Some (-1, w)
      | Some f \<Rightarrow> do {
          (rc, w) \<leftarrow> (if ro_max_count r > 0 \<and> int i \<ge> ro_max_count r - 1 then Some (os_unlink (zf_path f) w)
                      else rename_to r (zf_path f) (i + 1) w);
          if rc \<noteq> 0 then Some (-1, w) else roll_loop r l i w
        })
   }"

definition zlog_rotater_roll_files :: "zlog_rotater \<Rightarrow> 'z os_scheme \<Rightarrow> (int \<times> 'z os_scheme) option" where
  "zlog_rotater_roll_files r w = do {
     l \<leftarrow> ro_files r;
     (rc, w) \<leftarrow> roll_loop r l (al_len l) w;
     if rc \<noteq> 0 then Some (-1, w) else rename_to r (ro_base_path r) 0 w
   }"

text \<open>
  \<open>zlog_rotater_parse_archive_path\<close>; a null archive path is undefined. The text is cut to the array and one byte too
  many is accepted as the length, as in the source. The part after the scan of \<open>"#%d%n"\<close> is a definition of its own: \<open>p\<close> is
  the rest of the path from the first \<open>#\<close> on, \<open>nread\<close> the length of \<open>#\<close> and the width.
\<close>

definition parse_mark :: "zlog_rotater \<Rightarrow> string \<Rightarrow> string \<Rightarrow> nat \<Rightarrow> int \<times> zlog_rotater" where
  "parse_mark r archive p nread =
     (let c = (if nread < length p then p ! nread else CHR 0x00); len = length archive - length p in
      if c \<noteq> CHR ''r'' \<and> c \<noteq> CHR ''s'' then (-1, r)
      else
        let r = r\<lparr>ro_mv_type := (if c = CHR ''r'' then ROLLING else SEQUENCE)\<rparr> in
        if len > MAXLEN_PATH then (-1, r)
        else
          let s = ''*'' @ drop (nread + 1) p;
              r = r\<lparr>ro_glob_path := take len archive @ take (MAXLEN_PATH - len) s\<rparr>
          in if length s > MAXLEN_PATH + 1 - len then (-1, r)
             else (0, r\<lparr>ro_num_start_len := len, ro_num_end_len := len + 1\<rparr>))"

definition zlog_rotater_parse_archive_path :: "zlog_rotater \<Rightarrow> (int \<times> zlog_rotater) option" where
  "zlog_rotater_parse_archive_path r = do {
     archive \<leftarrow> ro_archive_path r;
     if archive = [] then
       let s = ro_base_path r @ ''.*''; n = length (ro_base_path r) in
       if length s > MAXLEN_PATH + 1 then Some (-1, r\<lparr>ro_glob_path := take MAXLEN_PATH s\<rparr>)
       else Some (0, r\<lparr>ro_glob_path := take MAXLEN_PATH s, ro_mv_type := ROLLING, ro_num_width := 0,
                       ro_num_start_len := n + 1, ro_num_end_len := n + 2\<rparr>)
     else
       (case strchr archive (CHR ''#'') of
          None \<Rightarrow> Some (-1, r)
        | Some p \<Rightarrow>
            let vs = sscanf [ScanLit (CHR ''#''), ScanInt, ScanCount] p;
                nread = (if val_int 0 vs 1 = 0 then 1 else nat (val_int 0 vs 1))
            in Some (parse_mark (r\<lparr>ro_num_width := val_int (ro_num_width r) vs 0\<rparr>) archive p nread))
   }"

definition zlog_rotater_clean :: "zlog_rotater \<Rightarrow> zlog_rotater option" where
  "zlog_rotater_clean r = do {
     _ \<leftarrow> (case ro_files r of None \<Rightarrow> Some [] | Some l \<Rightarrow> zc_arraylist_del (Some l));
     Some (r\<lparr>ro_base_path := [], ro_archive_path := None, ro_max_count := 0, ro_mv_type := 0, ro_num_width := 0,
             ro_num_start_len := 0, ro_num_end_len := 0, ro_glob_path := [], ro_files := None\<rparr>)
   }"

definition zlog_rotater_lsmv ::
  "zlog_rotater \<Rightarrow> string \<Rightarrow> string option \<Rightarrow> int \<Rightarrow> 'z os_scheme \<Rightarrow> (int \<times> zlog_rotater \<times> 'z os_scheme) option" where
  "zlog_rotater_lsmv r base_path archive_path archive_max_count w = do {
     (rc, r) \<leftarrow> zlog_rotater_parse_archive_path (r\<lparr>ro_base_path := base_path, ro_archive_path := archive_path, ro_max_count := archive_max_count\<rparr>);
     (rc, r, w) \<leftarrow> (if rc \<noteq> 0 then Some (rc, r, w) else zlog_rotater_add_archive_files r w);
     (rc, w) \<leftarrow> (if rc \<noteq> 0 then Some (rc, w)
                 else if ro_mv_type r = ROLLING then zlog_rotater_roll_files r w
                 else if ro_mv_type r = SEQUENCE then zlog_rotater_seq_files r w
                 else Some (0, w));
     r \<leftarrow> zlog_rotater_clean r;
     Some (if rc \<noteq> 0 then -1 else 0, r, w)
   }"

definition zlog_rotater_trylock :: "zlog_rotater \<Rightarrow> 'z os_scheme \<Rightarrow> int \<times> zlog_rotater \<times> 'z os_scheme" where
  "zlog_rotater_trylock r w =
     (if ro_locked r then (-1, r, w)
      else
        let r = r\<lparr>ro_locked := True\<rparr>; (ok, w) = io_ok w in
        if \<not> ok then (-1, r\<lparr>ro_locked := False\<rparr>, w) else (0, r, w))"

definition zlog_rotater_unlock :: "zlog_rotater \<Rightarrow> 'z os_scheme \<Rightarrow> int \<times> zlog_rotater \<times> 'z os_scheme" where
  "zlog_rotater_unlock r w = (let (ok, w) = io_ok w in (if ok then 0 else -1, r\<lparr>ro_locked := False\<rparr>, w))"

text \<open>\<open>zlog_rotater_rotate\<close>: the sizes are compared as unsigned 64 bit numbers.\<close>

definition zlog_rotater_rotate ::
  "zlog_rotater \<Rightarrow> string \<Rightarrow> nat \<Rightarrow> string option \<Rightarrow> int \<Rightarrow> int \<Rightarrow> 'z os_scheme \<Rightarrow> (int \<times> zlog_rotater \<times> 'z os_scheme) option" where
  "zlog_rotater_rotate r base_path msg_len archive_path archive_max_size archive_max_count w =
     (case zlog_rotater_trylock r w of (rc, r, w) \<Rightarrow>
      if rc \<noteq> 0 then Some (0, r, w)
      else
        let (info, w) = os_stat base_path w in do {
          (rc, r, w) \<leftarrow>
            (case info of
               None \<Rightarrow> Some (-1, r, w)
             | Some st_size \<Rightarrow>
                 if (int st_size + int msg_len) mod 2 ^ 64 \<le> archive_max_size mod 2 ^ 64 then Some (0, r, w)
                 else do {
                   (rc, r, w) \<leftarrow> zlog_rotater_lsmv r base_path archive_path archive_max_count w;
                   Some (if rc \<noteq> 0 then -1 else 0, r, w)
                 });
          case zlog_rotater_unlock r w of (_, r, w) \<Rightarrow> Some (rc, r, w)
        })"

subsection \<open>Names and numbers\<close>

lemma pad_number_digits:
  assumes "0 \<le> width"
  shows "digits_val 10 (pad_number width n) = int n" and "list_all isdigit (pad_number width n)" and "pad_number width n \<noteq> []"
    and "width \<le> int (length (pad_number width n))"
proof -
  let ?d = "base_string 10 n"
  have z: "isdigit (CHR ''0'')" by code_simp
  have p: "pad_number width n = replicate (nat width - length ?d) (CHR ''0'') @ ?d"
    using assms by (simp add: pad_number_def Let_def)
  show "digits_val 10 (pad_number width n) = int n" "pad_number width n \<noteq> []"
    unfolding p digits_val_zeros using base10_string [of n] by simp_all
  show "list_all isdigit (pad_number width n)"
    unfolding p list_all_append using base10_string [of n] z by (simp add: list_all_iff)
  show "width \<le> int (length (pad_number width n))" unfolding p by simp
qed

lemma pad_number_inj: "0 \<le> width \<Longrightarrow> pad_number width n = pad_number width m \<longleftrightarrow> n = m"
  using pad_number_digits(1) [of width n] pad_number_digits(1) [of width m] by (metis of_nat_eq_iff)

text \<open>Reading the number of an archive back from its name.\<close>

lemma scan_padded:
  assumes "0 \<le> width" and "n < 2 ^ 31" and "suf \<noteq> [] \<longrightarrow> \<not> isdigit (hd suf)"
  shows "sscanf [ScanInt, ScanCount] (pad_number width n @ suf) = [VInt (int n), VCount (length (pad_number width n))]"
proof -
  note d = pad_number_digits [OF assms(1), of n]
  show ?thesis
    using scan_number_digits [OF d(2,3,1) assms(2,3)] d(3) assms(2) by (simp add: sscanf_def)
qed

subsection \<open>What a rotation leaves alone\<close>

text \<open>A rotation renames and removes paths; it never writes to a file or touches a descriptor.\<close>

definition same_contents :: "'z os_scheme \<Rightarrow> 'z os_scheme \<Rightarrow> bool" where
  "same_contents w w' \<longleftrightarrow> os_data w' = os_data w \<and> os_fd w' = os_fd w \<and> os_brk_inode w' = os_brk_inode w \<and> os_brk_fd w' = os_brk_fd w"

named_theorems same_contents_ops \<open>operations that keep the contents\<close>

lemma same_contents_refl [simp]: "same_contents w w"
  by (simp add: same_contents_def)

lemma same_contents_trans [trans]: "same_contents w w' \<Longrightarrow> same_contents w' w'' \<Longrightarrow> same_contents w w''"
  by (simp add: same_contents_def)

lemma same_contents_mem [simp]: "same_contents w (w'\<lparr>sy_mem := m\<rparr>) \<longleftrightarrow> same_contents w w'"
  "same_contents (w\<lparr>sy_mem := m\<rparr>) w' \<longleftrightarrow> same_contents w w'"
  by (simp_all add: same_contents_def)

lemma io_ok_same [same_contents_ops]: "io_ok w = (b, w') \<Longrightarrow> same_contents w w'"
  by (auto simp: io_ok_def same_contents_def split: list.splits)

lemma dir_ops_same [same_contents_ops]:
  "os_rename p q w = (rc, w') \<Longrightarrow> same_contents w w'"
  "os_unlink p w = (rc, w') \<Longrightarrow> same_contents w w'"
  "os_glob p w = (ps, w') \<Longrightarrow> same_contents w w'"
  "os_stat p w = (n, w') \<Longrightarrow> same_contents w w'"
  by (cases "io_ok w", frule io_ok_same,
      auto simp: os_rename_def os_unlink_def os_glob_def os_stat_def same_contents_def split: if_splits)+

lemma rename_to_same [same_contents_ops]: "rename_to r p n w = Some (rc, w') \<Longrightarrow> same_contents w w'"
  by (auto simp: rename_to_def split: if_splits option.splits prod.splits dest: dir_ops_same)

lemma seq_unlink_same: "seq_unlink c n ps i w = Some (rc, w') \<Longrightarrow> same_contents w w'"
  by (induction ps arbitrary: i w)
    (auto split: Option.bind_splits if_splits prod.splits dest: dir_ops_same, meson dir_ops_same same_contents_trans)

lemma zlog_rotater_seq_files_same [same_contents_ops]: "zlog_rotater_seq_files r w = Some (rc, w') \<Longrightarrow> same_contents w w'"
  by (auto simp: zlog_rotater_seq_files_def Let_def split: Option.bind_splits if_splits option.splits
      dest!: seq_unlink_same rename_to_same dest: same_contents_trans)

lemma roll_loop_same: "roll_loop r l n w = Some (rc, w') \<Longrightarrow> same_contents w w'"
proof (induction n arbitrary: w)
  case (Suc i)
  then show ?case
    by (auto split: Option.bind_splits if_splits option.splits prod.splits dest!: dir_ops_same rename_to_same dest: same_contents_trans)
qed simp

lemma zlog_rotater_roll_files_same [same_contents_ops]: "zlog_rotater_roll_files r w = Some (rc, w') \<Longrightarrow> same_contents w w'"
  by (auto simp: zlog_rotater_roll_files_def split: Option.bind_splits if_splits
      dest!: roll_loop_same rename_to_same dest: same_contents_trans)

lemma zlog_rotater_add_archive_files_same [same_contents_ops]:
  "zlog_rotater_add_archive_files r w = Some (rc, r', w') \<Longrightarrow> same_contents w w'"
  by (auto simp: zlog_rotater_add_archive_files_def split: Option.bind_splits option.splits prod.splits dest!: dir_ops_same)

text \<open>The rotater between two rotations.\<close>

definition rotater_idle :: "zlog_rotater \<Rightarrow> bool" where
  "rotater_idle r \<longleftrightarrow> \<not> ro_locked r \<and> ro_base_path r = [] \<and> ro_archive_path r = None \<and> ro_glob_path r = [] \<and> ro_num_start_len r = 0 \<and>
     ro_num_end_len r = 0 \<and> ro_num_width r = 0 \<and> ro_mv_type r = 0 \<and> ro_max_count r = 0 \<and> ro_files r = None"

lemma parse_mark_frame:
  "parse_mark r a p n = (rc, r') \<Longrightarrow>
     ro_locked r' = ro_locked r \<and> ro_lock_file r' = ro_lock_file r \<and> ro_lock_fd r' = ro_lock_fd r \<and> ro_files r' = ro_files r \<and>
     ro_base_path r' = ro_base_path r \<and> ro_max_count r' = ro_max_count r"
  unfolding parse_mark_def Let_def by (simp split: if_splits) (auto simp del: not_less)

lemma parse_archive_path_frame:
  "zlog_rotater_parse_archive_path r = Some (rc, r') \<Longrightarrow>
     ro_locked r' = ro_locked r \<and> ro_lock_file r' = ro_lock_file r \<and> ro_lock_fd r' = ro_lock_fd r \<and> ro_files r' = ro_files r \<and>
     ro_base_path r' = ro_base_path r \<and> ro_max_count r' = ro_max_count r"
  unfolding zlog_rotater_parse_archive_path_def Let_def
  by (auto split: Option.bind_splits if_splits option.splits dest!: parse_mark_frame)

lemma add_archive_files_frame:
  "zlog_rotater_add_archive_files r w = Some (rc, r', w') \<Longrightarrow> \<exists>l. r' = r\<lparr>ro_files := l\<rparr>"
  by (auto simp: zlog_rotater_add_archive_files_def split: Option.bind_splits option.splits prod.splits)

lemma zlog_rotater_clean_idle:
  assumes "zlog_rotater_clean r = Some r'" and "\<not> ro_locked r"
  shows "rotater_idle r' \<and> ro_lock_file r' = ro_lock_file r \<and> ro_lock_fd r' = ro_lock_fd r"
  using assms by (auto simp: zlog_rotater_clean_def rotater_idle_def split: Option.bind_splits option.splits)

lemma zlog_rotater_lsmv_frame:
  assumes "zlog_rotater_lsmv r b a c w = Some (rc, r', w')"
  shows "same_contents w w'" and "rotater_idle (r'\<lparr>ro_locked := False\<rparr>)"
    and "ro_locked r' = ro_locked r \<and> ro_lock_file r' = ro_lock_file r \<and> ro_lock_fd r' = ro_lock_fd r"
proof -
  let ?r = "r\<lparr>ro_base_path := b, ro_archive_path := a, ro_max_count := c\<rparr>"
  obtain rc1 r1 where p: "zlog_rotater_parse_archive_path ?r = Some (rc1, r1)"
    using assms by (auto simp: zlog_rotater_lsmv_def split: Option.bind_splits)
  obtain rc2 r2 w2 where f: "(if rc1 \<noteq> 0 then Some (rc1, r1, w) else zlog_rotater_add_archive_files r1 w) = Some (rc2, r2, w2)"
    using assms p by (fastforce simp: zlog_rotater_lsmv_def split: Option.bind_splits)
  obtain rc3 w3 where m: "(if rc2 \<noteq> 0 then Some (rc2, w2)
                 else if ro_mv_type r2 = ROLLING then zlog_rotater_roll_files r2 w2
                 else if ro_mv_type r2 = SEQUENCE then zlog_rotater_seq_files r2 w2
                 else Some (0, w2)) = Some (rc3, w3)"
    using assms p f by (fastforce simp: zlog_rotater_lsmv_def split: Option.bind_splits)
  have cl: "zlog_rotater_clean r2 = Some r'" "w' = w3"
    using assms p f m unfolding zlog_rotater_lsmv_def by (simp_all split: Option.bind_splits)
  have "same_contents w w2" using f by (auto split: if_splits dest: same_contents_ops)
  moreover have "same_contents w2 w3" using m by (auto split: if_splits dest: same_contents_ops)
  ultimately show "same_contents w w'" using cl(2) same_contents_trans by blast
  have "ro_locked r2 = ro_locked r \<and> ro_lock_file r2 = ro_lock_file r \<and> ro_lock_fd r2 = ro_lock_fd r"
    using parse_archive_path_frame [OF p] f by (auto split: if_splits dest!: add_archive_files_frame)
  then show "rotater_idle (r'\<lparr>ro_locked := False\<rparr>)"
    and "ro_locked r' = ro_locked r \<and> ro_lock_file r' = ro_lock_file r \<and> ro_lock_fd r' = ro_lock_fd r"
    using cl(1) by (auto simp: zlog_rotater_clean_def rotater_idle_def split: Option.bind_splits option.splits)
qed

text \<open>An idle rotater is determined by its lock file.\<close>

lemma rotater_idle_eq:
  "rotater_idle r \<Longrightarrow> rotater_idle r' \<Longrightarrow> ro_lock_file r' = ro_lock_file r \<Longrightarrow> ro_lock_fd r' = ro_lock_fd r \<Longrightarrow> r' = r"
  by (simp add: rotater_idle_def)

lemma rotate_frame:
  assumes "rotater_idle r" and "zlog_rotater_rotate r base_path msg_len archive_path max_size max_count w = Some (rc, r', w')"
  shows "r' = r \<and> same_contents w w'"
proof -
  obtain rc1 r1 w1 where t: "zlog_rotater_trylock r w = (rc1, r1, w1)" by (cases "zlog_rotater_trylock r w")
  have w1: "same_contents w w1" and r1: "rc1 \<noteq> 0 \<Longrightarrow> r1 = r" "rc1 = 0 \<Longrightarrow> r1 = r\<lparr>ro_locked := True\<rparr>"
    using t assms(1) by (auto simp: zlog_rotater_trylock_def rotater_idle_def Let_def split: if_splits prod.splits dest: io_ok_same)
  show ?thesis
  proof (cases "rc1 = 0")
    case False
    then show ?thesis using t assms(2) r1 w1 by (simp add: zlog_rotater_rotate_def)
  next
    case True
    obtain info w2 where s: "os_stat base_path w1 = (info, w2)" by (cases "os_stat base_path w1")
    have unl: "r' = x\<lparr>ro_locked := False\<rparr> \<and> same_contents y w'" if "(case zlog_rotater_unlock x y of (_, r, w) \<Rightarrow> Some (c, r, w)) = Some (rc, r', w')" for x y c
      using that io_ok_same by (fastforce simp: zlog_rotater_unlock_def split: prod.splits)
    let ?run = "case info of None \<Rightarrow> Some (-1 :: int, r1, w2) | Some st_size \<Rightarrow>
                 if (int st_size + int msg_len) mod 2 ^ 64 \<le> max_size mod 2 ^ 64 then Some (0, r1, w2)
                 else do {
                   (rc, r, w) \<leftarrow> zlog_rotater_lsmv r1 base_path archive_path max_count w2;
                   Some (if rc \<noteq> 0 then -1 else 0, r, w)
                 }"
    obtain c x y where run: "?run = Some (c, x, y)" and u: "r' = x\<lparr>ro_locked := False\<rparr>" "same_contents y w'"
      using assms(2) True t s unfolding zlog_rotater_rotate_def by (cases ?run) (auto dest!: unl)
    have "x = r1 \<and> y = w2 \<or> (\<exists>rc. zlog_rotater_lsmv r1 base_path archive_path max_count w2 = Some (rc, x, y))"
      using run by (cases info) (auto split: if_splits Option.bind_splits)
    then consider "x = r1" "y = w2" | rc where "zlog_rotater_lsmv r1 base_path archive_path max_count w2 = Some (rc, x, y)" by blast
    then have y: "same_contents w2 y"
      and "r' = r1\<lparr>ro_locked := False\<rparr> \<or> rotater_idle r' \<and> ro_lock_file r' = ro_lock_file r1 \<and> ro_lock_fd r' = ro_lock_fd r1"
      by (cases; auto simp: u(1) dest: zlog_rotater_lsmv_frame)+
    moreover have "same_contents w w'"
      using w1 dir_ops_same(4) [OF s] y u(2) same_contents_trans by blast
    ultimately show ?thesis using r1(2) True assms(1) rotater_idle_eq [OF assms(1), of r'] by (auto simp: rotater_idle_def)
  qed
qed

definition sample_rotater :: zlog_rotater where
  "sample_rotater = \<lparr>ro_locked = False, ro_lock_file = ''lock'', ro_lock_fd = 3, ro_base_path = [], ro_archive_path = None, ro_glob_path = [],
     ro_num_start_len = 0, ro_num_end_len = 0, ro_num_width = 0, ro_mv_type = 0, ro_max_count = 0, ro_files = None\<rparr>"

text \<open>A directory with a log file and archives, the contents of the files being the numbers of their inodes.\<close>

definition sample_os :: "(string \<times> nat) list \<Rightarrow> os" where
  "sample_os d = \<lparr>sy_mem = [], sy_clock = \<lambda>_. (0, 0), sy_ticks = 0, sy_pid = 7, os_io = [], os_dir = d, os_data = \<lambda>i. base_string 10 i,
     os_fd = Map.empty, os_brk_inode = 100, os_brk_fd = 4, os_sync = [], os_syslog = []\<rparr>"

lemma sample_rotater_idle [simp]: "rotater_idle sample_rotater"
  by (simp add: rotater_idle_def sample_rotater_def)

subsection \<open>Rolling a run of archives\<close>

lemma archive_name_shape:
  assumes "ro_glob_path r = pre @ CHR ''*'' # suf" and "ro_num_start_len r = length pre" and "ro_num_end_len r = Suc (length pre)"
  shows "archive_name r n =
    (let s = pre @ pad_number (ro_num_width r) n @ suf in if length s \<ge> MAXLEN_PATH + 1 then None else Some s)"
  using assms by (simp add: archive_name_def)

lemma parse_mark_shape:
  assumes "parse_mark r a p n = (0, r')" and "length p \<le> length a"
  shows "\<exists>pre suf. ro_glob_path r' = pre @ CHR ''*'' # suf \<and> ro_num_start_len r' = length pre \<and> ro_num_end_len r' = Suc (length pre)
    \<or> ro_num_end_len r' > MAXLEN_PATH"
proof (cases "ro_num_end_len r' > MAXLEN_PATH")
  case False
  let ?len = "length a - length p"
  have "ro_glob_path r' = take ?len a @ take (MAXLEN_PATH - ?len) (CHR ''*'' # drop (n + 1) p)"
    "ro_num_start_len r' = ?len" "ro_num_end_len r' = Suc ?len"
    using assms(1) unfolding parse_mark_def Let_def by (simp_all split: if_splits) (auto simp del: not_less)
  moreover have "take (MAXLEN_PATH - ?len) (CHR ''*'' # drop (n + 1) p) = CHR ''*'' # take (MAXLEN_PATH - ?len - 1) (drop (n + 1) p)"
    using False calculation(3) by (cases "MAXLEN_PATH - ?len") simp_all
  moreover have "length (take ?len a) = ?len" by simp
  ultimately show ?thesis by metis
qed auto

lemma parse_shape:
  assumes "zlog_rotater_parse_archive_path r = Some (0, r')" and "ro_num_end_len r' \<le> MAXLEN_PATH"
  obtains pre suf where "ro_glob_path r' = pre @ CHR ''*'' # suf" and "ro_num_start_len r' = length pre" and "ro_num_end_len r' = Suc (length pre)"
proof -
  obtain a where a: "ro_archive_path r = Some a"
    using assms(1) by (cases "ro_archive_path r") (simp_all add: zlog_rotater_parse_archive_path_def)
  show thesis
  proof (cases "a = []")
    case True
    then have "r' = r\<lparr>ro_glob_path := take MAXLEN_PATH (ro_base_path r @ ''.*''), ro_mv_type := ROLLING, ro_num_width := 0,
                       ro_num_start_len := length (ro_base_path r) + 1, ro_num_end_len := length (ro_base_path r) + 2\<rparr>"
      using assms(1) a by (simp add: zlog_rotater_parse_archive_path_def Let_def split: if_splits)
    then show thesis using assms(2) that [of "ro_base_path r @ ''.''" "[]"] by simp
  next
    case False
    then obtain p where p: "strchr a (CHR ''#'') = Some p"
      using assms(1) a by (cases "strchr a (CHR ''#'')") (simp_all add: zlog_rotater_parse_archive_path_def)
    have "length p \<le> length a" using p length_dropWhile_le by (auto simp: strchr_def Let_def split: if_splits)
    then show thesis
      using assms a False p that unfolding zlog_rotater_parse_archive_path_def Let_def
      by (force dest!: parse_mark_shape)
  qed
qed

lemma insert_inner_mem_suffix:
  "zc_arraylist_insert_inner l i d m = Some (rc, l', m') \<Longrightarrow> set m' \<subseteq> set m"
  using alloc_suffix [of m]
  by (auto simp: zc_arraylist_insert_inner_def zc_arraylist_expand_inner_def Let_def
      split: Option.bind_splits if_splits prod.splits option.splits)

lemma sortadd_mem_suffix:
  "zc_arraylist_sortadd l cmp d m = Some (rc, dead, l', m') \<Longrightarrow> set m' \<subseteq> set m"
  by (auto simp: zc_arraylist_sortadd_def zc_arraylist_add_def split: Option.bind_splits if_splits
      dest!: insert_inner_mem_suffix set_mem_suffix)

text \<open>
  The archives of a rotater are well numbered up to \<open>k\<close>: the width is not negative, the names up to number \<open>k\<close> fit
  into a path, and what follows the number cannot be read as a part of it nor ends the name like a directory.
\<close>

definition numbered :: "zlog_rotater \<Rightarrow> nat \<Rightarrow> bool" where
  "numbered r k \<longleftrightarrow> 0 \<le> ro_num_width r \<and> k < 2 ^ 31 \<and> ro_num_end_len r \<le> MAXLEN_PATH \<and> (\<forall>i\<le>k. archive_name r i \<noteq> None) \<and>
     (let suf = drop (ro_num_end_len r) (ro_glob_path r) in suf = [] \<or> \<not> isdigit (hd suf) \<and> last suf \<noteq> CHR ''/'')"

abbreviation archive :: "zlog_rotater \<Rightarrow> nat \<Rightarrow> string" where
  "archive r i \<equiv> the (archive_name r i)"

definition starred :: "zlog_rotater \<Rightarrow> bool" where
  "starred r \<longleftrightarrow> ro_num_end_len r = Suc (ro_num_start_len r) \<and> ro_num_start_len r < length (ro_glob_path r) \<and>
     ro_glob_path r ! ro_num_start_len r = CHR ''*''"

lemma parse_starred:
  "zlog_rotater_parse_archive_path r = Some (0, r') \<Longrightarrow> ro_num_end_len r' \<le> MAXLEN_PATH \<Longrightarrow> starred r'"
  by (erule (1) parse_shape) (simp add: starred_def nth_append)

lemma starred_shape: "starred r \<Longrightarrow> ro_glob_path r =
    take (ro_num_start_len r) (ro_glob_path r) @ CHR ''*'' # drop (ro_num_end_len r) (ro_glob_path r)"
  unfolding starred_def by (metis id_take_nth_drop)

lemma archive_eq:
  "archive_name r i = Some p \<Longrightarrow>
     p = take (ro_num_start_len r) (ro_glob_path r) @ pad_number (ro_num_width r) i @ drop (ro_num_end_len r) (ro_glob_path r) \<and> length p \<le> MAXLEN_PATH"
  by (auto simp: archive_name_def Let_def split: if_splits)

lemma numbered_archive: "numbered r k \<Longrightarrow> i \<le> k \<Longrightarrow> archive_name r i = Some (archive r i)"
  by (auto simp: numbered_def)

lemma archive_inj:
  assumes "numbered r k" and "i \<le> k" and "j \<le> k"
  shows "archive r i = archive r j \<longleftrightarrow> i = j"
  using archive_eq [OF numbered_archive [OF assms(1,2)]] archive_eq [OF numbered_archive [OF assms(1,3)]] assms(1)
  by (auto simp: numbered_def pad_number_inj)

lemma archive_matches:
  assumes "numbered r k" and "starred r" and "i \<le> k"
  shows "glob_match (ro_glob_path r) (archive r i)"
proof -
  have "CHR ''/'' \<notin> set (pad_number (ro_num_width r) i)"
    using pad_number_digits(2) [of "ro_num_width r" i] assms(1) by (auto simp: numbered_def list_all_iff isdigit_def)
  then show ?thesis
    using archive_eq [OF numbered_archive [OF assms(1,3)]] starred_shape [OF assms(2)] glob_match_name by metis
qed

lemma check_new_archive:
  assumes "numbered r k" and "starred r" and "i \<le> k" and "ro_base_path r \<noteq> archive r i" and "False \<notin> set m"
  shows "zlog_file_check_new r (archive r i) m = Some (Some \<lparr>zf_index = int i, zf_path = archive r i\<rparr>, snd (alloc m))"
proof -
  let ?suf = "drop (ro_num_end_len r) (ro_glob_path r)" and ?d = "pad_number (ro_num_width r) i"
  have w: "0 \<le> ro_num_width r" and i: "i < 2 ^ 31" and s: "?suf \<noteq> [] \<longrightarrow> \<not> isdigit (hd ?suf)" "?suf \<noteq> [] \<Longrightarrow> last ?suf \<noteq> CHR ''/''"
    using assms(1,3) by (auto simp: numbered_def Let_def)
  define p where "p = archive r i"
  note a = archive_eq [OF numbered_archive [OF assms(1,3)], folded p_def]
  have st: "length (take (ro_num_start_len r) (ro_glob_path r)) = ro_num_start_len r" "ro_num_start_len r \<le> MAXLEN_PATH"
    using assms(1,2) by (auto simp: starred_def numbered_def)
  note d = pad_number_digits [OF w, of i]
  have "p \<noteq> []" using a d(3) by auto
  have "last p = last (?d @ ?suf)" using a d(3) by (metis append_is_Nil_conv last_appendR)
  moreover have "last ?d \<noteq> CHR ''/''" using d(2,3) by (auto simp: list_all_iff isdigit_def dest!: last_in_set)
  ultimately have l: "last p \<noteq> CHR ''/''" using s(2) by (metis append_Nil2 last_appendR)
  have c: "cell p (int (length p) - 1) = Some (last p)" using \<open>p \<noteq> []\<close> by (simp add: cell_def last_conv_nth nat_diff_distrib')
  obtain m1 where al: "alloc m = (True, m1)" using assms(5) by (cases m) auto
  have dr: "drop (ro_num_start_len r) p = ?d @ ?suf" using a st by (metis append_eq_conv_conj)
  show ?thesis
    unfolding p_def [symmetric] zlog_file_check_new_def c dr scan_padded [OF w i s(1)]
    using assms(4) l al conjunct2 [OF a] st(2) d(4) by (simp add: p_def [symmetric] val_int_def)
qed

lemma zlog_file_cmp_key: "zlog_file_cmp x y > 0 \<longleftrightarrow> zf_index y < zf_index x"
  by (simp add: zlog_file_cmp_def)

abbreviation archive_file :: "zlog_rotater \<Rightarrow> nat \<Rightarrow> zlog_file" where
  "archive_file r i \<equiv> \<lparr>zf_index = int i, zf_path = archive r i\<rparr>"

lemma add_files_sorted:
  assumes "numbered r k" and "starred r" and "\<And>i. i \<le> k \<Longrightarrow> ro_base_path r \<noteq> archive r i"
    and "set ps \<subseteq> insert (ro_base_path r) (archive r ` {..<k})"
  shows "al_elems l ys \<Longrightarrow> sorted (map zf_index ys) \<Longrightarrow> False \<notin> set m \<Longrightarrow>
    \<exists>l' ys' m'. add_files r ps l m = Some (0, l', m') \<and> al_elems l' ys' \<and> sorted (map zf_index ys') \<and> al_del l' = al_del l \<and>
      set ys' = set ys \<union> {archive_file r i | i. i < k \<and> archive r i \<in> set ps} \<and>
      length ys' = length ys + length (filter (\<lambda>p. p \<noteq> ro_base_path r) ps) \<and> False \<notin> set m'"
  using assms(4)
proof (induction ps arbitrary: l ys m)
  case (Cons p ps)
  show ?case
  proof (cases "p = ro_base_path r")
    case True
    then have "zlog_file_check_new r p m = Some (None, m)" by (simp add: zlog_file_check_new_def)
    then have "add_files r (p # ps) l m = add_files r ps l m" by simp
    moreover have "{archive_file r i | i. i < k \<and> archive r i \<in> set (p # ps)} = {archive_file r i | i. i < k \<and> archive r i \<in> set ps}"
      using assms(3) True by (metis less_imp_le set_ConsD list.set_intros(2))
    ultimately show ?thesis using Cons.IH [OF Cons.prems(1-3)] Cons.prems(4) True by (simp only: filter.simps set_subset_Cons set_simps) simp
  next
    case False
    then obtain i where i: "i < k" "p = archive r i" using Cons.prems(4) by auto
    note c = check_new_archive [OF assms(1,2) less_imp_le [OF i(1)] assms(3) [OF less_imp_le [OF i(1)]] Cons.prems(3), folded i(2)]
    let ?m = "snd (alloc m)" and ?f = "archive_file r i"
    have m: "False \<notin> set ?m" using alloc_suffix [of m] Cons.prems(3) by auto
    have rep: "al_rep l (map Some ys)" using Cons.prems(1) by (simp add: al_elems_def)
    obtain l1 m1 where s: "zc_arraylist_sortadd l zlog_file_cmp ?f ?m = Some (0, [], l1, m1)"
      "al_rep l1 (map Some (insert_after zlog_file_cmp ?f ys))" "al_del l1 = al_del l"
      using m alloc_False [of ?m] by (cases rule: sortadd_rep [OF rep, of zlog_file_cmp ?f ?m]) auto
    have srt: "sorted (map zf_index (insert_after zlog_file_cmp ?f ys))"
      using insert_after_sorted [of zlog_file_cmp ?f zf_index ys] zlog_file_cmp_key Cons.prems(2) by blast
    have "False \<notin> set m1" using sortadd_mem_suffix [OF s(1)] m by auto
    then obtain l' ys' m' where IH: "add_files r ps l1 m1 = Some (0, l', m')" "al_elems l' ys'" "sorted (map zf_index ys')" "al_del l' = al_del l1"
      "set ys' = set (insert_after zlog_file_cmp ?f ys) \<union> {archive_file r i | i. i < k \<and> archive r i \<in> set ps}"
      "length ys' = length (insert_after zlog_file_cmp ?f ys) + length (filter (\<lambda>p. p \<noteq> ro_base_path r) ps)" "False \<notin> set m'"
      using Cons.IH [of l1 "insert_after zlog_file_cmp ?f ys" m1] s(2) srt Cons.prems(4) by (auto simp: al_elems_def)
    have "{archive_file r j | j. j < k \<and> archive r j \<in> set (p # ps)} = insert ?f {archive_file r j | j. j < k \<and> archive r j \<in> set ps}"
      using i archive_inj [OF assms(1)] by (auto intro: less_imp_le)
    moreover have "add_files r (p # ps) l m = Some (0, l', m')" using c s(1) IH(1) i(2) by simp
    ultimately show ?thesis using IH s(3) False by (intro exI [of _ l'] exI [of _ ys'] exI [of _ m']) auto
  qed
qed (auto simp: al_elems_def)

lemma add_files_run:
  assumes "numbered r k" and "starred r" and "\<And>i. i \<le> k \<Longrightarrow> ro_base_path r \<noteq> archive r i" and "distinct ps"
    and "set ps - {ro_base_path r} = archive r ` {..<k}" and "al_elems l []" and "False \<notin> set m"
  obtains l' m' where "add_files r ps l m = Some (0, l', m')" and "al_elems l' (map (archive_file r) [0..<k])" and "al_del l' = al_del l"
proof -
  have sub: "set ps \<subseteq> insert (ro_base_path r) (archive r ` {..<k})" using assms(5) by auto
  obtain l' ys m' where y: "add_files r ps l m = Some (0, l', m')" "al_elems l' ys" "sorted (map zf_index ys)" "al_del l' = al_del l"
    "set ys = {archive_file r i | i. i < k \<and> archive r i \<in> set ps}" "length ys = length (filter (\<lambda>p. p \<noteq> ro_base_path r) ps)"
    using add_files_sorted [OF assms(1-3) sub assms(6) _ assms(7)] by auto
  have inj: "inj_on (archive r) {..<k}" using archive_inj [OF assms(1)] by (auto simp: inj_on_def)
  have "length ys = card (set ps - {ro_base_path r})"
    using y(6) distinct_card [of "filter (\<lambda>p. p \<noteq> ro_base_path r) ps"] assms(4) by (simp add: set_diff_eq)
  then have len: "length ys = k" using inj assms(5) by (simp add: card_image)
  have ys: "set ys = archive_file r ` {..<k}" using y(5) assms(5) by (auto simp: image_iff)
  then have idx: "set (map zf_index ys) = int ` {..<k}" by (simp add: image_image)
  then have "card (set (map zf_index ys)) = length (map zf_index ys)" using len by (simp add: card_image)
  then have "distinct (map zf_index ys)" by (rule card_distinct)
  moreover have "set (map zf_index ys) = set (map int [0..<k])" using idx by (simp add: lessThan_atLeast0)
  moreover have "sorted (map int [0..<k])" "distinct (map int [0..<k])" by (simp_all add: sorted_iff_nth_mono distinct_map)
  ultimately have "map zf_index ys = map int [0..<k]" using y(3) by (intro sorted_distinct_set_unique)
  moreover have "y = archive_file r (nat (zf_index y))" if "y \<in> set ys" for y using that ys by auto
  then have "ys = map (\<lambda>j. archive_file r (nat j)) (map zf_index ys)" by (simp add: map_idI comp_def)
  ultimately have "ys = map (archive_file r) [0..<k]" by (simp add: comp_def)
  then show thesis using that y(1,2,4) by blast
qed

text \<open>The loop of \<open>zlog_rotater_roll_files\<close> on the run \<open>0..n-1\<close>, when the name with number \<open>n\<close> is free.\<close>

lemma rename_to_view:
  assumes "numbered r k" and "i \<le> k" and "os_good w" and "view w p \<noteq> None" and "p \<noteq> archive r i"
  obtains w' where "rename_to r p i w = Some (0, w')" and "os_good w'" and "view w' = (view w)(p := None, archive r i := view w p)"
proof -
  obtain w' where "os_rename p (archive r i) w = (0, w')" "os_good w'" "view w' = (view w)(p := None, archive r i := view w p)"
    by (rule os_rename_view [OF assms(3-5)])
  moreover have "rename_to r p i w = Some (0, w')"
    using calculation(1) assms(1,2) by (cases "archive_name r i") (auto simp: rename_to_def numbered_def)
  ultimately show thesis using that by blast
qed

lemma roll_loop_view:
  assumes "numbered r k" and "al_elems l (map (archive_file r) [0..<k])"
  shows "n \<le> k \<Longrightarrow> os_good w \<Longrightarrow> (\<And>i. i < n \<Longrightarrow> view w (archive r i) \<noteq> None) \<Longrightarrow> view w (archive r n) = None \<Longrightarrow>
    \<exists>w'. roll_loop r l n w = Some (0, w') \<and> os_good w' \<and> view w' (archive r 0) = None \<and>
      (\<forall>i<n. view w' (archive r (Suc i)) = (if ro_max_count r > 0 \<and> int i \<ge> ro_max_count r - 1 then None else view w (archive r i))) \<and>
      (\<forall>p. p \<notin> archive r ` {..n} \<longrightarrow> view w' p = view w p)"
proof (induction n arbitrary: w)
  case (Suc i)
  let ?drop = "ro_max_count r > 0 \<and> int i \<ge> ro_max_count r - 1"
  note inj = archive_inj [OF assms(1)]
  have g: "zc_arraylist_get l (int i) = Some (Some (archive_file r i))"
    using zc_arraylist_get_rep [of l _ "int i"] assms(2) Suc.prems(1) by (simp add: al_elems_def)
  have ne: "archive r i \<noteq> archive r (Suc i)" using inj [of i "Suc i"] Suc.prems(1) by simp
  have "\<exists>w1. (if ?drop then Some (os_unlink (archive r i) w) else rename_to r (archive r i) (i + 1) w) = Some (0, w1) \<and> os_good w1 \<and>
      view w1 = (view w)(archive r i := None, archive r (Suc i) := (if ?drop then None else view w (archive r i)))"
  proof (cases ?drop)
    case True
    have "(view w)(archive r i := None) = (view w)(archive r i := None, archive r (Suc i) := None)"
      using Suc.prems(4) by auto
    then show ?thesis using True os_unlink_view [OF Suc.prems(2) Suc.prems(3) [of i]] by fastforce
  next
    case False
    then show ?thesis using rename_to_view [OF assms(1) Suc.prems(1,2) Suc.prems(3) [of i] ne] by fastforce
  qed
  then obtain w1 where w1: "(if ?drop then Some (os_unlink (archive r i) w) else rename_to r (archive r i) (i + 1) w) = Some (0, w1)"
    "os_good w1" "view w1 = (view w)(archive r i := None, archive r (Suc i) := (if ?drop then None else view w (archive r i)))"
    by blast
  have v: "view w1 (archive r j) = view w (archive r j)" if "j < i" for j
    using that w1(3) inj [of j i] inj [of j "Suc i"] Suc.prems(1) by simp
  obtain w' where IH: "roll_loop r l i w1 = Some (0, w')" "os_good w'" "view w' (archive r 0) = None"
    "\<And>j. j < i \<Longrightarrow> view w' (archive r (Suc j)) = (if ro_max_count r > 0 \<and> int j \<ge> ro_max_count r - 1 then None else view w (archive r j))"
    "\<And>p. p \<notin> archive r ` {..i} \<Longrightarrow> view w' p = view w1 p"
    using Suc.IH [of w1] w1(2,3) Suc.prems(1,3) v ne by fastforce
  have out: "archive r (Suc i) \<notin> archive r ` {..i}" using inj Suc.prems(1) by auto
  have "view w' (archive r (Suc j)) = (if ro_max_count r > 0 \<and> int j \<ge> ro_max_count r - 1 then None else view w (archive r j))" if "j < Suc i" for j
    using that IH(4) [of j] IH(5) [OF out] w1(3) by (cases "j = i") auto
  moreover have "view w' p = view w p" if "p \<notin> archive r ` {..Suc i}" for p
    using that IH(5) [of p] w1(3) by (auto simp: atMost_Suc)
  moreover have "roll_loop r l (Suc i) w = Some (0, w')" using w1(1) IH(1) g by (cases ?drop) auto
  ultimately show ?case using IH(2,3) by blast
qed simp

lemma arraylist_new_good:
  "False \<notin> set m \<Longrightarrow> \<exists>l m'. zc_arraylist_new d m = (Some l, m') \<and> al_elems l [] \<and> al_del l = d \<and> False \<notin> set m'"
  using zc_arraylist_new_rep [of d m] alloc_suffix [of m] alloc_suffix [of "snd (alloc m)"]
  by (cases m; cases "tl m") (auto simp: zc_arraylist_new_def al_elems_def al_rep_def)

lemma os_glob_good:
  assumes "os_good w"
  obtains w' where "os_glob g w = (Some (filter (glob_match g) (map fst (os_dir w))), w')" and "os_good w'" and "view w' = view w"
    and "sy_mem w' = sy_mem w"
proof -
  obtain w' where "io_ok w = (True, w')" "os_good w'" "os_dir w' = os_dir w" "sy_mem w' = sy_mem w"
    by (rule io_ok_good [OF assms])
  then show thesis using that by (simp add: os_glob_def)
qed

lemma os_good_mem [simp]: "os_good (w\<lparr>sy_mem := m\<rparr>) = os_good w"
  by (simp add: os_good_def)

lemma roll_files_view:
  assumes "numbered r k" and "al_elems l (map (archive_file r) [0..<k])" and "ro_files r = Some l" and "os_good w"
    and "\<And>i. i < k \<Longrightarrow> view w (archive r i) \<noteq> None" and "view w (archive r k) = None"
    and "\<And>i. i \<le> k \<Longrightarrow> ro_base_path r \<noteq> archive r i" and "view w (ro_base_path r) \<noteq> None"
  obtains w' where "zlog_rotater_roll_files r w = Some (0, w')" and "view w' (ro_base_path r) = None"
    and "view w' (archive r 0) = view w (ro_base_path r)"
    and "\<And>i. i < k \<Longrightarrow> view w' (archive r (Suc i)) = (if ro_max_count r > 0 \<and> int i \<ge> ro_max_count r - 1 then None else view w (archive r i))"
    and "\<And>p. p \<noteq> ro_base_path r \<Longrightarrow> p \<notin> archive r ` {..k} \<Longrightarrow> view w' p = view w p"
proof -
  let ?b = "ro_base_path r"
  obtain w1 where w1: "roll_loop r l k w = Some (0, w1)" "os_good w1" "view w1 (archive r 0) = None"
    "\<And>i. i < k \<Longrightarrow> view w1 (archive r (Suc i)) = (if ro_max_count r > 0 \<and> int i \<ge> ro_max_count r - 1 then None else view w (archive r i))"
    "\<And>p. p \<notin> archive r ` {..k} \<Longrightarrow> view w1 p = view w p"
    using roll_loop_view [OF assms(1,2) order_refl assms(4,5,6)] by auto
  have b: "view w1 ?b = view w ?b" using w1(5) [of ?b] assms(7) by auto
  obtain w' where w': "rename_to r ?b 0 w1 = Some (0, w')" "view w' = (view w1)(?b := None, archive r 0 := view w1 ?b)"
    using rename_to_view [OF assms(1) le0 w1(2) _ assms(7) [OF le0]] b assms(8) by metis
  have "al_len l = k" using assms(2) by (simp add: al_elems_def al_rep_def)
  then have "zlog_rotater_roll_files r w = Some (0, w')" using w1(1) w'(1) assms(3) by (simp add: zlog_rotater_roll_files_def)
  moreover have "view w' (archive r (Suc i)) = view w1 (archive r (Suc i))" if "i < k" for i
    using w'(2) that assms(7) [of "Suc i"] archive_inj [OF assms(1), of "Suc i" 0] by simp
  moreover have "p \<notin> archive r ` {..k} \<Longrightarrow> p \<noteq> archive r 0" for p by auto
  ultimately show thesis using that [of w'] w'(2) w1(4,5) b assms(7) [of 0] by auto
qed

lemma lsmv_rolls:
  assumes "zlog_rotater_parse_archive_path (r\<lparr>ro_base_path := base, ro_archive_path := a, ro_max_count := c\<rparr>) = Some (0, r1)"
    and "ro_mv_type r1 = ROLLING" and "numbered r1 k" and "os_good w" and "False \<notin> set (sy_mem w)"
    and "{p \<in> dom (view w). glob_match (ro_glob_path r1) p} - {base} = archive r1 ` {..<k}" and "\<forall>i\<le>k. base \<noteq> archive r1 i"
    and "view w base \<noteq> None"
  obtains r' w' where "zlog_rotater_lsmv r base a c w = Some (0, r', w')" and "view w' base = None" and "view w' (archive r1 0) = view w base"
    and "\<And>i. i < k \<Longrightarrow> view w' (archive r1 (Suc i)) = (if c > 0 \<and> int i \<ge> c - 1 then None else view w (archive r1 i))"
    and "\<And>p. p \<noteq> base \<Longrightarrow> p \<notin> archive r1 ` {..k} \<Longrightarrow> view w' p = view w p"
proof -
  have f: "ro_base_path r1 = base" "ro_max_count r1 = c" using parse_archive_path_frame [OF assms(1)] by auto
  have st: "starred r1" using parse_starred [OF assms(1)] assms(3) by (simp add: numbered_def)
  obtain l0 :: "zlog_file zc_arraylist" and m where l0: "zc_arraylist_new True (sy_mem w) = (Some l0, m)" "al_elems l0 []" "False \<notin> set m"
    using arraylist_new_good [OF assms(5)] by blast
  let ?ps = "filter (glob_match (ro_glob_path r1)) (map fst (os_dir w))"
  have gm: "os_good (w\<lparr>sy_mem := m\<rparr>)" using assms(4) by simp
  obtain w1 where w1: "os_glob (ro_glob_path r1) (w\<lparr>sy_mem := m\<rparr>) = (Some ?ps, w1)" "os_good w1" "view w1 = view w" "sy_mem w1 = m"
    using os_glob_good [OF gm, of "ro_glob_path r1"] by auto
  have ps: "distinct ?ps" "set ?ps - {ro_base_path r1} = archive r1 ` {..<k}"
    using assms(4,6) f(1) by (auto simp: os_good_def dom_map_of_conv_image_fst)
  obtain l m' where l: "add_files r1 ?ps l0 m = Some (0, l, m')" "al_elems l (map (archive_file r1) [0..<k])"
    by (rule add_files_run [OF assms(3) st _ ps l0(2,3)]) (use assms(7) f(1) in auto)
  let ?r = "r1\<lparr>ro_files := Some l\<rparr>" and ?w = "w1\<lparr>sy_mem := m'\<rparr>"
  have add: "zlog_rotater_add_archive_files r1 w = Some (0, ?r, ?w)"
    using l0(1) w1(1,4) l(1) by (simp add: zlog_rotater_add_archive_files_def)
  have an: "archive_name ?r = archive_name r1" by (simp add: archive_name_def fun_eq_iff)
  have num: "numbered ?r k" using assms(3) by (simp add: numbered_def an)
  have v: "view w (archive r1 i) \<noteq> None" if "i < k" for i
    using that assms(6) by auto
  have "archive r1 k \<noteq> archive r1 i" if "i < k" for i using archive_inj [OF assms(3) order_refl, of i] that by simp
  then have "archive r1 k \<notin> archive r1 ` {..<k}" by auto
  then have "archive r1 k \<notin> dom (view w)"
    unfolding assms(6) [symmetric] using archive_matches [OF assms(3) st order_refl] assms(7) by auto
  then have vk: "view w (archive r1 k) = None" by (simp add: domIff)
  have b: "\<And>i. i \<le> k \<Longrightarrow> base \<noteq> archive r1 i" using assms(7) by blast
  define r2 w2 where "r2 = ?r" and "w2 = ?w"
  have r2: "ro_base_path r2 = base" "ro_max_count r2 = c" "ro_files r2 = Some l" "archive_name r2 = archive_name r1" "view w2 = view w"
    and g2: "os_good w2" "numbered r2 k"
    using f an w1(2,3) num by (simp_all add: r2_def w2_def)
  from roll_files_view [OF g2(2) _ r2(3) g2(1), unfolded r2, OF l(2) v vk b assms(8)]
  obtain w' where w': "zlog_rotater_roll_files r2 w2 = Some (0, w')" "view w' base = None" "view w' (archive r1 0) = view w base"
    "\<And>i. i < k \<Longrightarrow> view w' (archive r1 (Suc i)) = (if c > 0 \<and> int i \<ge> c - 1 then None else view w (archive r1 i))"
    "\<And>p. p \<noteq> base \<Longrightarrow> p \<notin> archive r1 ` {..k} \<Longrightarrow> view w' p = view w p"
    by blast
  note w' = w' [unfolded r2_def w2_def]
  obtain r' where cl: "zlog_rotater_clean ?r = Some r'"
    using l(2) zc_arraylist_del_rep [of l] by (auto simp: zlog_rotater_clean_def al_elems_def)
  have "zlog_rotater_lsmv r base a c w = Some (0, r', w')"
    using assms(1,2) add w'(1) cl by (simp add: zlog_rotater_lsmv_def)
  then show thesis using that w' by blast
qed

subsection \<open>Properties\<close>


text \<open>The rotater during the rotation of \<open>aa\<close> without an archive path.\<close>

definition sample_rolling :: zlog_rotater where
  "sample_rolling = sample_rotater\<lparr>ro_locked := True, ro_base_path := ''aa'', ro_archive_path := Some [], ro_glob_path := ''aa.*'',
     ro_num_start_len := 3, ro_num_end_len := 4, ro_mv_type := ROLLING\<rparr>"

lemma sample_rolling_parse:
  "zlog_rotater_parse_archive_path (sample_rotater\<lparr>ro_locked := True, ro_base_path := ''aa'', ro_archive_path := Some [], ro_max_count := 0\<rparr>) =
     Some (0, sample_rolling)"
  by code_simp

lemma sample_rolling_names:
  "archive_name sample_rolling 0 = Some ''aa.0''" "archive_name sample_rolling 1 = Some ''aa.1''" "archive_name sample_rolling 2 = Some ''aa.2''"
  by code_simp+


text \<open>C33: a rotation, whatever it answers and whatever system calls fail in it, gives the rotater back idle and unlocked, as
it was, and changes neither the contents of a file nor an open descriptor: it only moves and removes names.\<close>

theorem zlog_rotater_rotate_frame:
  assumes "rotater_idle r" and "zlog_rotater_rotate r base_path msg_len archive_path max_size max_count w = Some (rc, r', w')"
  shows "r' = r \<and> same_contents w w'"
  using assms by (rule rotate_frame)

theorem zlog_rotater_rotate_frame_witness:
  "\<exists>rc w'. zlog_rotater_rotate sample_rotater ''aa'' 5 (Some ''bb.#2s'') 3 0 (sample_os [(''aa'', 50)]\<lparr>os_io := [True, True, True, False]\<rparr>) =
      Some (rc, sample_rotater, w') \<and> rc = -1 \<and> os_data w' 50 = ''50''"
proof -
  let ?w = "sample_os [(''aa'', 50)]\<lparr>os_io := [True, True, True, False]\<rparr>"
  let ?x = "zlog_rotater_rotate sample_rotater ''aa'' 5 (Some ''bb.#2s'') 3 0 ?w"
  have "map_option fst ?x = Some (-1)" by code_simp
  then obtain r' w' where x: "?x = Some (-1, r', w')" by (cases ?x) auto
  have "os_data ?w 50 = ''50''" by code_simp
  then show ?thesis using zlog_rotater_rotate_frame [OF sample_rotater_idle x] x by (auto simp: same_contents_def)
qed

text \<open>rolling over a gap loses an archive. With the archives 2 and 5 present, the rotation succeeds, but the text of archive 2
is in no file afterwards: archive 5 is renamed to number 2 by its place in the list, over the file that is still there.\<close>

theorem zlog_rotater_rotate_gap_loses:
  "map_option (\<lambda>(rc, r, w). (rc, os_dir w)) (zlog_rotater_rotate sample_rotater ''aa'' 5 (Some []) 3 0
     (sample_os [(''aa.2'', 2), (''aa'', 50), (''aa.5'', 5)])) = Some (0, [(''aa.0'', 50), (''aa.1'', 5)])"
  by code_simp

end
