(* ===== verification/Zlog_Spec.thy ===== *)
theory Zlog_Spec
  imports Zlog_Event Zlog_Level "HOL-Library.Signed_Division"
begin

text \<open>
  Specifiers (\<^verbatim>\<open>spec.c\<close>): the pieces a pattern is made of. A specifier is parsed once from a pattern and
  then writes its part of each message or path. The function pointers of the source are the datatypes
  \<open>write_fn\<close> and \<open>gen_fn\<close>, and calling through them is \<open>zlog_spec_write\<close> and the three \<open>zlog_spec_gen\<close>
  functions. Writing reads the levels of the configuration (\<open>zlog_env_conf->levels\<close>), the context and the
  event of the thread, and it fills the caches of the event.
\<close>

datatype write_fn =
    WriteTime | WriteMs | WriteUs | WriteMdc | WriteStr | WriteCategory | WriteSrcfile | WriteSrcfileNeat
  | WriteSrcline | WriteSrcfunc | WriteHostname | WriteNewline | WritePercent | WritePid | WriteTidHex
  | WriteTidLong | WriteLevelLowercase | WriteLevelUppercase | WriteUsrmsg

datatype gen_fn = GenDirect | GenReformat

record zlog_spec =
  sp_str :: string
  sp_len :: nat
  sp_time_fmt :: string
  sp_time_cache_index :: nat
  sp_mdc_key :: string
  sp_print_fmt :: string
  sp_left_adjust :: bool
  sp_max_width :: nat
  sp_min_width :: nat
  sp_write_buf :: write_fn
  sp_gen_msg :: gen_fn
  sp_gen_path :: gen_fn
  sp_gen_archive_path :: gen_fn

definition ZLOG_DEFAULT_TIME_FMT :: string where "ZLOG_DEFAULT_TIME_FMT = ''%F %T''"

definition ZLOG_HEX_HEAD :: string where
  "ZLOG_HEX_HEAD = [CHR 0x0A] @ ''             0  1  2  3  4  5  6  7  8  9  A  B  C  D  E  F    0123456789ABCDEF''"

subsection \<open>Write functions\<close>

text \<open>An operation on a buffer, run with the allocator of the system.\<close>

definition put_sys ::
  "(mem \<Rightarrow> (int \<times> zlog_buf \<times> mem) option) \<Rightarrow> zlog_event \<Rightarrow> 'z sys_scheme \<Rightarrow>
   (int \<times> zlog_event \<times> zlog_buf \<times> 'z sys_scheme) option" where
  "put_sys f e w = do { (rc, b, m) \<leftarrow> f (sy_mem w); Some (rc, e, b, w\<lparr>sy_mem := m\<rparr>) }"

text \<open>The clock is read once for an event: the seconds are 0 until then.\<close>

definition event_stamp :: "zlog_event \<Rightarrow> 'z sys_scheme \<Rightarrow> zlog_event \<times> 'z sys_scheme" where
  "event_stamp e w =
     (if fst (ev_time_stamp e) = 0 then let (t, w) = gettimeofday w in (e\<lparr>ev_time_stamp := t\<rparr>, w) else (e, w))"

definition zlog_spec_write_time ::
  "libc \<Rightarrow> zlog_spec \<Rightarrow> zlog_event \<Rightarrow> zlog_buf \<Rightarrow> 'z sys_scheme \<Rightarrow>
   (int \<times> zlog_event \<times> zlog_buf \<times> 'z sys_scheme) option" where
  "zlog_spec_write_time lc s e b w =
     (let (e, w) = event_stamp e w;
          now_sec = fst (ev_time_stamp e);
          e = (if ev_time_local_sec e \<noteq> now_sec
               then e\<lparr>ev_time_local := lc_localtime lc now_sec, ev_time_local_sec := now_sec\<rparr> else e);
          i = sp_time_cache_index s
      in do {
        a_cache \<leftarrow> cell (ev_time_caches e) (int i);
        let e = (if tc_sec a_cache \<noteq> now_sec
                 then let t = strftime lc (MAXLEN_CFG_LINE + 1) (sp_time_fmt s) (ev_time_local e) in
                   e\<lparr>ev_time_caches := (ev_time_caches e)[i := \<lparr>tc_str = t, tc_len = length t, tc_sec = now_sec\<rparr>]\<rparr>
                 else e);
        a_cache \<leftarrow> cell (ev_time_caches e) (int i);
        put_sys (zlog_buf_append b (tc_str a_cache) (tc_len a_cache)) e w
      })"

definition zlog_spec_write_ms ::
  "zlog_event \<Rightarrow> zlog_buf \<Rightarrow> 'z sys_scheme \<Rightarrow> (int \<times> zlog_event \<times> zlog_buf \<times> 'z sys_scheme) option" where
  "zlog_spec_write_ms e b w =
     (let (e, w) = event_stamp e w in
      put_sys (zlog_buf_printf_dec32 b (word_of_int (snd (ev_time_stamp e) sdiv 1000)) 3) e w)"

definition zlog_spec_write_us ::
  "zlog_event \<Rightarrow> zlog_buf \<Rightarrow> 'z sys_scheme \<Rightarrow> (int \<times> zlog_event \<times> zlog_buf \<times> 'z sys_scheme) option" where
  "zlog_spec_write_us e b w =
     (let (e, w) = event_stamp e w in
      put_sys (zlog_buf_printf_dec32 b (word_of_int (snd (ev_time_stamp e))) 6) e w)"

text \<open>A key that is not in the context writes nothing and is no error.\<close>

definition zlog_spec_write_mdc ::
  "zlog_spec \<Rightarrow> zlog_mdc \<Rightarrow> zlog_buf \<Rightarrow> mem \<Rightarrow> (int \<times> zlog_buf \<times> mem) option" where
  "zlog_spec_write_mdc s a_mdc b m = do {
     kv \<leftarrow> zlog_mdc_get_kv a_mdc (sp_mdc_key s);
     (case kv of
        None \<Rightarrow> Some (0, b, m)
      | Some kv \<Rightarrow> zlog_buf_append b (kv_value kv) (kv_value_len kv) m)
   }"

definition zlog_spec_write_srcfile :: "zlog_event \<Rightarrow> zlog_buf \<Rightarrow> mem \<Rightarrow> (int \<times> zlog_buf \<times> mem) option" where
  "zlog_spec_write_srcfile e b m =
     (case ev_file e of
        None \<Rightarrow> zlog_buf_append b ''(file=null)'' (length ''(file=null)'') m
      | Some f \<Rightarrow> zlog_buf_append b f (ev_file_len e) m)"

text \<open>The functions that append one field.\<close>

definition zlog_spec_write_str :: "zlog_spec \<Rightarrow> zlog_buf \<Rightarrow> mem \<Rightarrow> (int \<times> zlog_buf \<times> mem) option" where
  "zlog_spec_write_str s b m = zlog_buf_append b (sp_str s) (sp_len s) m"

definition zlog_spec_write_category :: "zlog_event \<Rightarrow> zlog_buf \<Rightarrow> mem \<Rightarrow> (int \<times> zlog_buf \<times> mem) option" where
  "zlog_spec_write_category e b m = zlog_buf_append b (ev_category_name e) (ev_category_name_len e) m"

definition zlog_spec_write_srcline :: "zlog_event \<Rightarrow> zlog_buf \<Rightarrow> mem \<Rightarrow> (int \<times> zlog_buf \<times> mem) option" where
  "zlog_spec_write_srcline e b m = zlog_buf_printf_dec64 b (ev_line e) 0 m"

definition zlog_spec_write_hostname :: "zlog_event \<Rightarrow> zlog_buf \<Rightarrow> mem \<Rightarrow> (int \<times> zlog_buf \<times> mem) option" where
  "zlog_spec_write_hostname e b m = zlog_buf_append b (ev_host_name e) (ev_host_name_len e) m"

definition zlog_spec_write_tid_hex :: "zlog_event \<Rightarrow> zlog_buf \<Rightarrow> mem \<Rightarrow> (int \<times> zlog_buf \<times> mem) option" where
  "zlog_spec_write_tid_hex e b m = zlog_buf_append b (ev_tid_hex_str e) (ev_tid_hex_str_len e) m"

definition zlog_spec_write_tid_long :: "zlog_event \<Rightarrow> zlog_buf \<Rightarrow> mem \<Rightarrow> (int \<times> zlog_buf \<times> mem) option" where
  "zlog_spec_write_tid_long e b m = zlog_buf_append b (ev_tid_str e) (ev_tid_str_len e) m"

definition zlog_spec_write_newline :: "zlog_buf \<Rightarrow> mem \<Rightarrow> (int \<times> zlog_buf \<times> mem) option" where
  "zlog_spec_write_newline b m = zlog_buf_append b [CHR 0x0A] 1 m"

definition zlog_spec_write_percent :: "zlog_buf \<Rightarrow> mem \<Rightarrow> (int \<times> zlog_buf \<times> mem) option" where
  "zlog_spec_write_percent b m = zlog_buf_append b ''%'' 1 m"

text \<open>\<open>strrchr\<close> is called before the test of the pointer: a null file name is undefined behaviour.\<close>

definition zlog_spec_write_srcfile_neat :: "zlog_event \<Rightarrow> zlog_buf \<Rightarrow> mem \<Rightarrow> (int \<times> zlog_buf \<times> mem) option" where
  "zlog_spec_write_srcfile_neat e b m = do {
     f \<leftarrow> ev_file e;
     (case strrchr f (CHR ''/'') of
        Some p \<Rightarrow>
          let n = int (ev_file_len e) - int (length f - length p) - 1 in
          if n < 0 then None else zlog_buf_append b (drop 1 p) (nat n) m
      | None \<Rightarrow> zlog_buf_append b f (ev_file_len e) m)
   }"

text \<open>The test is of the file name, not of the function name.\<close>

definition zlog_spec_write_srcfunc :: "zlog_event \<Rightarrow> zlog_buf \<Rightarrow> mem \<Rightarrow> (int \<times> zlog_buf \<times> mem) option" where
  "zlog_spec_write_srcfunc e b m =
     (if ev_file e = None then zlog_buf_append b ''(func=null)'' (length ''(func=null)'') m
      else do { f \<leftarrow> ev_func e; zlog_buf_append b f (ev_func_len e) m })"

definition zlog_spec_write_pid ::
  "zlog_event \<Rightarrow> zlog_buf \<Rightarrow> 'z sys_scheme \<Rightarrow> (int \<times> zlog_event \<times> zlog_buf \<times> 'z sys_scheme) option" where
  "zlog_spec_write_pid e b w =
     (let e = (if ev_pid e = 0 then
                 let e = e\<lparr>ev_pid := sy_pid w\<rparr> in
                 if ev_pid e \<noteq> ev_last_pid e then
                   let t = base_string 10 (nat (ev_pid e mod 2 ^ 32)) in
                   e\<lparr>ev_last_pid := ev_pid e, ev_pid_str := t, ev_pid_str_len := length t\<rparr>
                 else e
               else e)
      in put_sys (zlog_buf_append b (ev_pid_str e) (ev_pid_str_len e)) e w)"

definition zlog_spec_write_level ::
  "(zlog_level \<Rightarrow> string) \<Rightarrow> level_list \<Rightarrow> zlog_event \<Rightarrow> zlog_buf \<Rightarrow> mem \<Rightarrow> (int \<times> zlog_buf \<times> mem) option" where
  "zlog_spec_write_level str levels e b m = do {
     a_level \<leftarrow> zlog_level_list_get levels (ev_level e);
     l \<leftarrow> a_level;
     zlog_buf_append b (str l) (lv_str_len l) m
   }"

definition zlog_spec_write_level_lowercase :: "level_list \<Rightarrow> zlog_event \<Rightarrow> zlog_buf \<Rightarrow> mem \<Rightarrow> (int \<times> zlog_buf \<times> mem) option" where
  "zlog_spec_write_level_lowercase levels e b m = zlog_spec_write_level lv_str_lowercase levels e b m"

definition zlog_spec_write_level_uppercase :: "level_list \<Rightarrow> zlog_event \<Rightarrow> zlog_buf \<Rightarrow> mem \<Rightarrow> (int \<times> zlog_buf \<times> mem) option" where
  "zlog_spec_write_level_uppercase levels e b m = zlog_spec_write_level lv_str_uppercase levels e b m"

subsection \<open>The user message\<close>

text \<open>A sequence of operations on a buffer, left at the first return code that is not 0.\<close>

fun run_puts :: "(zlog_buf \<Rightarrow> mem \<Rightarrow> (int \<times> zlog_buf \<times> mem) option) list \<Rightarrow> zlog_buf \<Rightarrow> mem \<Rightarrow> (int \<times> zlog_buf \<times> mem) option" where
  "run_puts [] b m = Some (0, b, m)"
| "run_puts (f # fs) b m = do { (rc, b, m) \<leftarrow> f b m; if rc \<noteq> 0 then Some (rc, b, m) else run_puts fs b m }"

definition put_text :: "string \<Rightarrow> zlog_buf \<Rightarrow> mem \<Rightarrow> (int \<times> zlog_buf \<times> mem) option" where
  "put_text s b m = zlog_buf_append b s (length s) m"

text \<open>The two inner loops of the hex dump: one byte as two hex digits, and as a printable character.\<close>

definition hex_byte :: "string \<Rightarrow> nat \<Rightarrow> nat \<Rightarrow> (zlog_buf \<Rightarrow> mem \<Rightarrow> (int \<times> zlog_buf \<times> mem) option) list" where
  "hex_byte buf len i =
     (if i < len
      then [\<lambda>b m. do { c \<leftarrow> cell buf (int i); zlog_buf_printf_hex b (of_nat (of_char c)) 2 m }, put_text '' '']
      else [put_text ''   ''])"

definition hex_char :: "string \<Rightarrow> nat \<Rightarrow> nat \<Rightarrow> zlog_buf \<Rightarrow> mem \<Rightarrow> (int \<times> zlog_buf \<times> mem) option" where
  "hex_char buf len i =
     (if i < len
      then \<lambda>b m. do {
        c \<leftarrow> cell buf (int i);
        put_text [if 32 \<le> (of_char c :: nat) \<and> (of_char c :: nat) \<le> 126 then c else CHR ''.''] b m }
      else put_text '' '')"

definition hex_line :: "string \<Rightarrow> nat \<Rightarrow> nat \<Rightarrow> zlog_buf \<Rightarrow> mem \<Rightarrow> (int \<times> zlog_buf \<times> mem) option" where
  "hex_line buf len line_offset =
     run_puts ([put_text [CHR 0x0A], \<lambda>b m. zlog_buf_printf_dec64 b (of_nat (line_offset + 1)) 10 m, put_text ''   ''] @
       concat (map (\<lambda>i. hex_byte buf len (line_offset * 16 + i)) [0..<16]) @ [put_text ''  ''] @
       map (\<lambda>i. hex_char buf len (line_offset * 16 + i)) [0..<16])"

text \<open>The loop over the lines. It ends with the line that reaches the length.\<close>

function hex_lines :: "string \<Rightarrow> nat \<Rightarrow> nat \<Rightarrow> zlog_buf \<Rightarrow> mem \<Rightarrow> (int \<times> zlog_buf \<times> mem) option" where
  "hex_lines buf len line_offset b m = do {
     (rc, b, m) \<leftarrow> hex_line buf len line_offset b m;
     if rc \<noteq> 0 then Some (rc, b, m)
     else if line_offset * 16 + 16 \<ge> len then Some (0, b, m)
     else hex_lines buf len (line_offset + 1) b m
   }"
  by pat_completeness auto

termination
  by (relation "measure (\<lambda>(_, len, k, _, _). len - k * 16)") auto

definition zlog_spec_write_usrmsg :: "zlog_event \<Rightarrow> zlog_buf \<Rightarrow> mem \<Rightarrow> (int \<times> zlog_buf \<times> mem) option" where
  "zlog_spec_write_usrmsg e b m =
     (case ev_generate_cmd e of
        ZLOG_FMT \<Rightarrow>
          (case ev_str_format e of
             Some out \<Rightarrow> zlog_buf_vprintf b out m
           | None \<Rightarrow> zlog_buf_append b ''format=(null)'' (length ''format=(null)'') m)
      | ZLOG_HEX \<Rightarrow> do {
          (rc, b, m) \<leftarrow>
            (case ev_hex_buf e of
               None \<Rightarrow> put_text ''buf=(null)'' b m
             | Some buf \<Rightarrow> run_puts [put_text ZLOG_HEX_HEAD, hex_lines buf (ev_hex_buf_len e) 0] b m);
          if rc < 0 then Some (-1, b, m) else if rc > 0 then Some (1, b, m) else Some (0, b, m)
        })"

text \<open>The call \<open>a_spec->write_buf(a_spec, a_thread, a_buf)\<close>.\<close>

definition zlog_spec_write ::
  "libc \<Rightarrow> level_list \<Rightarrow> zlog_spec \<Rightarrow> zlog_mdc \<Rightarrow> zlog_event \<Rightarrow> zlog_buf \<Rightarrow> 'z sys_scheme \<Rightarrow>
   (int \<times> zlog_event \<times> zlog_buf \<times> 'z sys_scheme) option" where
  "zlog_spec_write lc levels s a_mdc e b w =
     (case sp_write_buf s of
        WriteTime \<Rightarrow> zlog_spec_write_time lc s e b w
      | WriteMs \<Rightarrow> zlog_spec_write_ms e b w
      | WriteUs \<Rightarrow> zlog_spec_write_us e b w
      | WriteMdc \<Rightarrow> put_sys (zlog_spec_write_mdc s a_mdc b) e w
      | WriteStr \<Rightarrow> put_sys (zlog_spec_write_str s b) e w
      | WriteCategory \<Rightarrow> put_sys (zlog_spec_write_category e b) e w
      | WriteSrcfile \<Rightarrow> put_sys (zlog_spec_write_srcfile e b) e w
      | WriteSrcfileNeat \<Rightarrow> put_sys (zlog_spec_write_srcfile_neat e b) e w
      | WriteSrcline \<Rightarrow> put_sys (zlog_spec_write_srcline e b) e w
      | WriteSrcfunc \<Rightarrow> put_sys (zlog_spec_write_srcfunc e b) e w
      | WriteHostname \<Rightarrow> put_sys (zlog_spec_write_hostname e b) e w
      | WriteNewline \<Rightarrow> put_sys (zlog_spec_write_newline b) e w
      | WritePercent \<Rightarrow> put_sys (zlog_spec_write_percent b) e w
      | WritePid \<Rightarrow> zlog_spec_write_pid e b w
      | WriteTidHex \<Rightarrow> put_sys (zlog_spec_write_tid_hex e b) e w
      | WriteTidLong \<Rightarrow> put_sys (zlog_spec_write_tid_long e b) e w
      | WriteLevelLowercase \<Rightarrow> put_sys (zlog_spec_write_level_lowercase levels e b) e w
      | WriteLevelUppercase \<Rightarrow> put_sys (zlog_spec_write_level_uppercase levels e b) e w
      | WriteUsrmsg \<Rightarrow> put_sys (zlog_spec_write_usrmsg e b) e w)"

lemmas write_field_defs = zlog_spec_write_str_def [abs_def] zlog_spec_write_category_def [abs_def] zlog_spec_write_srcline_def [abs_def]
  zlog_spec_write_hostname_def [abs_def] zlog_spec_write_newline_def [abs_def] zlog_spec_write_percent_def [abs_def]
  zlog_spec_write_tid_hex_def [abs_def] zlog_spec_write_tid_long_def [abs_def] zlog_spec_write_level_lowercase_def [abs_def]
  zlog_spec_write_level_uppercase_def [abs_def]

subsection \<open>Generating messages and paths\<close>

text \<open>
  The six functions behind \<open>gen_msg\<close>, \<open>gen_path\<close> and \<open>gen_archive_path\<close>: they differ in the buffers only.
  The reformatting ones write into a \<open>pre\<close> buffer first and copy it with the width and precision; a full
  \<open>pre\<close> buffer is no error.
\<close>

definition gen_direct ::
  "libc \<Rightarrow> level_list \<Rightarrow> zlog_spec \<Rightarrow> zlog_mdc \<Rightarrow> zlog_event \<Rightarrow> zlog_buf \<Rightarrow> 'z sys_scheme \<Rightarrow>
   (int \<times> zlog_event \<times> zlog_buf \<times> 'z sys_scheme) option" where
  "gen_direct lc levels s a_mdc e b w = zlog_spec_write lc levels s a_mdc e b w"

definition gen_reformat ::
  "libc \<Rightarrow> level_list \<Rightarrow> zlog_spec \<Rightarrow> zlog_mdc \<Rightarrow> zlog_event \<Rightarrow> zlog_buf \<Rightarrow> zlog_buf \<Rightarrow> 'z sys_scheme \<Rightarrow>
   (int \<times> zlog_event \<times> zlog_buf \<times> zlog_buf \<times> 'z sys_scheme) option" where
  "gen_reformat lc levels s a_mdc e pre b w = do {
     (rc, e, pre, w) \<leftarrow> zlog_spec_write lc levels s a_mdc e (zlog_buf_restart pre) w;
     if rc < 0 then Some (-1, e, pre, b, w)
     else do {
       cells \<leftarrow> zb_start pre;
       str \<leftarrow> those (take (zlog_buf_len pre) cells);
       (rc, b, m) \<leftarrow> zlog_buf_adjust_append b str (zlog_buf_len pre) (sp_left_adjust s) (sp_min_width s) (sp_max_width s) (sy_mem w);
       Some (rc, e, pre, b, w\<lparr>sy_mem := m\<rparr>)
     }
   }"

definition zlog_spec_gen_msg ::
  "libc \<Rightarrow> level_list \<Rightarrow> zlog_spec \<Rightarrow> zlog_thread \<Rightarrow> 'z sys_scheme \<Rightarrow> (int \<times> zlog_thread \<times> 'z sys_scheme) option" where
  "zlog_spec_gen_msg lc levels s t w =
     (case sp_gen_msg s of
        GenDirect \<Rightarrow> do {
          (rc, e, b, w) \<leftarrow> gen_direct lc levels s (th_mdc t) (th_event t) (th_msg_buf t) w;
          Some (rc, t\<lparr>th_event := e, th_msg_buf := b\<rparr>, w)
        }
      | GenReformat \<Rightarrow> do {
          (rc, e, pre, b, w) \<leftarrow> gen_reformat lc levels s (th_mdc t) (th_event t) (th_pre_msg_buf t) (th_msg_buf t) w;
          Some (rc, t\<lparr>th_event := e, th_pre_msg_buf := pre, th_msg_buf := b\<rparr>, w)
        })"

definition zlog_spec_gen_path ::
  "libc \<Rightarrow> level_list \<Rightarrow> zlog_spec \<Rightarrow> zlog_thread \<Rightarrow> 'z sys_scheme \<Rightarrow> (int \<times> zlog_thread \<times> 'z sys_scheme) option" where
  "zlog_spec_gen_path lc levels s t w =
     (case sp_gen_path s of
        GenDirect \<Rightarrow> do {
          (rc, e, b, w) \<leftarrow> gen_direct lc levels s (th_mdc t) (th_event t) (th_path_buf t) w;
          Some (rc, t\<lparr>th_event := e, th_path_buf := b\<rparr>, w)
        }
      | GenReformat \<Rightarrow> do {
          (rc, e, pre, b, w) \<leftarrow> gen_reformat lc levels s (th_mdc t) (th_event t) (th_pre_path_buf t) (th_path_buf t) w;
          Some (rc, t\<lparr>th_event := e, th_pre_path_buf := pre, th_path_buf := b\<rparr>, w)
        })"

definition zlog_spec_gen_archive_path ::
  "libc \<Rightarrow> level_list \<Rightarrow> zlog_spec \<Rightarrow> zlog_thread \<Rightarrow> 'z sys_scheme \<Rightarrow> (int \<times> zlog_thread \<times> 'z sys_scheme) option" where
  "zlog_spec_gen_archive_path lc levels s t w =
     (case sp_gen_archive_path s of
        GenDirect \<Rightarrow> do {
          (rc, e, b, w) \<leftarrow> gen_direct lc levels s (th_mdc t) (th_event t) (th_archive_path_buf t) w;
          Some (rc, t\<lparr>th_event := e, th_archive_path_buf := b\<rparr>, w)
        }
      | GenReformat \<Rightarrow> do {
          (rc, e, pre, b, w) \<leftarrow> gen_reformat lc levels s (th_mdc t) (th_event t) (th_pre_path_buf t) (th_archive_path_buf t) w;
          Some (rc, t\<lparr>th_event := e, th_pre_path_buf := pre, th_archive_path_buf := b\<rparr>, w)
        })"

subsection \<open>Parsing\<close>

definition to_size_t :: "int \<Rightarrow> nat" where
  "to_size_t n = nat (n mod 2 ^ 64)"

definition zlog_spec_parse_print_fmt :: "zlog_spec \<Rightarrow> zlog_spec" where
  "zlog_spec_parse_print_fmt s =
     (let (left, p) = (case sp_print_fmt s of
            [] \<Rightarrow> (False, [])
          | c # cs \<Rightarrow> if c = CHR ''-'' then (True, cs) else (False, c # cs));
          i = val_int 0 (sscanf [ScanLong, ScanLit (CHR ''.'')] p) 0;
          j = (case strchr p (CHR ''.'') of
                 None \<Rightarrow> 0
               | Some q \<Rightarrow> val_int 0 (sscanf [ScanLit (CHR ''.''), ScanLong] q) 0)
      in s\<lparr>sp_left_adjust := left, sp_min_width := to_size_t i, sp_max_width := to_size_t j\<rparr>)"

definition zero_spec :: zlog_spec where
  "zero_spec = \<lparr>sp_str = [], sp_len = 0, sp_time_fmt = [], sp_time_cache_index = 0, sp_mdc_key = [], sp_print_fmt = [],
     sp_left_adjust = False, sp_max_width = 0, sp_min_width = 0, sp_write_buf = WriteStr,
     sp_gen_msg = GenDirect, sp_gen_path = GenDirect, sp_gen_archive_path = GenDirect\<rparr>"

definition spec_chars :: "(char \<times> write_fn) list" where
  "spec_chars =
     [(CHR ''c'', WriteCategory), (CHR ''F'', WriteSrcfile), (CHR ''f'', WriteSrcfileNeat), (CHR ''H'', WriteHostname),
      (CHR ''L'', WriteSrcline), (CHR ''m'', WriteUsrmsg), (CHR ''n'', WriteNewline), (CHR ''p'', WritePid),
      (CHR ''U'', WriteSrcfunc), (CHR ''v'', WriteLevelLowercase), (CHR ''V'', WriteLevelUppercase),
      (CHR ''t'', WriteTidHex), (CHR ''T'', WriteTidLong), (CHR ''%'', WritePercent)]"

text \<open>
  The part between parentheses of \<open>%d(...)\<close> and \<open>%M(...)\<close>: the scan stores it in an array and the result is
  the number of characters read, 0 when there is no closing parenthesis.
\<close>

definition scan_paren :: "char \<Rightarrow> string \<Rightarrow> bool \<times> string \<times> nat" where
  "scan_paren c p =
     (let vs = sscanf [ScanLit c, ScanLit (CHR ''(''), ScanSet (\<lambda>x. x \<noteq> CHR '')''), ScanLit (CHR '')''), ScanCount] p
      in (nscan vs = 1, val_str vs 0, nat (val_int 0 vs 1)))"

text \<open>
  \<open>zlog_spec_new\<close> on the pattern from its start on. The result is the specifier and the length of its text
  (the source returns the address behind it); \<open>Some None\<close> is a failure. The character at an index of a C string is
  the zero byte at its end. \<open>time_fmt\<close> and \<open>mdc_key\<close> are arrays that the scans do not bound.
\<close>

definition at :: "string \<Rightarrow> nat \<Rightarrow> char" where
  "at s i = (if i < length s then s ! i else CHR 0x00)"

definition spec_new_time ::
  "zlog_spec \<Rightarrow> string \<Rightarrow> nat \<Rightarrow> nat \<Rightarrow> ((zlog_spec \<times> nat) option \<times> nat) option" where
  "spec_new_time s str n time_cache_count =
     (let p = drop n str;
          res = (if at p 1 \<noteq> CHR ''('' then Some (Some (ZLOG_DEFAULT_TIME_FMT, n + 1))
                 else if strnceq p ''d()'' 3 then Some (Some (ZLOG_DEFAULT_TIME_FMT, n + 3))
                 else
                   let (ok, fmt, nread) = scan_paren (CHR ''d'') p;
                       n' = n + (if ok then nread else 0)
                   in if length fmt > MAXLEN_CFG_LINE then None
                      else if at str (n' - 1) \<noteq> CHR '')'' then Some None
                      else Some (Some (fmt, n')))
      in case res of
           None \<Rightarrow> None
         | Some None \<Rightarrow> Some (None, time_cache_count)
         | Some (Some (fmt, n')) \<Rightarrow>
             Some (Some (s\<lparr>sp_time_fmt := fmt, sp_time_cache_index := time_cache_count, sp_write_buf := WriteTime,
                           sp_len := n'\<rparr>, n'), time_cache_count + 1))"

definition spec_new_mdc :: "zlog_spec \<Rightarrow> string \<Rightarrow> nat \<Rightarrow> (zlog_spec \<times> nat) option option" where
  "spec_new_mdc s str n =
     (let p = drop n str;
          (ok, key, nread) = scan_paren (CHR ''M'') p;
          n' = n + (if ok then nread else if strnceq p ''M()'' 3 then 3 else 0)
      in if length key > MAXLEN_PATH then None
         else if at str (n' - 1) \<noteq> CHR '')'' then Some None
         else Some (Some (s\<lparr>sp_mdc_key := key, sp_write_buf := WriteMdc, sp_len := n'\<rparr>, n')))"

text \<open>A conversion: \<open>n\<close> characters of \<open>str\<close> are the percent sign and the width.\<close>

definition spec_new_conv ::
  "zlog_spec \<Rightarrow> string \<Rightarrow> nat \<Rightarrow> nat \<Rightarrow> ((zlog_spec \<times> nat) option \<times> nat) option" where
  "spec_new_conv s str n time_cache_count =
     (let p = drop n str in
      if at str n = CHR ''d'' then spec_new_time s str n time_cache_count
      else if at str n = CHR ''M'' then do { r \<leftarrow> spec_new_mdc s str n; Some (r, time_cache_count) }
      else if strnceq p ''ms'' 2 then
        Some (Some (s\<lparr>sp_write_buf := WriteMs, sp_len := n + 2\<rparr>, n + 2), time_cache_count)
      else if strnceq p ''us'' 2 then
        Some (Some (s\<lparr>sp_write_buf := WriteUs, sp_len := n + 2\<rparr>, n + 2), time_cache_count)
      else
        let s = s\<lparr>sp_len := n + 1\<rparr> in
        if at str n = CHR ''D'' then
          Some (Some (s\<lparr>sp_time_fmt := ZLOG_DEFAULT_TIME_FMT, sp_time_cache_index := time_cache_count,
                        sp_write_buf := WriteTime\<rparr>, n + 1), time_cache_count + 1)
        else
          case map_of spec_chars (at str n) of
            None \<Rightarrow> Some (None, time_cache_count)
          | Some f \<Rightarrow> Some (Some (s\<lparr>sp_write_buf := f\<rparr>, n + 1), time_cache_count))"

definition zlog_spec_new ::
  "string \<Rightarrow> nat \<Rightarrow> mem \<Rightarrow> ((zlog_spec \<times> nat) option \<times> nat \<times> mem) option" where
  "zlog_spec_new str time_cache_count m =
     (let (ok, m) = alloc m in
      if \<not> ok then Some (None, time_cache_count, m)
      else
        let s = zero_spec\<lparr>sp_str := str\<rparr> in
        if at str 0 = CHR ''%'' then
          let vs = sscanf [ScanLit (CHR ''%''), ScanSet (\<lambda>c. c = CHR ''.'' \<or> isdigit c \<or> c = CHR ''-''), ScanCount] str;
              (s, n) =
                (if nscan vs = 1
                 then (zlog_spec_parse_print_fmt (s\<lparr>sp_print_fmt := val_str vs 0, sp_gen_msg := GenReformat,
                         sp_gen_path := GenReformat, sp_gen_archive_path := GenReformat\<rparr>), nat (val_int 0 vs 1))
                 else (s, 1))
          in if length (sp_print_fmt s) > MAXLEN_CFG_LINE then None
             else do { (r, time_cache_count) \<leftarrow> spec_new_conv s str n time_cache_count; Some (r, time_cache_count, m) }
        else
          let n = (case strchr str (CHR ''%'') of Some q \<Rightarrow> length str - length q | None \<Rightarrow> length str) in
          Some (Some (s\<lparr>sp_len := n, sp_write_buf := WriteStr\<rparr>, n), time_cache_count, m))"

subsection \<open>What a specifier writes\<close>

text \<open>
  The reference: the text of a specifier for an event, given the time (seconds and microseconds) and the process
  id that the event is about. There are no caches here.
\<close>

definition hex_dump_line :: "string \<Rightarrow> nat \<Rightarrow> string" where
  "hex_dump_line buf k =
     [CHR 0x0A] @ pad_zero 10 (base_string 10 (k + 1)) @ ''   '' @
     concat (map (\<lambda>i. if k * 16 + i < length buf then pad_zero 2 (base_string 16 (of_char (buf ! (k * 16 + i)))) @ '' '' else ''   '') [0..<16]) @
     ''  '' @
     map (\<lambda>i. if k * 16 + i < length buf
              then let c = buf ! (k * 16 + i) in if 32 \<le> (of_char c :: nat) \<and> (of_char c :: nat) \<le> 126 then c else CHR ''.''
              else CHR '' '') [0..<16]"

definition hex_dump :: "string \<Rightarrow> string" where
  "hex_dump buf = ZLOG_HEX_HEAD @ concat (map (hex_dump_line buf) [0..<max 1 ((length buf + 15) div 16)])"

definition usrmsg_text :: "zlog_event \<Rightarrow> string" where
  "usrmsg_text e =
     (case ev_generate_cmd e of
        ZLOG_FMT \<Rightarrow> (case ev_str_format e of None \<Rightarrow> ''format=(null)'' | Some out \<Rightarrow> the out)
      | ZLOG_HEX \<Rightarrow> (case ev_hex_buf e of None \<Rightarrow> ''buf=(null)'' | Some buf \<Rightarrow> hex_dump (take (ev_hex_buf_len e) buf)))"

definition level_of :: "level_list \<Rightarrow> zlog_event \<Rightarrow> zlog_level" where
  "level_of levels e = the (the (zlog_level_list_get levels (ev_level e)))"

definition neat :: "string \<Rightarrow> string" where
  "neat f = (case strrchr f (CHR ''/'') of None \<Rightarrow> f | Some p \<Rightarrow> drop 1 p)"

definition raw_text ::
  "libc \<Rightarrow> level_list \<Rightarrow> zlog_mdc \<Rightarrow> zlog_event \<Rightarrow> (int \<times> int) \<times> int \<Rightarrow> zlog_spec \<Rightarrow> string" where
  "raw_text lc levels a_mdc e at_time s =
     (case at_time of ((sec, usec), pid) \<Rightarrow>
       (case sp_write_buf s of
          WriteTime \<Rightarrow> strftime lc (MAXLEN_CFG_LINE + 1) (sp_time_fmt s) (lc_localtime lc sec)
        | WriteMs \<Rightarrow> pad_zero 3 (base_string 10 (nat (usec div 1000)))
        | WriteUs \<Rightarrow> pad_zero 6 (base_string 10 (nat usec))
        | WriteMdc \<Rightarrow> (case zlog_mdc_get a_mdc (sp_mdc_key s) of Some (Some v) \<Rightarrow> v | _ \<Rightarrow> [])
        | WriteStr \<Rightarrow> take (sp_len s) (sp_str s)
        | WriteCategory \<Rightarrow> ev_category_name e
        | WriteSrcfile \<Rightarrow> (case ev_file e of None \<Rightarrow> ''(file=null)'' | Some f \<Rightarrow> f)
        | WriteSrcfileNeat \<Rightarrow> neat (the (ev_file e))
        | WriteSrcline \<Rightarrow> base_string 10 (unat (ev_line e))
        | WriteSrcfunc \<Rightarrow> (if ev_file e = None then ''(func=null)'' else the (ev_func e))
        | WriteHostname \<Rightarrow> ev_host_name e
        | WriteNewline \<Rightarrow> [CHR 0x0A]
        | WritePercent \<Rightarrow> ''%''
        | WritePid \<Rightarrow> base_string 10 (nat (pid mod 2 ^ 32))
        | WriteTidHex \<Rightarrow> ev_tid_hex_str e
        | WriteTidLong \<Rightarrow> ev_tid_str e
        | WriteLevelLowercase \<Rightarrow> lv_str_lowercase (level_of levels e)
        | WriteLevelUppercase \<Rightarrow> lv_str_uppercase (level_of levels e)
        | WriteUsrmsg \<Rightarrow> usrmsg_text e))"

text \<open>The time and the process id that the event has or will get.\<close>

definition event_time :: "zlog_event \<Rightarrow> 'z sys_scheme \<Rightarrow> (int \<times> int) \<times> int" where
  "event_time e w =
     (if fst (ev_time_stamp e) = 0 then sy_clock w (sy_ticks w) else ev_time_stamp e,
      if ev_pid e = 0 then sy_pid w else ev_pid e)"

text \<open>The event without what the write functions cache in it.\<close>

definition event_data :: "zlog_event \<Rightarrow> zlog_event" where
  "event_data e = e\<lparr>ev_time_stamp := (0, 0), ev_time_local_sec := 0, ev_time_local := zero_tm,
     ev_time_caches := [], ev_pid := 0, ev_last_pid := 0, ev_pid_str := [], ev_pid_str_len := 0\<rparr>"

lemma event_data_fields:
  assumes "event_data e' = event_data e"
  shows "ev_category_name e' = ev_category_name e" "ev_category_name_len e' = ev_category_name_len e"
    "ev_host_name e' = ev_host_name e" "ev_host_name_len e' = ev_host_name_len e" "ev_file e' = ev_file e"
    "ev_file_len e' = ev_file_len e" "ev_func e' = ev_func e" "ev_func_len e' = ev_func_len e" "ev_line e' = ev_line e"
    "ev_level e' = ev_level e" "ev_hex_buf e' = ev_hex_buf e" "ev_hex_buf_len e' = ev_hex_buf_len e"
    "ev_str_format e' = ev_str_format e" "ev_generate_cmd e' = ev_generate_cmd e"
    "ev_tid_str e' = ev_tid_str e" "ev_tid_str_len e' = ev_tid_str_len e" "ev_tid_hex_str e' = ev_tid_hex_str e"
    "ev_tid_hex_str_len e' = ev_tid_hex_str_len e"
  using assms by (cases e; cases e'; simp add: event_data_def)+

subsection \<open>Operations that add a text\<close>

text \<open>An operation on a buffer that adds the text \<open>s\<close>, in the sense of \<open>buf_puts\<close>.\<close>

definition puts :: "(zlog_buf \<Rightarrow> mem \<Rightarrow> (int \<times> zlog_buf \<times> mem) option) \<Rightarrow> string \<Rightarrow> bool" where
  "puts f s \<longleftrightarrow> (\<forall>b m. buf_inv b \<longrightarrow> buf_ready b \<longrightarrow> (\<exists>r. f b m = Some r \<and> buf_puts b s m r))"

named_theorems puts_intros \<open>operations and the texts they add\<close>

lemma putsD: "puts f s \<Longrightarrow> buf_inv b \<Longrightarrow> buf_ready b \<Longrightarrow> \<exists>rc b' m'. f b m = Some (rc, b', m') \<and> buf_puts b s m (rc, b', m')"
  unfolding puts_def by (metis prod_cases3)

lemma puts_append: "n = length s \<Longrightarrow> puts (\<lambda>b m. zlog_buf_append b s n m) s"
  using app.put_spec by (simp add: puts_def)

lemma puts_prefix: "n \<le> length s \<Longrightarrow> puts (\<lambda>b m. zlog_buf_append b s n m) (take n s)"
proof -
  assume n: "n \<le> length s"
  have "zlog_buf_append b s n m = zlog_buf_append b (take n s) n m" if "buf_inv b" "buf_ready b" for b m
    using append_put [OF that, of n s m] append_put [OF that, of n "take n s" m] n by simp
  then show ?thesis using app.put_spec [of _ "take n s"] n by (simp add: puts_def)
qed

lemma puts_text [puts_intros]: "puts (put_text s) s"
  using puts_append [of "length s" s] by (simp add: put_text_def [abs_def])

lemma puts_vprintf: "puts (\<lambda>b m. zlog_buf_vprintf b (Some s) m) s"
  using fmt.put_spec by (simp add: puts_def)

lemma puts_dec32: "puts (\<lambda>b m. zlog_buf_printf_dec32 b n width m) (pad_zero width (base_string 10 (unat n)))"
  by (auto simp: puts_def dec32_put intro: buf_put_spec)

lemma puts_dec64: "puts (\<lambda>b m. zlog_buf_printf_dec64 b n width m) (pad_zero width (base_string 10 (unat n)))"
  by (auto simp: puts_def dec64_put intro: buf_put_spec)

lemma puts_hex: "puts (\<lambda>b m. zlog_buf_printf_hex b n width m) (pad_zero width (base_string 16 (unat n)))"
  by (auto simp: puts_def hex_put intro: buf_put_spec)

lemma ready_below_max: "buf_inv b \<Longrightarrow> buf_ready b \<Longrightarrow> zb_size_max b \<noteq> 0 \<Longrightarrow> length (buf_text b) < zb_size_max b"
  using buf_text_length [of b] by (auto simp: buf_inv_def elim!: buf_readyE)

lemma buf_puts_nil: "buf_inv b \<Longrightarrow> buf_ready b \<Longrightarrow> buf_puts b [] m (0, b, m)"
  using ready_below_max [of b] by (auto simp: buf_puts_def)

lemma buf_puts_next:
  assumes "buf_puts b s m (rc, b1, m1)" and "rc = 0 \<Longrightarrow> buf_puts b1 s' m1 r" and "rc \<noteq> 0 \<Longrightarrow> r = (rc, b1, m1)"
  shows "buf_puts b (s @ s') m r"
proof -
  consider "rc = 0" | "rc = 1" | "rc = -1" using buf_puts_rc [OF assms(1)] by blast
  then show ?thesis
  proof cases
    case 1 then show ?thesis using assms(1,2) buf_puts_zero by blast
  next
    case 2 then show ?thesis using assms(1,3) buf_puts_one by simp
  next
    case 3 then show ?thesis using assms(1,3) buf_puts_lost by simp
  qed
qed

lemma buf_puts_ready: "buf_puts b s m (0, b1, m1) \<Longrightarrow> buf_inv b1 \<and> buf_ready b1"
  by (simp add: buf_puts_def)

lemma run_puts_concat: "list_all2 puts fs ss \<Longrightarrow> puts (run_puts fs) (concat ss)"
proof (induction fs ss rule: list_all2_induct)
  case Nil
  then show ?case by (simp add: puts_def buf_puts_nil)
next
  case (Cons f fs s ss)
  show ?case
    unfolding puts_def
  proof (intro allI impI)
    fix b m assume b: "buf_inv b" "buf_ready b"
    obtain rc b1 m1 where f: "f b m = Some (rc, b1, m1)" "buf_puts b s m (rc, b1, m1)" using putsD [OF Cons(1) b] by blast
    show "\<exists>r. run_puts (f # fs) b m = Some r \<and> buf_puts b (concat (s # ss)) m r"
    proof (cases "rc = 0")
      case True
      then have "buf_inv b1 \<and> buf_ready b1" using f buf_puts_ready by blast
      then obtain r where "run_puts fs b1 m1 = Some r" "buf_puts b1 (concat ss) m1 r"
        using Cons.IH unfolding puts_def by blast
      then show ?thesis using f True buf_puts_next [OF f(2)] by auto
    next
      case False
      then show ?thesis using f buf_puts_next [OF f(2)] by auto
    qed
  qed
qed

lemma run_puts_rc: "puts f s \<Longrightarrow> puts (\<lambda>b m. do { (rc, b, m) \<leftarrow> f b m;
    if rc < 0 then Some (-1, b, m) else if rc > 0 then Some (1, b, m) else Some (0, b, m) }) s"
proof -
  assume f: "puts f s"
  show ?thesis
    unfolding puts_def
  proof (intro allI impI)
    fix b m assume "buf_inv b" "buf_ready b"
    then obtain rc b1 m1 where "f b m = Some (rc, b1, m1)" "buf_puts b s m (rc, b1, m1)" using putsD [OF f] by blast
    then show "\<exists>r. (do { (rc, b, m) \<leftarrow> f b m;
        if rc < 0 then Some (-1, b, m) else if rc > 0 then Some (1, b, m) else Some (0, b, m) }) = Some r \<and> buf_puts b s m r"
      using buf_puts_rc [of b s m rc b1 m1] by auto
  qed
qed

subsection \<open>The hex dump\<close>

lemma hex_byte_puts:
  assumes "len \<le> length buf"
  shows "list_all2 puts (hex_byte buf len i)
    (if i < len then [pad_zero 2 (base_string 16 (of_char (buf ! i))), '' ''] else [''   ''])"
proof -
  have "unat (of_nat (of_char c) :: 32 word) = of_char c" for c
  proof -
    have "(of_char c :: nat) < 2 ^ 32" using nat_of_char_less_256 [of c] by (rule less_trans) simp
    then show ?thesis by (simp add: unat_of_nat take_bit_nat_eq_self)
  qed
  then show ?thesis
    using assms puts_hex [of "of_nat (of_char (buf ! i))" 2] by (simp add: hex_byte_def puts_intros)
qed

lemma hex_char_puts:
  assumes "len \<le> length buf"
  shows "puts (hex_char buf len i) [if i < len
     then (if 32 \<le> (of_char (buf ! i) :: nat) \<and> (of_char (buf ! i) :: nat) \<le> 126 then buf ! i else CHR ''.'') else CHR '' '']"
  using assms by (simp add: hex_char_def puts_text)

lemma list_all2_concat: "list_all2 (list_all2 R) xss yss \<Longrightarrow> list_all2 R (concat xss) (concat yss)"
  by (induction xss yss rule: list_all2_induct) (auto intro: list_all2_appendI)

lemma concat_concat_map: "concat (concat (map f xs)) = concat (map (\<lambda>x. concat (f x)) xs)"
  by (induction xs) auto

lemma hex_line_puts:
  assumes "len \<le> length buf" and "k + 1 < 2 ^ 64"
  shows "puts (hex_line buf len k) (hex_dump_line (take len buf) k)"
proof -
  let ?bs = "\<lambda>i. if k * 16 + i < len then [pad_zero 2 (base_string 16 (of_char (buf ! (k * 16 + i)))), '' ''] else [''   '']"
  let ?cs = "\<lambda>i. [if k * 16 + i < len
     then (if 32 \<le> (of_char (buf ! (k * 16 + i)) :: nat) \<and> (of_char (buf ! (k * 16 + i)) :: nat) \<le> 126 then buf ! (k * 16 + i) else CHR ''.'') else CHR '' '']"
  let ?ss = "[[CHR 0x0A], pad_zero 10 (base_string 10 (k + 1)), ''   ''] @ concat (map ?bs [0..<16]) @ [''  ''] @ map ?cs [0..<16]"
  have n: "unat (of_nat (k + 1) :: 64 word) = k + 1" using assms(2) by (simp only: unat_of_nat) (simp add: take_bit_nat_eq_self)
  have "list_all2 (list_all2 puts) (map (\<lambda>i. hex_byte buf len (k * 16 + i)) [0..<16]) (map ?bs [0..<16])"
    unfolding list.rel_map by (intro list.rel_refl_strong hex_byte_puts [OF assms(1)])
  then have bs: "list_all2 puts (concat (map (\<lambda>i. hex_byte buf len (k * 16 + i)) [0..<16])) (concat (map ?bs [0..<16]))"
    by (rule list_all2_concat)
  have cs: "list_all2 puts (map (\<lambda>i. hex_char buf len (k * 16 + i)) [0..<16]) (map ?cs [0..<16])"
    unfolding list.rel_map by (intro list.rel_refl_strong hex_char_puts [OF assms(1)])
  have "puts (hex_line buf len k) (concat ?ss)"
    unfolding hex_line_def
    using puts_dec64 [of "of_nat (k + 1)" 10, unfolded n]
    by (intro run_puts_concat list_all2_appendI bs cs) (simp_all add: puts_intros)
  moreover have "concat ?ss = [CHR 0x0A] @ pad_zero 10 (base_string 10 (k + 1)) @ ''   '' @
      concat (map (\<lambda>i. concat (?bs i)) [0..<16]) @ ''  '' @ map (\<lambda>i. hd (?cs i)) [0..<16]"
    by (simp only: concat_append concat.simps append_Nil append_Nil2 append_assoc append_Cons concat_concat_map concat_map_singleton list.sel)
  moreover have "map (\<lambda>i. concat (?bs i)) [0..<16] = map (\<lambda>i. if k * 16 + i < length (take len buf)
      then pad_zero 2 (base_string 16 (of_char (take len buf ! (k * 16 + i)))) @ '' '' else ''   '') [0..<16]"
    using assms(1) by (intro map_cong refl) simp
  moreover have "map (\<lambda>i. hd (?cs i)) [0..<16] = map (\<lambda>i. if k * 16 + i < length (take len buf)
      then let c = take len buf ! (k * 16 + i) in if 32 \<le> (of_char c :: nat) \<and> (of_char c :: nat) \<le> 126 then c else CHR ''.''
      else CHR '' '') [0..<16]"
    using assms(1) by (intro map_cong refl) (simp add: Let_def)
  ultimately show ?thesis unfolding hex_dump_line_def by (simp only:)
qed

lemma hex_lines_puts:
  assumes "len \<le> length buf" and "len < 2 ^ 63" and "k < max 1 ((len + 15) div 16)"
  shows "buf_inv b \<Longrightarrow> buf_ready b \<Longrightarrow> \<exists>r. hex_lines buf len k b m = Some r \<and>
    buf_puts b (concat (map (hex_dump_line (take len buf)) [k..<max 1 ((len + 15) div 16)])) m r"
  using assms
proof (induction buf len k b m rule: hex_lines.induct)
  case (1 buf len k b m)
  let ?N = "max 1 ((len + 15) div 16)" and ?l = "hex_dump_line (take len buf)"
  have "k + 1 < 2 ^ 64" using 1(5,6) by auto
  from putsD [OF hex_line_puts [OF 1(4) this] 1(2,3), of m] obtain rc b1 m1 where
    l: "hex_line buf len k b m = Some (rc, b1, m1)" "buf_puts b (?l k) m (rc, b1, m1)" by blast
  have up: "[k..<?N] = k # [Suc k..<?N]" using 1(6) by (simp add: upt_conv_Cons)
  show ?case
  proof (cases "rc \<noteq> 0 \<or> len \<le> k * 16 + 16")
    case True
    then have "hex_lines buf len k b m = Some (rc, b1, m1)" using l by auto
    moreover have "buf_puts b (?l k @ concat (map ?l [Suc k..<?N])) m (rc, b1, m1)"
    proof (cases "rc = 0")
      case True
      then have "?N \<le> Suc k" using \<open>rc \<noteq> 0 \<or> len \<le> k * 16 + 16\<close> 1(6) by auto
      then show ?thesis using l by simp
    next
      case False then show ?thesis using buf_puts_next [OF l(2)] by blast
    qed
    ultimately show ?thesis using up by simp
  next
    case False
    then have "buf_inv b1" "buf_ready b1" "Suc k < ?N" using l buf_puts_ready by auto
    with 1(1) [OF l(1) refl refl] 1(4,5) False obtain r where
      "hex_lines buf len (Suc k) b1 m1 = Some r" "buf_puts b1 (concat (map ?l [Suc k..<?N])) m1 r" by auto
    then show ?thesis using l False up buf_puts_next [OF l(2), of "concat (map ?l [Suc k..<?N])" r] by auto
  qed
qed

declare hex_lines.simps [simp del]

text \<open>What the lengths recorded in an event promise: the length of each text, and of the dumped block at most.\<close>

definition event_lens :: "zlog_event \<Rightarrow> bool" where
  "event_lens e \<longleftrightarrow> ev_category_name_len e = length (ev_category_name e) \<and> ev_host_name_len e = length (ev_host_name e) \<and>
     (\<forall>f. ev_file e = Some f \<longrightarrow> ev_file_len e = length f) \<and> (\<forall>f. ev_func e = Some f \<longrightarrow> ev_func_len e = length f) \<and>
     ev_tid_str_len e = length (ev_tid_str e) \<and> ev_tid_hex_str_len e = length (ev_tid_hex_str e) \<and>
     (ev_generate_cmd e = ZLOG_FMT \<longrightarrow> ev_str_format e \<noteq> Some None) \<and>
     (ev_generate_cmd e = ZLOG_HEX \<longrightarrow> (\<forall>buf. ev_hex_buf e = Some buf \<longrightarrow> ev_hex_buf_len e \<le> length buf \<and> ev_hex_buf_len e < 2 ^ 63))"

lemma usrmsg_puts: "event_lens e \<Longrightarrow> puts (zlog_spec_write_usrmsg e) (usrmsg_text e)"
proof (cases "ev_generate_cmd e")
  case ZLOG_FMT
  assume "event_lens e"
  then show ?thesis
    using ZLOG_FMT
    by (cases "ev_str_format e")
       (auto simp: event_lens_def zlog_spec_write_usrmsg_def [abs_def] usrmsg_text_def intro: puts_vprintf puts_append)
next
  case ZLOG_HEX
  assume ok: "event_lens e"
  let ?f = "\<lambda>b m. case ev_hex_buf e of None \<Rightarrow> put_text ''buf=(null)'' b m
      | Some buf \<Rightarrow> run_puts [put_text ZLOG_HEX_HEAD, hex_lines buf (ev_hex_buf_len e) 0] b m"
  have "puts ?f (usrmsg_text e)"
  proof (cases "ev_hex_buf e")
    case None
    then show ?thesis using ZLOG_HEX puts_text by (simp add: usrmsg_text_def)
  next
    case (Some buf)
    let ?len = "ev_hex_buf_len e"
    have len: "?len \<le> length buf" "?len < 2 ^ 63" using ok Some ZLOG_HEX by (auto simp: event_lens_def)
    have "puts (hex_lines buf ?len 0) (concat (map (hex_dump_line (take ?len buf)) [0..<max 1 ((?len + 15) div 16)]))"
      unfolding puts_def using hex_lines_puts [OF len, of 0] by simp
    then have "puts (run_puts [put_text ZLOG_HEX_HEAD, hex_lines buf ?len 0])
        (concat [ZLOG_HEX_HEAD, concat (map (hex_dump_line (take ?len buf)) [0..<max 1 ((?len + 15) div 16)])])"
      by (intro run_puts_concat) (simp add: puts_text)
    moreover have "usrmsg_text e = concat [ZLOG_HEX_HEAD, concat (map (hex_dump_line (take ?len buf)) [0..<max 1 ((?len + 15) div 16)])]"
      using Some ZLOG_HEX len by (simp add: usrmsg_text_def hex_dump_def)
    ultimately show ?thesis using Some by (simp only: option.case)
  qed
  from run_puts_rc [OF this] show ?thesis
    using ZLOG_HEX by (simp add: zlog_spec_write_usrmsg_def [abs_def])
qed

subsection \<open>Writing a specifier\<close>

text \<open>
  The caches of an event, for the time formats \<open>fmts\<close> that belong to their indices: a cached text is that of
  its second, and the text of the process id is that of \<open>last_pid\<close>. A second, or a process id, that is 0 marks
  an empty cache.
\<close>

definition cache_ok :: "libc \<Rightarrow> string option \<Rightarrow> zlog_time_cache \<Rightarrow> bool" where
  "cache_ok lc fmt c \<longleftrightarrow> tc_len c = length (tc_str c) \<and>
     (tc_sec c \<noteq> 0 \<longrightarrow> (\<forall>f. fmt = Some f \<longrightarrow> tc_str c = strftime lc (MAXLEN_CFG_LINE + 1) f (lc_localtime lc (tc_sec c))))"

definition event_ok :: "libc \<Rightarrow> (nat \<rightharpoonup> string) \<Rightarrow> zlog_event \<Rightarrow> bool" where
  "event_ok lc fmts e \<longleftrightarrow>
     (\<forall>i < length (ev_time_caches e). cache_ok lc (fmts i) (ev_time_caches e ! i)) \<and>
     (ev_time_local_sec e \<noteq> 0 \<longrightarrow> ev_time_local e = lc_localtime lc (ev_time_local_sec e)) \<and>
     (ev_last_pid e \<noteq> 0 \<longrightarrow> ev_pid_str e = base_string 10 (nat (ev_last_pid e mod 2 ^ 32))) \<and>
     ev_pid_str_len e = length (ev_pid_str e) \<and> (ev_pid e \<noteq> 0 \<longrightarrow> ev_last_pid e = ev_pid e)"

text \<open>What the arguments of a specifier promise for an event with \<open>n\<close> time caches.\<close>

definition level_ok :: "level_list \<Rightarrow> int \<Rightarrow> bool" where
  "level_ok levels l \<longleftrightarrow> (\<exists>lv. zlog_level_list_get levels l = Some (Some lv) \<and>
     lv_str_len lv = length (lv_str_lowercase lv) \<and> lv_str_len lv = length (lv_str_uppercase lv))"

definition mdc_lens :: "zlog_mdc \<Rightarrow> bool" where
  "mdc_lens a_mdc \<longleftrightarrow> mdc_ok a_mdc \<and> (\<forall>kv \<in> ran (ht_abs (mdc_tab a_mdc)). kv_value_len kv = length (kv_value kv))"

definition spec_ok :: "(nat \<rightharpoonup> string) \<Rightarrow> nat \<Rightarrow> zlog_spec \<Rightarrow> bool" where
  "spec_ok fmts n s \<longleftrightarrow>
     (sp_write_buf s = WriteTime \<longrightarrow> sp_time_cache_index s < n \<and> fmts (sp_time_cache_index s) = Some (sp_time_fmt s)) \<and>
     (sp_write_buf s = WriteStr \<longrightarrow> sp_len s \<le> length (sp_str s))"

definition event_has :: "zlog_event \<Rightarrow> zlog_spec \<Rightarrow> bool" where
  "event_has e s \<longleftrightarrow> (sp_write_buf s = WriteSrcfileNeat \<longrightarrow> ev_file e \<noteq> None) \<and>
     (sp_write_buf s = WriteSrcfunc \<longrightarrow> ev_file e \<noteq> None \<longrightarrow> ev_func e \<noteq> None)"

definition time_ok :: "(int \<times> int) \<times> int \<Rightarrow> bool" where
  "time_ok at_time \<longleftrightarrow> fst (fst at_time) \<noteq> 0 \<and> 0 \<le> snd (fst at_time) \<and> snd (fst at_time) < 1000000 \<and> snd at_time \<noteq> 0"

text \<open>The system after a call: the allocator and the clock may have moved.\<close>

definition sys_moved :: "'z sys_scheme \<Rightarrow> 'z sys_scheme \<Rightarrow> bool" where
  "sys_moved w w' \<longleftrightarrow> w' = w\<lparr>sy_mem := sy_mem w', sy_ticks := sy_ticks w'\<rparr>"

lemma sys_moved_refl [simp]: "sys_moved w w"
  by (simp add: sys_moved_def)

lemma sys_moved_trans: "sys_moved w w' \<Longrightarrow> sys_moved w' w'' \<Longrightarrow> sys_moved w w''"
  unfolding sys_moved_def by (metis (no_types, lifting) sys.surjective sys.update_convs(1,3))

lemma sys_moved_mem [simp]: "sys_moved w (w'\<lparr>sy_mem := m\<rparr>) \<longleftrightarrow> sys_moved w w'"
  by (cases w; cases w') (auto simp: sys_moved_def)

lemma event_time_upd [simp]:
  "event_time e (w\<lparr>sy_mem := m\<rparr>) = event_time e w" "event_time (e\<lparr>ev_time_local := t\<rparr>) w = event_time e w"
  "event_time (e\<lparr>ev_time_local_sec := n\<rparr>) w = event_time e w" "event_time (e\<lparr>ev_time_caches := cs\<rparr>) w = event_time e w"
  by (simp_all add: event_time_def)

lemma event_data_upd [simp]:
  "event_data (e\<lparr>ev_time_local := t\<rparr>) = event_data e" "event_data (e\<lparr>ev_time_local_sec := n\<rparr>) = event_data e"
  "event_data (e\<lparr>ev_time_caches := cs\<rparr>) = event_data e"
  by (simp_all add: event_data_def)

lemma event_ok_local: "event_ok lc fmts e \<Longrightarrow> event_ok lc fmts (e\<lparr>ev_time_local := lc_localtime lc n, ev_time_local_sec := n\<rparr>)"
  by (simp add: event_ok_def)

lemma event_ok_cache:
  assumes "event_ok lc fmts e" and "cache_ok lc (fmts i) c"
  shows "event_ok lc fmts (e\<lparr>ev_time_caches := (ev_time_caches e)[i := c]\<rparr>)"
proof -
  have "cache_ok lc (fmts j) ((ev_time_caches e)[i := c] ! j)" if "j < length (ev_time_caches e)" for j
    using assms that by (cases "i = j") (simp_all add: event_ok_def)
  then show ?thesis using assms(1) by (simp add: event_ok_def)
qed

lemma event_ok_hit:
  "event_ok lc fmts e \<Longrightarrow> i < length (ev_time_caches e) \<Longrightarrow> fmts i = Some f \<Longrightarrow> tc_sec (ev_time_caches e ! i) = n \<Longrightarrow> n \<noteq> 0 \<Longrightarrow>
   tc_str (ev_time_caches e ! i) = strftime lc (MAXLEN_CFG_LINE + 1) f (lc_localtime lc n) \<and>
   tc_len (ev_time_caches e ! i) = length (tc_str (ev_time_caches e ! i))"
  by (simp add: event_ok_def cache_ok_def)

lemma stamp_facts:
  assumes "event_stamp e w = (e1, w1)" and "event_ok lc fmts e" and "time_ok (event_time e w)"
  shows "event_ok lc fmts e1 \<and> event_data e1 = event_data e \<and> ev_time_caches e1 = ev_time_caches e \<and>
    event_time e1 w1 = event_time e w \<and> ev_time_stamp e1 = fst (event_time e w) \<and> sys_moved w w1 \<and> sy_mem w1 = sy_mem w"
proof (cases "fst (ev_time_stamp e) = 0")
  case True
  then have "e1 = e\<lparr>ev_time_stamp := sy_clock w (sy_ticks w)\<rparr>" "w1 = w\<lparr>sy_ticks := sy_ticks w + 1\<rparr>"
    using assms(1) by (simp_all add: event_stamp_def gettimeofday_def)
  then show ?thesis
    using True assms(2,3) by (simp add: event_ok_def event_data_def event_time_def time_ok_def sys_moved_def)
next
  case False
  then show ?thesis using assms by (simp add: event_stamp_def event_time_def)
qed

text \<open>The outcome of writing the text \<open>s\<close>: the event keeps its data, its caches stay right, its time is fixed.\<close>

definition spec_writes ::
  "libc \<Rightarrow> (nat \<rightharpoonup> string) \<Rightarrow> zlog_event \<Rightarrow> zlog_buf \<Rightarrow> 'z sys_scheme \<Rightarrow> string \<Rightarrow>
   (int \<times> zlog_event \<times> zlog_buf \<times> 'z sys_scheme) option \<Rightarrow> bool" where
  "spec_writes lc fmts e b w s r \<longleftrightarrow> (\<exists>rc e' b' w'. r = Some (rc, e', b', w') \<and>
     buf_puts b s (sy_mem w) (rc, b', sy_mem w') \<and> event_ok lc fmts e' \<and> event_data e' = event_data e \<and>
     length (ev_time_caches e') = length (ev_time_caches e) \<and> event_time e' w' = event_time e w \<and> sys_moved w w')"

lemma put_sys_writes:
  assumes "puts f s" and "buf_inv b" and "buf_ready b" and "sy_mem w1 = sy_mem w" and "sys_moved w w1"
    and "event_ok lc fmts e1" and "event_data e1 = event_data e" and "length (ev_time_caches e1) = length (ev_time_caches e)"
    and "event_time e1 w1 = event_time e w"
  shows "spec_writes lc fmts e b w s (put_sys (f b) e1 w1)"
proof -
  obtain rc b' m' where "f b (sy_mem w) = Some (rc, b', m')" "buf_puts b s (sy_mem w) (rc, b', m')"
    using putsD [OF assms(1-3)] by blast
  then show ?thesis
    unfolding spec_writes_def put_sys_def
    using assms(4-9) by (intro exI [of _ rc] exI [of _ e1] exI [of _ b'] exI [of _ "w1\<lparr>sy_mem := m'\<rparr>"]) simp
qed

lemma write_time_writes:
  assumes "event_ok lc fmts e" and "time_ok (event_time e w)" and "buf_inv b" and "buf_ready b"
    and "sp_time_cache_index s < length (ev_time_caches e)" and "fmts (sp_time_cache_index s) = Some (sp_time_fmt s)"
  shows "spec_writes lc fmts e b w
    (strftime lc (MAXLEN_CFG_LINE + 1) (sp_time_fmt s) (lc_localtime lc (fst (fst (event_time e w))))) (zlog_spec_write_time lc s e b w)"
proof -
  let ?i = "sp_time_cache_index s" and ?now = "fst (fst (event_time e w))"
  let ?t = "strftime lc (MAXLEN_CFG_LINE + 1) (sp_time_fmt s) (lc_localtime lc ?now)"
  obtain e1 w1 where st: "event_stamp e w = (e1, w1)" by (cases "event_stamp e w")
  note f = stamp_facts [OF st assms(1,2)]
  define e2 where "e2 = (if ev_time_local_sec e1 \<noteq> ?now
     then e1\<lparr>ev_time_local := lc_localtime lc ?now, ev_time_local_sec := ?now\<rparr> else e1)"
  have now: "?now \<noteq> 0" using assms(2) by (simp add: time_ok_def)
  have e2: "event_ok lc fmts e2" "ev_time_local e2 = lc_localtime lc ?now" "ev_time_caches e2 = ev_time_caches e"
    "event_data e2 = event_data e" "event_time e2 w1 = event_time e w"
    using f now by (auto simp: e2_def event_ok_local) (simp add: event_ok_def)
  define e3 where "e3 = (if tc_sec (ev_time_caches e ! ?i) \<noteq> ?now
     then e2\<lparr>ev_time_caches := (ev_time_caches e2)[?i := \<lparr>tc_str = ?t, tc_len = length ?t, tc_sec = ?now\<rparr>]\<rparr> else e2)"
  have e3: "event_ok lc fmts e3" "tc_str (ev_time_caches e3 ! ?i) = ?t" "tc_len (ev_time_caches e3 ! ?i) = length ?t"
    "length (ev_time_caches e3) = length (ev_time_caches e)" "event_data e3 = event_data e" "event_time e3 w1 = event_time e w"
    using e2 assms(5,6) now event_ok_hit [OF e2(1) _ assms(6) _ now]
      event_ok_cache [OF e2(1), of ?i "\<lparr>tc_str = ?t, tc_len = length ?t, tc_sec = ?now\<rparr>"]
    by (auto simp: e3_def cache_ok_def)
  have "zlog_spec_write_time lc s e b w = put_sys (\<lambda>m. zlog_buf_append b ?t (length ?t) m) e3 w1"
    using st f e2 assms(5) event_ok_hit [OF e2(1) _ assms(6) _ now] unfolding zlog_spec_write_time_def
    by (cases "tc_sec (ev_time_caches e ! ?i) = ?now"; cases "ev_time_local_sec e1 = ?now") (simp_all add: e2_def e3_def Let_def)
  then show ?thesis
    using put_sys_writes [OF puts_append [OF refl, of ?t] assms(3,4), of w1 w lc fmts e3 e] f e3 by simp
qed

lemma write_pid_writes:
  assumes "event_ok lc fmts e" and "time_ok (event_time e w)" and "buf_inv b" and "buf_ready b"
  shows "spec_writes lc fmts e b w (base_string 10 (nat (snd (event_time e w) mod 2 ^ 32))) (zlog_spec_write_pid e b w)"
proof -
  let ?t = "base_string 10 (nat (snd (event_time e w) mod 2 ^ 32))"
  define e1 where "e1 = (if ev_pid e = 0 then let e = e\<lparr>ev_pid := sy_pid w\<rparr> in
      if ev_pid e \<noteq> ev_last_pid e then
         let t = base_string 10 (nat (ev_pid e mod 2 ^ 32)) in e\<lparr>ev_last_pid := ev_pid e, ev_pid_str := t, ev_pid_str_len := length t\<rparr>
      else e else e)"
  have e1: "event_ok lc fmts e1" "event_data e1 = event_data e" "ev_time_caches e1 = ev_time_caches e"
    "event_time e1 w = event_time e w" "ev_pid_str e1 = ?t" "ev_pid_str_len e1 = length ?t"
    using assms(1,2) by (auto simp: e1_def Let_def event_ok_def event_data_def event_time_def time_ok_def)
  have "zlog_spec_write_pid e b w = put_sys (\<lambda>m. zlog_buf_append b ?t (length ?t) m) e1 w"
    using e1(5,6) unfolding zlog_spec_write_pid_def by (simp add: e1_def [symmetric])
  then show ?thesis
    using put_sys_writes [OF puts_append [OF refl, of ?t] assms(3,4), of w w lc fmts e1 e] e1 by simp
qed

lemma base_string_word: "0 \<le> n \<Longrightarrow> n < 2 ^ 32 \<Longrightarrow> unat (word_of_int n :: 32 word) = nat n"
  by (simp add: unat_eq_nat_uint uint_word_of_int_eq take_bit_int_eq_self)

lemma usec_div: "0 \<le> n \<Longrightarrow> n sdiv 1000 = n div (1000 :: int)"
  by (cases "n = 0") (simp_all add: signed_divide_int_def)

lemma write_us_writes:
  assumes "event_ok lc fmts e" and "time_ok (event_time e w)" and "buf_inv b" and "buf_ready b"
  shows "spec_writes lc fmts e b w (pad_zero 3 (base_string 10 (nat (snd (fst (event_time e w)) div 1000)))) (zlog_spec_write_ms e b w)"
    and "spec_writes lc fmts e b w (pad_zero 6 (base_string 10 (nat (snd (fst (event_time e w)))))) (zlog_spec_write_us e b w)"
proof -
  let ?us = "snd (fst (event_time e w))"
  obtain e1 w1 where st: "event_stamp e w = (e1, w1)" by (cases "event_stamp e w")
  note f = stamp_facts [OF st assms(1,2)]
  have us: "0 \<le> ?us" "?us < 1000000" using assms(2) by (simp_all add: time_ok_def)
  then have "?us div 1000 \<le> 1000000 div 1000" by (intro zdiv_mono1) simp_all
  then have n: "unat (word_of_int (?us sdiv 1000) :: 32 word) = nat (?us div 1000)" "unat (word_of_int ?us :: 32 word) = nat ?us"
    using us by (simp_all add: base_string_word usec_div pos_imp_zdiv_nonneg_iff)
  show "spec_writes lc fmts e b w (pad_zero 3 (base_string 10 (nat (?us div 1000)))) (zlog_spec_write_ms e b w)"
    using put_sys_writes [OF puts_dec32 [of "word_of_int (?us sdiv 1000)" 3] assms(3,4), of w1 w lc fmts e1 e] f st
    by (simp add: zlog_spec_write_ms_def n)
  show "spec_writes lc fmts e b w (pad_zero 6 (base_string 10 (nat ?us))) (zlog_spec_write_us e b w)"
    using put_sys_writes [OF puts_dec32 [of "word_of_int ?us" 6] assms(3,4), of w1 w lc fmts e1 e] f st
    by (simp add: zlog_spec_write_us_def n)
qed

lemma puts_level:
  assumes "level_ok levels (ev_level e)"
  shows "puts (zlog_spec_write_level lv_str_lowercase levels e) (lv_str_lowercase (level_of levels e))"
    and "puts (zlog_spec_write_level lv_str_uppercase levels e) (lv_str_uppercase (level_of levels e))"
  using assms
  by (auto simp: level_ok_def zlog_spec_write_level_def [abs_def] level_of_def intro!: puts_append)

lemma puts_mdc:
  assumes "mdc_lens a_mdc"
  shows "puts (zlog_spec_write_mdc s a_mdc) (case zlog_mdc_get a_mdc (sp_mdc_key s) of Some (Some v) \<Rightarrow> v | _ \<Rightarrow> [])"
proof (cases "ht_abs (mdc_tab a_mdc) (sp_mdc_key s)")
  case None
  have "mdc_ok a_mdc" using assms by (simp add: mdc_lens_def)
  then show ?thesis
    using None by (simp add: puts_def zlog_spec_write_mdc_def mdc_get_kv_abs mdc_get_abs buf_puts_nil)
next
  case (Some kv)
  then have "mdc_ok a_mdc" "kv_value_len kv = length (kv_value kv)" using assms by (auto simp: mdc_lens_def ran_def)
  then show ?thesis
    using Some by (simp add: zlog_spec_write_mdc_def [abs_def] mdc_get_kv_abs mdc_get_abs puts_append)
qed

lemma puts_neat:
  assumes "ev_file e = Some f" and "ev_file_len e = length f"
  shows "puts (zlog_spec_write_srcfile_neat e) (neat f)"
proof (cases "strrchr f (CHR ''/'')")
  case None
  then show ?thesis using assms by (simp add: zlog_spec_write_srcfile_neat_def [abs_def] neat_def puts_append)
next
  case (Some p)
  obtain u where u: "f = u @ p" "p \<noteq> []" using strrchr_suffix [OF Some] by blast
  then have "int (length f) - int (length f - length p) - 1 = int (length (drop 1 p))" by (cases p) simp_all
  moreover have "nat (int (length p) - 1) = length p - Suc 0" by linarith
  ultimately have "zlog_spec_write_srcfile_neat e = (\<lambda>b m. zlog_buf_append b (drop 1 p) (length (drop 1 p)) m)"
    using assms Some u(2) unfolding zlog_spec_write_srcfile_neat_def by (simp only: Option.bind.simps option.case Let_def) simp
  then show ?thesis using puts_append [of "length (drop 1 p)" "drop 1 p"] Some by (simp add: neat_def)
qed

text \<open>Every write function writes exactly its reference text, whatever the caches hold.\<close>

lemma spec_write_writes:
  assumes "event_ok lc fmts e" and "event_lens e" and "time_ok (event_time e w)" and "mdc_lens a_mdc"
    and "level_ok levels (ev_level e)" and "spec_ok fmts (length (ev_time_caches e)) s" and "event_has e s"
    and "buf_inv b" and "buf_ready b"
  shows "spec_writes lc fmts e b w (raw_text lc levels a_mdc e (event_time e w) s) (zlog_spec_write lc levels s a_mdc e b w)"
proof -
  note direct = put_sys_writes [OF _ assms(8,9) refl sys_moved_refl assms(1) refl refl refl]
  obtain t p where tp: "event_time e w = (t, p)" by (cases "event_time e w")
  obtain sec usec where t: "t = (sec, usec)" by (cases t)
  note defs = zlog_spec_write_def write_field_defs raw_text_def tp t
  have src: "puts (zlog_spec_write_srcfile e) (case ev_file e of None \<Rightarrow> ''(file=null)'' | Some f \<Rightarrow> f)"
    using assms(2) by (cases "ev_file e") (auto simp: zlog_spec_write_srcfile_def [abs_def] event_lens_def intro: puts_append)
  have func: "puts (zlog_spec_write_srcfunc e) (if ev_file e = None then ''(func=null)'' else the (ev_func e))" if "sp_write_buf s = WriteSrcfunc"
    using assms(2,7) that
    by (cases "ev_func e") (auto simp: zlog_spec_write_srcfunc_def [abs_def] event_lens_def event_has_def intro: puts_append)
  have pad: "pad_zero 0 x = x" for x by (simp add: pad_zero_def)
  show ?thesis
  proof (cases "sp_write_buf s")
    case WriteTime then show ?thesis using write_time_writes [OF assms(1,3,8,9), of s] assms(6) by (simp add: defs spec_ok_def)
  next
    case WriteMs then show ?thesis using write_us_writes [OF assms(1,3,8,9)] by (simp add: defs)
  next
    case WriteUs then show ?thesis using write_us_writes [OF assms(1,3,8,9)] by (simp add: defs)
  next
    case WriteMdc then show ?thesis using direct [OF puts_mdc [OF assms(4), of s], where w = w] by (simp add: defs)
  next
    case WriteStr
    then show ?thesis using direct [OF puts_prefix [of "sp_len s" "sp_str s"], where w = w] assms(6) by (simp add: defs spec_ok_def)
  next
    case WriteSrcfileNeat
    then show ?thesis using direct [OF puts_neat, where w = w] assms(2,7) by (auto simp: defs event_lens_def event_has_def)
  next
    case WriteSrcline then show ?thesis using direct [OF puts_dec64 [of "ev_line e" 0], where w = w] by (simp add: defs pad)
  next
    case WriteSrcfunc then show ?thesis using direct [OF func, where w = w] by (simp add: defs)
  next
    case WritePid then show ?thesis using write_pid_writes [OF assms(1,3,8,9)] by (simp add: defs)
  next
    case WriteUsrmsg then show ?thesis using direct [OF usrmsg_puts [OF assms(2)], where w = w] by (simp add: defs)
  qed (use assms(2) direct [OF src, where w = w] direct [OF puts_level(1) [OF assms(5)], where w = w] direct [OF puts_level(2) [OF assms(5)], where w = w]
         direct [OF puts_append [of "ev_category_name_len e" "ev_category_name e"], where w = w] direct [OF puts_append [of "ev_host_name_len e" "ev_host_name e"], where w = w]
         direct [OF puts_append [of 1 "''%''"], where w = w] direct [OF puts_append [of 1 "[CHR 0x0A]"], where w = w]
         direct [OF puts_append [of "ev_tid_str_len e" "ev_tid_str e"], where w = w] direct [OF puts_append [of "ev_tid_hex_str_len e" "ev_tid_hex_str e"], where w = w]
       in \<open>simp_all add: defs event_lens_def\<close>)
qed

subsection \<open>The text of a specifier in a message\<close>

text \<open>
  What a buffer with a limit holds after a text was written to it from its start, and the text of a specifier
  with width and precision, which passes through the \<open>pre\<close> buffer.
\<close>

definition limited :: "zlog_buf \<Rightarrow> string \<Rightarrow> string" where
  "limited b s = (if zb_size_max b \<noteq> 0 \<and> zb_size_max b \<le> length s
     then stamp (zb_truncate_str b) (take (zb_size_max b - 1) s) else s)"

definition spec_text ::
  "libc \<Rightarrow> level_list \<Rightarrow> zlog_mdc \<Rightarrow> zlog_event \<Rightarrow> (int \<times> int) \<times> int \<Rightarrow> zlog_buf \<Rightarrow> gen_fn \<Rightarrow> zlog_spec \<Rightarrow> string" where
  "spec_text lc levels a_mdc e at_time pre gen s =
     (case gen of
        GenDirect \<Rightarrow> raw_text lc levels a_mdc e at_time s
      | GenReformat \<Rightarrow> adjusted (sp_left_adjust s) (sp_min_width s) (sp_max_width s) (limited pre (raw_text lc levels a_mdc e at_time s)))"

lemma restart_facts [simp]:
  "buf_inv b \<Longrightarrow> buf_ready b \<Longrightarrow> buf_inv (zlog_buf_restart b)" "buf_ready b \<Longrightarrow> buf_ready (zlog_buf_restart b)"
  "buf_text (zlog_buf_restart b) = []" "zb_size_max (zlog_buf_restart b) = zb_size_max b"
  "zb_truncate_str (zlog_buf_restart b) = zb_truncate_str b" "same_limits (zlog_buf_restart b) b' \<longleftrightarrow> same_limits b b'"
  by (auto simp: zlog_buf_restart_def buf_inv_def buf_ready_def buf_text_def same_limits_def split: option.splits)

lemma puts_restart_limited:
  "buf_puts (zlog_buf_restart b) s m (rc, b', m') \<Longrightarrow> rc \<ge> 0 \<Longrightarrow> buf_inv b' \<and> buf_ready b' \<and> buf_text b' = limited b s"
  by (auto simp: buf_puts_def limited_def split: if_splits)

lemma ready_cells: "buf_ready b \<Longrightarrow> \<exists>cells. zb_start b = Some cells \<and> those (take (zb_tail b) cells) = Some (buf_text b)"
proof -
  assume "buf_ready b"
  then obtain cells where c: "zb_start b = Some cells" "buf_cells b = cells" "\<forall>i < zb_tail b. cells ! i \<noteq> None" "zb_tail b \<le> length cells"
    by (auto simp: buf_ready_def buf_cells_def split: option.splits)
  have "those xs = Some (map the xs)" if "\<forall>x \<in> set xs. x \<noteq> None" for xs :: "char option list"
    using that by (induction xs) auto
  moreover have "\<forall>x \<in> set (take (zb_tail b) cells). x \<noteq> None" using c(3,4) by (auto simp: in_set_conv_nth)
  ultimately show ?thesis using c by (auto simp: buf_text_def)
qed

lemma same_limits_limited: "same_limits b b' \<Longrightarrow> limited b' s = limited b s"
  by (simp add: same_limits_def limited_def)

lemma raw_text_data:
  assumes "event_data e' = event_data e"
  shows "raw_text lc levels a_mdc e' t s = raw_text lc levels a_mdc e t s"
  unfolding raw_text_def level_of_def usrmsg_text_def event_data_fields [OF assms] by (rule refl)

text \<open>
  The reformatting path: the result for the target buffer, and that the \<open>pre\<close> buffer can be used again, unless an
  allocation failed.
\<close>

definition gen_writes ::
  "libc \<Rightarrow> (nat \<rightharpoonup> string) \<Rightarrow> zlog_event \<Rightarrow> zlog_buf \<Rightarrow> zlog_buf \<Rightarrow> 'z sys_scheme \<Rightarrow> string \<Rightarrow>
   (int \<times> zlog_event \<times> zlog_buf \<times> zlog_buf \<times> 'z sys_scheme) option \<Rightarrow> bool" where
  "gen_writes lc fmts e pre b w s r \<longleftrightarrow> (\<exists>rc e' pre' b' w'. r = Some (rc, e', pre', b', w') \<and>
     (rc = -1 \<and> False \<in> set (sy_mem w) \<or>
      buf_puts b s (sy_mem w) (rc, b', sy_mem w') \<and> buf_inv pre' \<and> buf_ready pre' \<and> same_limits pre pre') \<and>
     set (sy_mem w') \<subseteq> set (sy_mem w) \<and>
     event_ok lc fmts e' \<and> event_data e' = event_data e \<and>
     length (ev_time_caches e') = length (ev_time_caches e) \<and> event_time e' w' = event_time e w \<and> sys_moved w w')"

lemma gen_reformat_writes:
  assumes "event_ok lc fmts e" and "event_lens e" and "time_ok (event_time e w)" and "mdc_lens a_mdc"
    and "level_ok levels (ev_level e)" and "spec_ok fmts (length (ev_time_caches e)) s" and "event_has e s"
    and "buf_inv b" and "buf_ready b" and "buf_inv pre" and "buf_ready pre"
  shows "gen_writes lc fmts e pre b w (spec_text lc levels a_mdc e (event_time e w) pre GenReformat s)
    (gen_reformat lc levels s a_mdc e pre b w)"
proof -
  let ?t = "raw_text lc levels a_mdc e (event_time e w) s"
  obtain rc e1 pre1 w1 where wr: "zlog_spec_write lc levels s a_mdc e (zlog_buf_restart pre) w = Some (rc, e1, pre1, w1)"
    and p: "buf_puts (zlog_buf_restart pre) ?t (sy_mem w) (rc, pre1, sy_mem w1)"
    and ev: "event_ok lc fmts e1" "event_data e1 = event_data e" "length (ev_time_caches e1) = length (ev_time_caches e)"
      "event_time e1 w1 = event_time e w" "sys_moved w w1"
    using spec_write_writes [OF assms(1-7) restart_facts(1,2)] assms(10,11) unfolding spec_writes_def by blast
  have m1: "set (sy_mem w1) \<subseteq> set (sy_mem w)" "same_limits pre pre1" using p by (simp_all add: buf_puts_def)
  show ?thesis
  proof (cases "rc < 0")
    case True
    then have "False \<in> set (sy_mem w)" using p by (auto simp: buf_puts_def split: if_splits)
    then show ?thesis unfolding gen_writes_def gen_reformat_def using wr True ev m1 by simp
  next
    case False
    then have pre1: "buf_inv pre1" "buf_ready pre1" "buf_text pre1 = limited pre ?t" using puts_restart_limited [OF p] by simp_all
    obtain cells where cells: "zb_start pre1 = Some cells" "those (take (zb_tail pre1) cells) = Some (buf_text pre1)"
      using ready_cells [OF pre1(2)] by blast
    have len: "zb_tail pre1 = length (buf_text pre1)" using buf_text_length [OF pre1(1,2)] by simp
    obtain rc2 b2 m2 where a: "buf_put b (adjusted (sp_left_adjust s) (sp_min_width s) (sp_max_width s) (buf_text pre1)) (sy_mem w1) = (rc2, b2, m2)"
      by (cases "buf_put b (adjusted (sp_left_adjust s) (sp_min_width s) (sp_max_width s) (buf_text pre1)) (sy_mem w1)")
    note bp = buf_put_spec [OF assms(8,9), of "adjusted (sp_left_adjust s) (sp_min_width s) (sp_max_width s) (buf_text pre1)" "sy_mem w1", unfolded a]
    then have m2: "set m2 \<subseteq> set (sy_mem w)" using m1 by (auto simp: buf_puts_def)
    have bp': "buf_puts b (spec_text lc levels a_mdc e (event_time e w) pre GenReformat s) (sy_mem w) (rc2, b2, m2)"
      using bp m1 pre1(3) by (auto simp: spec_text_def buf_puts_def split: if_splits)
    show ?thesis
      unfolding gen_writes_def gen_reformat_def
      using wr False cells adjust_append_put [OF assms(8,9), of "length (buf_text pre1)" "buf_text pre1"] a ev pre1 m1 m2 bp'
      by (simp add: zlog_buf_len_def len)
  qed
qed

end
