(* ===== verification/Zlog_Format.thy ===== *)
theory Zlog_Format
  imports Zlog_Spec Zc_Util
begin

text \<open>
  Formats (\<^verbatim>\<open>format.c\<close>): a named pattern, parsed into a list of specifiers, and the message that a
  format makes of an event. The central result is that the message is the concatenation of the reference
  texts of its specifiers, cut at the limit of the buffer.
\<close>

record zlog_format =
  fm_name :: string
  fm_pattern :: string
  fm_pattern_specs :: "zlog_spec zc_arraylist"

definition zlog_format_del :: "zlog_format \<Rightarrow> zlog_spec list option" where
  "zlog_format_del f = zc_arraylist_del (Some (fm_pattern_specs f))"

definition zlog_format_has_name :: "zlog_format \<Rightarrow> string \<Rightarrow> bool" where
  "zlog_format_has_name f fname \<longleftrightarrow> fm_name f = fname"

subsection \<open>The length of a specifier\<close>

lemma at_nonzero: "at s n \<noteq> CHR 0x00 \<Longrightarrow> n < length s"
  by (simp add: at_def split: if_splits)

lemma print_fmt_scan:
  "sscanf [ScanLit (CHR ''%''), ScanSet P, ScanCount] (CHR ''%'' # t) =
     (if takeWhile P t = [] then [] else [VStr (takeWhile P t), VCount (1 + length (takeWhile P t))])"
  by (simp add: sscanf_def Let_def)

lemma strnceq_length: "strnceq p t n \<Longrightarrow> length t = n \<Longrightarrow> n \<le> length p"
  by (metis length_take min.absorb_iff2 strnceq_def take_all_iff order_refl)

lemma scan_paren_le: "scan_paren c p = (ok, key, n) \<Longrightarrow> n \<le> length p"
  unfolding scan_paren_def Let_def prod.inject
  using val_count_bound [of "[ScanLit c, ScanLit (CHR ''(''), ScanSet (\<lambda>x. x \<noteq> CHR '')''), ScanLit (CHR '')''), ScanCount]" p 1]
  by (elim conjE) simp

text \<open>What \<open>zlog_spec_new\<close> promises: the specifier covers \<open>n\<close> characters of the pattern, at least one, and a time
  specifier takes the next index of a cache.\<close>

definition spec_from :: "string \<Rightarrow> nat \<Rightarrow> zlog_spec \<Rightarrow> nat \<Rightarrow> nat \<Rightarrow> bool" where
  "spec_from str cnt s n cnt' \<longleftrightarrow> 0 < n \<and> n \<le> length str \<and> sp_str s = str \<and> sp_len s = n \<and>
     cnt' = (if sp_write_buf s = WriteTime then cnt + 1 else cnt) \<and>
     (sp_write_buf s = WriteTime \<longrightarrow> sp_time_cache_index s = cnt)"

lemma spec_new_time_from:
  assumes "spec_new_time s str n cnt = Some (Some (s', n'), cnt')" and "0 < n" and "at str n = CHR ''d''" and "sp_str s = str"
  shows "spec_from str cnt s' n' cnt'"
proof -
  have n: "n < length str" using at_nonzero [of str n] assms(3) by simp
  obtain ok fmt nread where sp: "scan_paren (CHR ''d'') (drop n str) = (ok, fmt, nread)" by (cases "scan_paren (CHR ''d'') (drop n str)")
  have "nread \<le> length str - n" using scan_paren_le [OF sp] by simp
  moreover have "strnceq (drop n str) ''d()'' 3 \<Longrightarrow> 3 \<le> length str - n" using strnceq_length [of "drop n str" "''d()''" 3] by simp
  ultimately show ?thesis
    using assms(1,2,4) n sp unfolding spec_new_time_def spec_from_def
    by (auto simp: Let_def split: if_splits option.splits)
qed

lemma spec_new_mdc_from:
  assumes "spec_new_mdc s str n = Some (Some (s', n'))" and "0 < n" and "n < length str" and "sp_str s = str"
  shows "spec_from str cnt s' n' cnt"
proof -
  obtain ok key nread where sp: "scan_paren (CHR ''M'') (drop n str) = (ok, key, nread)" by (cases "scan_paren (CHR ''M'') (drop n str)")
  have "nread \<le> length str - n" using scan_paren_le [OF sp] by simp
  moreover have "strnceq (drop n str) ''M()'' 3 \<Longrightarrow> 3 \<le> length str - n" using strnceq_length [of "drop n str" "''M()''" 3] by simp
  ultimately show ?thesis
    using assms sp unfolding spec_new_mdc_def spec_from_def by (auto simp: Let_def split: if_splits)
qed

lemma spec_chars_not_time: "map_of spec_chars c = Some f \<Longrightarrow> f \<noteq> WriteTime \<and> c \<noteq> CHR 0x00"
  by (auto simp: spec_chars_def split: if_splits)

lemma spec_new_conv_from:
  assumes "spec_new_conv s str n cnt = Some (Some (s', n'), cnt')" and "0 < n" and "sp_str s = str"
  shows "spec_from str cnt s' n' cnt'"
proof -
  have two: "strnceq (drop n str) ''ms'' 2 \<or> strnceq (drop n str) ''us'' 2 \<Longrightarrow> n + 2 \<le> length str"
    using strnceq_length [of "drop n str" "''ms''" 2] strnceq_length [of "drop n str" "''us''" 2] by auto
  show ?thesis
  proof (cases "at str n = CHR ''d'' \<or> at str n = CHR ''M''")
    case True
    then have "n < length str" using at_nonzero [of str n] by auto
    then show ?thesis
      using True assms spec_new_time_from [of s str n cnt s' n' cnt'] spec_new_mdc_from [of s str n s' n' cnt]
      by (auto simp: spec_new_conv_def Let_def Option.bind_eq_Some_conv split: if_splits)
  next
    case False
    then show ?thesis
      using assms two at_nonzero [of str n]
      by (auto simp: spec_new_conv_def Let_def spec_from_def dest!: spec_chars_not_time split: if_splits option.splits)
  qed
qed

lemma spec_new_from:
  assumes "zlog_spec_new str cnt m = Some (Some (s, n), cnt', m')" and "str \<noteq> []"
  shows "spec_from str cnt s n cnt' \<and> set m' \<subseteq> set m"
proof (cases "at str 0 = CHR ''%''")
  case True
  then obtain t where t: "str = CHR ''%'' # t" using assms(2) by (cases str) (auto simp: at_def)
  define w where "w = takeWhile (\<lambda>c. c = CHR ''.'' \<or> isdigit c \<or> c = CHR ''-'') t"
  obtain s0 n0 where c: "spec_new_conv s0 str n0 cnt = Some (Some (s, n), cnt')" and s0: "0 < n0" "sp_str s0 = str"
    using assms(1) True print_fmt_scan [of "\<lambda>c. c = CHR ''.'' \<or> isdigit c \<or> c = CHR ''-''" t]
    by (auto simp: zlog_spec_new_def Let_def t nscan_def val_int_def val_str_def Option.bind_eq_Some_conv
        zlog_spec_parse_print_fmt_def zero_spec_def split: if_splits prod.splits)
  have "set m' \<subseteq> set m"
    using assms(1) True alloc_suffix [of m] by (auto simp: zlog_spec_new_def Let_def Option.bind_eq_Some_conv split: if_splits prod.splits)
  then show ?thesis using spec_new_conv_from [OF c s0] by blast
next
  case False
  have q: "strchr str (CHR ''%'') = Some q \<Longrightarrow> 0 < length str - length q" for q
    using False assms(2) by (cases str) (auto simp: strchr_def at_def Let_def le_imp_less_Suc length_dropWhile_le split: if_splits)
  then show ?thesis
    using assms False alloc_suffix [of m]
    by (auto simp: zlog_spec_new_def Let_def spec_from_def zero_spec_def split: if_splits prod.splits option.splits)
qed

subsection \<open>Parsing a format\<close>

text \<open>The loop over the pattern; \<open>False\<close> is the jump to \<open>err\<close>. Each round takes at least one character.\<close>

function format_specs ::
  "string \<Rightarrow> zlog_spec zc_arraylist \<Rightarrow> nat \<Rightarrow> mem \<Rightarrow> (bool \<times> zlog_spec zc_arraylist \<times> nat \<times> mem) option" where
  "format_specs p l time_cache_count m =
     (if p = [] then Some (True, l, time_cache_count, m)
      else do {
        (r, time_cache_count, m) \<leftarrow> zlog_spec_new p time_cache_count m;
        (case r of
           None \<Rightarrow> Some (False, l, time_cache_count, m)
         | Some (a_spec, n) \<Rightarrow> do {
             (rc, _, l, m) \<leftarrow> zc_arraylist_add l (Some a_spec) m;
             if rc \<noteq> 0 then Some (False, l, time_cache_count, m)
             else format_specs (drop n p) l time_cache_count m
           })
      })"
  by pat_completeness auto

termination
  by (relation "measure (\<lambda>(p, _). length p)") (auto dest!: spec_new_from simp: spec_from_def)

definition format_build :: "string \<Rightarrow> string \<Rightarrow> nat \<Rightarrow> mem \<Rightarrow> (zlog_format option \<times> nat \<times> mem) option" where
  "format_build name pattern time_cache_count m =
     (case zc_arraylist_new True m of
        (None, m) \<Rightarrow> Some (None, time_cache_count, m)
      | (Some l, m) \<Rightarrow> do {
          (ok, l, time_cache_count, m) \<leftarrow> format_specs pattern l time_cache_count m;
          let f = \<lparr>fm_name = name, fm_pattern = pattern, fm_pattern_specs = l\<rparr>;
          if ok then Some (Some f, time_cache_count, m)
          else do { _ \<leftarrow> zlog_format_del f; Some (None, time_cache_count, m) }
        })"

text \<open>
  \<open>zlog_format_new\<close>: the name, the pattern between the first and the last quote with its environment variables
  replaced, and its specifiers. An inner \<open>None\<close> is a failure.
\<close>

definition zlog_format_new ::
  "libc \<Rightarrow> string \<Rightarrow> nat \<Rightarrow> mem \<Rightarrow> (zlog_format option \<times> nat \<times> mem) option" where
  "zlog_format_new lc line time_cache_count m =
     (let (ok, m) = alloc m;
          fail = (\<lambda>m. Some (None, time_cache_count, m))
      in
      if \<not> ok then fail m
      else
        let vs = sscanf [ScanWs, ScanSet (\<lambda>c. c \<noteq> CHR ''='' \<and> c \<noteq> CHR '' '' \<and> c \<noteq> CHR 0x09), ScanWs,
                         ScanLit (CHR ''=''), ScanWs, ScanCount] line;
            name = val_str vs 0; nread = nat (val_int 0 vs 1); p_start = drop (nread + 1) line
        in
        if length name > MAXLEN_CFG_LINE then None
        else if nscan vs \<noteq> 1 \<or> at line nread \<noteq> CHR 0x22 then fail m
        else if \<not> list_all (\<lambda>c. isalnum c \<or> c = CHR ''_'') name then fail m
        else case strrchr p_start (CHR 0x22) of
          None \<Rightarrow> fail m
        | Some p_end \<Rightarrow>
            let pat = take (length p_start - length p_end) p_start in
            if length pat > MAXLEN_CFG_LINE then fail m
            else do {
              (rc, blk) \<leftarrow> zc_str_replace_env (lc_getenv lc) (pat @ replicate (MAXLEN_CFG_LINE + 1 - length pat) (CHR 0x00)) (MAXLEN_CFG_LINE + 1);
              if rc \<noteq> 0 then fail m
              else do {
                pattern \<leftarrow> cstr blk 0;
                format_build name pattern time_cache_count m
              }
            })"

subsection \<open>Making a message\<close>

fun gen_msg_loop ::
  "libc \<Rightarrow> level_list \<Rightarrow> zlog_spec option list \<Rightarrow> zlog_thread \<Rightarrow> 'z sys_scheme \<Rightarrow> (int \<times> zlog_thread \<times> 'z sys_scheme) option" where
  "gen_msg_loop lc levels [] t w = Some (0, t, w)"
| "gen_msg_loop lc levels (p # ps) t w = do {
     s \<leftarrow> p;
     (rc, t, w) \<leftarrow> zlog_spec_gen_msg lc levels s t w;
     if rc = 0 then gen_msg_loop lc levels ps t w else Some (-1, t, w)
   }"

definition zlog_format_gen_msg ::
  "libc \<Rightarrow> level_list \<Rightarrow> zlog_format \<Rightarrow> zlog_thread \<Rightarrow> 'z sys_scheme \<Rightarrow> (int \<times> zlog_thread \<times> 'z sys_scheme) option" where
  "zlog_format_gen_msg lc levels f t w = do {
     ps \<leftarrow> zc_arraylist_foreach (fm_pattern_specs f);
     gen_msg_loop lc levels ps (t\<lparr>th_msg_buf := zlog_buf_restart (th_msg_buf t)\<rparr>) w
   }"

subsection \<open>The specifiers of a pattern\<close>

text \<open>A list of specifiers that covers a pattern, from one value of the cache counter to another.\<close>

fun specs_cover :: "string \<Rightarrow> nat \<Rightarrow> zlog_spec list \<Rightarrow> nat \<Rightarrow> bool" where
  "specs_cover p cnt [] cnt' \<longleftrightarrow> p = [] \<and> cnt' = cnt"
| "specs_cover p cnt (s # ss) cnt' \<longleftrightarrow> (\<exists>cnt1. spec_from p cnt s (sp_len s) cnt1 \<and> specs_cover (drop (sp_len s) p) cnt1 ss cnt')"

lemma add_elems:
  assumes "al_elems l xs"
  shows "\<exists>rc dead l' m'. zc_arraylist_add l (Some x) m = Some (rc, dead, l', m') \<and> set m' \<subseteq> set m \<and>
    (if rc = 0 then al_elems l' (xs @ [x]) else False \<in> set m)"
proof -
  obtain rc dead l' m' where a: "zc_arraylist_put l x m = Some (rc, dead, l', m')" using al.add_total [OF assms, of x m] by blast
  then show ?thesis
    using al.add_ok [OF assms, of x m dead l' m'] al.add_err [OF assms a] al.add_mem [OF assms a]
    by (intro exI [of _ rc] exI [of _ dead] exI [of _ l'] exI [of _ m']) (auto simp: zc_arraylist_put_def)
qed

declare format_specs.simps [simp del]

lemma format_specs_cover:
  "format_specs p l cnt m = Some (True, l', cnt', m') \<Longrightarrow> al_elems l xs \<Longrightarrow>
   \<exists>ss. al_elems l' (xs @ ss) \<and> specs_cover p cnt ss cnt' \<and> set m' \<subseteq> set m"
proof (induction p l cnt m arbitrary: xs rule: format_specs.induct)
  case (1 p l cnt m)
  show ?case
  proof (cases "p = []")
    case True
    then show ?thesis using 1(2,3) by (auto simp: format_specs.simps intro!: exI [of _ "[]"])
  next
    case False
    obtain s n cnt1 m1 where s: "zlog_spec_new p cnt m = Some (Some (s, n), cnt1, m1)"
      using 1(2) False by (subst (asm) format_specs.simps) (auto simp: Option.bind_eq_Some_conv split: option.splits)
    obtain rc dead l1 m2 where a: "zc_arraylist_add l (Some s) m1 = Some (rc, dead, l1, m2)" "set m2 \<subseteq> set m1"
        "if rc = 0 then al_elems l1 (xs @ [s]) else False \<in> set m1"
      using add_elems [OF 1(3), of s m1] by blast
    have rc: "rc = 0" "format_specs (drop n p) l1 cnt1 m2 = Some (True, l', cnt', m')"
      using 1(2) False s a(1) by (subst (asm) format_specs.simps, simp split: if_splits)+
    have l1: "al_elems l1 (xs @ [s])" using a(3) rc(1) by simp
    obtain ss where ss: "al_elems l' ((xs @ [s]) @ ss)" "specs_cover (drop n p) cnt1 ss cnt'" "set m' \<subseteq> set m2"
      using 1(1) [OF False s refl refl refl refl a(1) refl refl refl _ rc(2) l1] rc(1) by auto
    have "spec_from p cnt s n cnt1 \<and> set m1 \<subseteq> set m" by (rule spec_new_from [OF s False])
    moreover from this have "sp_len s = n" by (simp add: spec_from_def)
    ultimately show ?thesis using ss a(2) by (intro exI [of _ "s # ss"]) auto
  qed
qed

lemma specs_cover_pattern: "specs_cover p cnt ss cnt' \<Longrightarrow> concat (map (\<lambda>s. take (sp_len s) (sp_str s)) ss) = p"
  by (induction ss arbitrary: p cnt) (auto simp: spec_from_def)

lemma specs_cover_indices:
  "specs_cover p cnt ss cnt' \<Longrightarrow> cnt \<le> cnt' \<and>
     map sp_time_cache_index (filter (\<lambda>s. sp_write_buf s = WriteTime) ss) = [cnt..<cnt']"
proof (induction ss arbitrary: p cnt)
  case (Cons s ss)
  then obtain cnt1 where c: "spec_from p cnt s (sp_len s) cnt1" "specs_cover (drop (sp_len s) p) cnt1 ss cnt'" by auto
  then show ?case using Cons.IH [OF c(2)] by (auto simp: spec_from_def upt_conv_Cons split: if_splits)
qed simp

text \<open>The time format that belongs to each index.\<close>

definition spec_fmts :: "zlog_spec list \<Rightarrow> nat \<rightharpoonup> string" where
  "spec_fmts ss = map_of (map (\<lambda>s. (sp_time_cache_index s, sp_time_fmt s)) (filter (\<lambda>s. sp_write_buf s = WriteTime) ss))"

lemma specs_cover_ok:
  assumes "specs_cover p cnt ss cnt'" and "s \<in> set ss"
  shows "spec_ok (spec_fmts ss) cnt' s"
proof -
  let ?ts = "filter (\<lambda>s. sp_write_buf s = WriteTime) ss"
  have ix: "map sp_time_cache_index ?ts = [cnt..<cnt']" using specs_cover_indices [OF assms(1)] by simp
  then have "distinct (map fst (map (\<lambda>s. (sp_time_cache_index s, sp_time_fmt s)) ?ts))" by (simp add: comp_def)
  then have "spec_fmts ss (sp_time_cache_index s) = Some (sp_time_fmt s)" if "sp_write_buf s = WriteTime"
    unfolding spec_fmts_def using assms(2) that by (intro map_of_is_SomeI) force+
  moreover have "sp_time_cache_index s < cnt'" if "sp_write_buf s = WriteTime"
  proof -
    have "sp_time_cache_index s \<in> set (map sp_time_cache_index ?ts)" using that assms(2) by auto
    then show ?thesis unfolding ix by simp
  qed
  moreover have "sp_len s \<le> length (sp_str s)"
    using assms by (induction ss arbitrary: p cnt) (auto simp: spec_from_def)
  ultimately show ?thesis by (simp add: spec_ok_def)
qed

subsection \<open>The message of a format\<close>

definition thread_ok :: "libc \<Rightarrow> (nat \<rightharpoonup> string) \<Rightarrow> zlog_thread \<Rightarrow> bool" where
  "thread_ok lc fmts t \<longleftrightarrow> event_ok lc fmts (th_event t) \<and> mdc_lens (th_mdc t) \<and>
     buf_inv (th_pre_msg_buf t) \<and> buf_ready (th_pre_msg_buf t) \<and> buf_inv (th_msg_buf t) \<and> buf_ready (th_msg_buf t)"

text \<open>What the event of the next message and the configuration have to provide.\<close>

definition message_ok :: "level_list \<Rightarrow> (nat \<rightharpoonup> string) \<Rightarrow> zlog_thread \<Rightarrow> 'z sys_scheme \<Rightarrow> zlog_spec list \<Rightarrow> bool" where
  "message_ok levels fmts t w ss \<longleftrightarrow> event_lens (th_event t) \<and> time_ok (event_time (th_event t) w) \<and>
     level_ok levels (ev_level (th_event t)) \<and>
     (\<forall>s \<in> set ss. spec_ok fmts (length (ev_time_caches (th_event t))) s \<and> event_has (th_event t) s)"

definition message_text :: "libc \<Rightarrow> level_list \<Rightarrow> zlog_thread \<Rightarrow> 'z sys_scheme \<Rightarrow> zlog_spec list \<Rightarrow> string" where
  "message_text lc levels t w ss =
     concat (map (\<lambda>s. spec_text lc levels (th_mdc t) (th_event t) (event_time (th_event t) w) (th_pre_msg_buf t) (sp_gen_msg s) s) ss)"

text \<open>Everything about the thread that matters for the rest of the message is unchanged.\<close>

definition thread_moved :: "zlog_thread \<Rightarrow> 'z sys_scheme \<Rightarrow> zlog_thread \<Rightarrow> 'z sys_scheme \<Rightarrow> bool" where
  "thread_moved t w t' w' \<longleftrightarrow> event_data (th_event t') = event_data (th_event t) \<and> th_mdc t' = th_mdc t \<and>
     length (ev_time_caches (th_event t')) = length (ev_time_caches (th_event t)) \<and>
     event_time (th_event t') w' = event_time (th_event t) w \<and> sys_moved w w' \<and> set (sy_mem w') \<subseteq> set (sy_mem w) \<and>
     th_path_buf t' = th_path_buf t \<and> th_pre_path_buf t' = th_pre_path_buf t \<and> th_archive_path_buf t' = th_archive_path_buf t"

lemma thread_moved_refl [simp]: "thread_moved t w t w"
  by (simp add: thread_moved_def)

lemma thread_moved_trans: "thread_moved t w t1 w1 \<Longrightarrow> thread_moved t1 w1 t2 w2 \<Longrightarrow> thread_moved t w t2 w2"
  unfolding thread_moved_def by (auto intro: sys_moved_trans)

lemma event_lens_data:
  assumes "event_data e' = event_data e"
  shows "event_lens e' = event_lens e"
  unfolding event_lens_def event_data_fields [OF assms] by (rule refl)

lemma message_ok_moved:
  assumes "thread_moved t w t' w'"
  shows "message_ok levels fmts t' w' ss = message_ok levels fmts t w ss"
proof -
  have d: "event_data (th_event t') = event_data (th_event t)" using assms by (simp add: thread_moved_def)
  show ?thesis
    using assms event_lens_data [OF d]
    by (simp add: message_ok_def thread_moved_def event_has_def event_data_fields [OF d])
qed

lemma message_text_moved:
  assumes "thread_moved t w t' w'" and "same_limits (th_pre_msg_buf t) (th_pre_msg_buf t')"
  shows "message_text lc levels t' w' ss = message_text lc levels t w ss"
proof -
  have d: "event_data (th_event t') = event_data (th_event t)" "th_mdc t' = th_mdc t"
      "event_time (th_event t') w' = event_time (th_event t) w"
    using assms(1) by (simp_all add: thread_moved_def)
  show ?thesis
    unfolding message_text_def spec_text_def raw_text_data [OF d(1)] d(2,3) same_limits_limited [OF assms(2)] by (rule refl)
qed

lemma spec_gen_msg_writes:
  assumes "thread_ok lc fmts t" and "message_ok levels fmts t w [s]"
  obtains rc t' w' where "zlog_spec_gen_msg lc levels s t w = Some (rc, t', w')" and "thread_moved t w t' w'"
    and "event_ok lc fmts (th_event t')"
    and "rc = -1 \<and> False \<in> set (sy_mem w) \<or>
      buf_puts (th_msg_buf t) (message_text lc levels t w [s]) (sy_mem w) (rc, th_msg_buf t', sy_mem w') \<and>
      buf_inv (th_pre_msg_buf t') \<and> buf_ready (th_pre_msg_buf t') \<and> same_limits (th_pre_msg_buf t) (th_pre_msg_buf t')"
proof (cases "sp_gen_msg s")
  case GenDirect
  note a = assms [unfolded thread_ok_def message_ok_def]
  have "spec_writes lc fmts (th_event t) (th_msg_buf t) w
      (raw_text lc levels (th_mdc t) (th_event t) (event_time (th_event t) w) s)
      (zlog_spec_write lc levels s (th_mdc t) (th_event t) (th_msg_buf t) w)"
    using a by (intro spec_write_writes) simp_all
  then obtain rc e' b' w' where r: "zlog_spec_write lc levels s (th_mdc t) (th_event t) (th_msg_buf t) w = Some (rc, e', b', w')"
    "buf_puts (th_msg_buf t) (raw_text lc levels (th_mdc t) (th_event t) (event_time (th_event t) w) s) (sy_mem w) (rc, b', sy_mem w')"
    "event_ok lc fmts e'" "event_data e' = event_data (th_event t)" "length (ev_time_caches e') = length (ev_time_caches (th_event t))"
    "event_time e' w' = event_time (th_event t) w" "sys_moved w w'" unfolding spec_writes_def by blast
  have m: "set (sy_mem w') \<subseteq> set (sy_mem w)" using r(2) by (simp add: buf_puts_def)
  show thesis
  proof (rule that)
    show "zlog_spec_gen_msg lc levels s t w = Some (rc, t\<lparr>th_event := e', th_msg_buf := b'\<rparr>, w')"
      using GenDirect r(1) by (simp add: zlog_spec_gen_msg_def gen_direct_def)
  qed (use r m GenDirect a in \<open>simp_all add: thread_moved_def message_text_def spec_text_def\<close>)
next
  case GenReformat
  note a = assms [unfolded thread_ok_def message_ok_def]
  have "gen_writes lc fmts (th_event t) (th_pre_msg_buf t) (th_msg_buf t) w
      (spec_text lc levels (th_mdc t) (th_event t) (event_time (th_event t) w) (th_pre_msg_buf t) GenReformat s)
      (gen_reformat lc levels s (th_mdc t) (th_event t) (th_pre_msg_buf t) (th_msg_buf t) w)"
    using a by (intro gen_reformat_writes) simp_all
  then obtain rc e' pre' b' w' where
    r: "gen_reformat lc levels s (th_mdc t) (th_event t) (th_pre_msg_buf t) (th_msg_buf t) w = Some (rc, e', pre', b', w')"
    "rc = -1 \<and> False \<in> set (sy_mem w) \<or>
      buf_puts (th_msg_buf t) (spec_text lc levels (th_mdc t) (th_event t) (event_time (th_event t) w) (th_pre_msg_buf t) GenReformat s)
        (sy_mem w) (rc, b', sy_mem w') \<and> buf_inv pre' \<and> buf_ready pre' \<and> same_limits (th_pre_msg_buf t) pre'"
    "set (sy_mem w') \<subseteq> set (sy_mem w)" "event_ok lc fmts e'" "event_data e' = event_data (th_event t)"
    "length (ev_time_caches e') = length (ev_time_caches (th_event t))"
    "event_time e' w' = event_time (th_event t) w" "sys_moved w w'" unfolding gen_writes_def by blast
  show thesis
  proof (rule that)
    show "zlog_spec_gen_msg lc levels s t w = Some (rc, t\<lparr>th_event := e', th_pre_msg_buf := pre', th_msg_buf := b'\<rparr>, w')"
      using GenReformat r(1) by (simp add: zlog_spec_gen_msg_def)
  qed (use r GenReformat in \<open>simp_all add: thread_moved_def message_text_def\<close>)
qed

text \<open>The outcome of making a message with the text \<open>txt\<close> in a thread whose buffer holds \<open>txt0\<close>.\<close>

definition message_made :: "zlog_buf \<Rightarrow> mem \<Rightarrow> string \<Rightarrow> int \<Rightarrow> zlog_buf \<Rightarrow> bool" where
  "message_made b m txt rc b' \<longleftrightarrow>
     (if rc = 0 then buf_ready b' \<and> buf_text b' = txt \<and> (zb_size_max b \<noteq> 0 \<longrightarrow> length txt < zb_size_max b)
      else rc = -1 \<and> (False \<in> set m \<or>
        buf_ready b' \<and> zb_size_max b \<noteq> 0 \<and> zb_size_max b \<le> length txt \<and> buf_text b' = limited b txt))"

lemma gen_msg_loop_writes:
  assumes "thread_ok lc fmts t" and "message_ok levels fmts t w ss"
  shows "\<exists>rc t' w'. gen_msg_loop lc levels (map Some ss) t w = Some (rc, t', w') \<and> thread_moved t w t' w' \<and>
    event_ok lc fmts (th_event t') \<and> (rc = 0 \<longrightarrow> thread_ok lc fmts t') \<and>
    message_made (th_msg_buf t) (sy_mem w) (buf_text (th_msg_buf t) @ message_text lc levels t w ss) rc (th_msg_buf t')"
  using assms
proof (induction ss arbitrary: t w)
  case Nil
  then show ?case using ready_below_max [of "th_msg_buf t"]
    by (simp add: message_made_def message_text_def thread_ok_def)
next
  case (Cons s ss)
  have "message_ok levels fmts t w [s]" using Cons.prems(2) by (simp add: message_ok_def)
  from spec_gen_msg_writes [OF Cons.prems(1) this] obtain rc t1 w1 where
    g: "zlog_spec_gen_msg lc levels s t w = Some (rc, t1, w1)" "thread_moved t w t1 w1" "event_ok lc fmts (th_event t1)"
    and p: "rc = -1 \<and> False \<in> set (sy_mem w) \<or>
      buf_puts (th_msg_buf t) (message_text lc levels t w [s]) (sy_mem w) (rc, th_msg_buf t1, sy_mem w1) \<and>
      buf_inv (th_pre_msg_buf t1) \<and> buf_ready (th_pre_msg_buf t1) \<and> same_limits (th_pre_msg_buf t) (th_pre_msg_buf t1)" by blast
  have split: "message_text lc levels t w (s # ss) = message_text lc levels t w [s] @ message_text lc levels t w ss"
    by (simp add: message_text_def)
  show ?case
  proof (cases "rc = 0")
    case True
    then have p0: "buf_puts (th_msg_buf t) (message_text lc levels t w [s]) (sy_mem w) (0, th_msg_buf t1, sy_mem w1)"
      "same_limits (th_pre_msg_buf t) (th_pre_msg_buf t1)" using p by simp_all
    have "thread_ok lc fmts t1"
      using p True g Cons.prems(1) by (simp add: thread_ok_def thread_moved_def buf_puts_def)
    moreover have "message_ok levels fmts t1 w1 ss"
      unfolding message_ok_moved [OF g(2)] using Cons.prems(2) by (simp add: message_ok_def)
    ultimately obtain rc' t' w' where r: "gen_msg_loop lc levels (map Some ss) t1 w1 = Some (rc', t', w')" "thread_moved t1 w1 t' w'"
      "event_ok lc fmts (th_event t')" "rc' = 0 \<longrightarrow> thread_ok lc fmts t'"
      "message_made (th_msg_buf t1) (sy_mem w1) (buf_text (th_msg_buf t1) @ message_text lc levels t1 w1 ss) rc' (th_msg_buf t')"
      using Cons.IH by blast
    have "message_made (th_msg_buf t) (sy_mem w) (buf_text (th_msg_buf t) @ message_text lc levels t w (s # ss)) rc' (th_msg_buf t')"
      using r(5) p0 g(2) message_text_moved [OF g(2) p0(2)] split
      by (auto simp: message_made_def buf_puts_def thread_moved_def same_limits_def limited_def split: if_splits)
    then show ?thesis using g r True thread_moved_trans [OF g(2) r(2)] by auto
  next
    case False
    have "message_made (th_msg_buf t) (sy_mem w) (buf_text (th_msg_buf t) @ message_text lc levels t w (s # ss)) (-1) (th_msg_buf t1)"
      using p False split by (auto simp: message_made_def buf_puts_def limited_def split: if_splits)
    then show ?thesis using g False by auto
  qed
qed

subsection \<open>Threads keep their invariant\<close>

lemma event_new_ok:
  "zlog_event_new lc n m = (Some e, k, m') \<Longrightarrow> event_ok lc fmts e \<and> event_lens e \<and> length (ev_time_caches e) = n"
  by (auto simp: zlog_event_new_def Let_def event_ok_def event_lens_def zero_event_def cache_ok_def
      split: if_splits option.splits prod.splits)

lemma event_set_ok:
  "event_ok lc fmts e \<Longrightarrow> event_ok lc fmts (zlog_event_set_fmt e c cn f fn g gn l lv out)"
  "event_ok lc fmts e \<Longrightarrow> event_ok lc fmts (zlog_event_set_hex e c cn f fn g gn l lv buf len)"
  by (simp_all add: event_ok_def zlog_event_set_fmt_def zlog_event_set_hex_def)

lemma mdc_lens_new: "zlog_mdc_new m = (Some a_mdc, m') \<Longrightarrow> mdc_lens a_mdc"
  using mdc_ok_new [of m a_mdc m'] by (simp add: mdc_lens_def)

lemma new_bufs_ok:
  "new_bufs ss bs m = (True, bs', m') \<Longrightarrow> \<forall>b \<in> set bs. buf_inv b \<and> buf_ready b \<Longrightarrow> \<forall>b \<in> set bs'. buf_inv b \<and> buf_ready b"
proof (induction ss bs m rule: new_bufs.induct)
  case (2 mn mx mark ss bs m)
  then show ?case using buf_inv_new [of mn mx mark m] by (auto split: prod.splits option.splits)
qed simp

lemma mdc_lens_put:
  assumes "mdc_lens a_mdc" and "length value \<le> MAXLEN_PATH" and "zlog_mdc_put a_mdc key value m = Some (rc, dels, a', m')"
  shows "mdc_lens a'"
proof -
  have "mdc_ok a_mdc" using assms(1) by (simp add: mdc_lens_def)
  then show ?thesis
  proof (rule mdc_put_cases [of a_mdc key "value" m])
    fix rc2 dels2 a2 m2
    assume p: "zlog_mdc_put a_mdc key value m = Some (rc2, dels2, a2, m2)" "mdc_ok a2"
      "rc2 = 0 \<and> ht_abs (mdc_tab a2) = (ht_abs (mdc_tab a_mdc))(take MAXLEN_PATH key \<mapsto> kv_of key value) \<or>
       rc2 = -1 \<and> False \<in> set m \<and> ht_abs (mdc_tab a2) = ht_abs (mdc_tab a_mdc)"
    have "kv_value_len kv = length (kv_value kv)" if "kv \<in> ran (ht_abs (mdc_tab a2))" for kv
      using p(3) that assms(1,2) by (auto simp: mdc_lens_def kv_of_def ran_def split: if_splits) blast+
    then show ?thesis using p assms(3) by (simp add: mdc_lens_def)
  qed
qed

lemma thread_new_ok:
  assumes "zlog_thread_new lc v mn mx cnt m = Some (Some t, m')"
  shows "thread_ok lc fmts t \<and> length (ev_time_caches (th_event t)) = cnt"
proof -
  obtain m0 a_mdc m1 e k m2 b1 b2 b3 b4 b5 where
    "zlog_mdc_new m0 = (Some a_mdc, m1)" "zlog_event_new lc cnt m1 = (Some e, k, m2)"
    "new_bufs (thread_bufs mn mx) [] m2 = (True, [b1, b2, b3, b4, b5], m')"
    "t = \<lparr>th_init_version = v, th_mdc = a_mdc, th_event = e, th_pre_path_buf = b1,
          th_path_buf = b2, th_archive_path_buf = b3, th_pre_msg_buf = b4, th_msg_buf = b5\<rparr>"
    using assms by (auto simp: zlog_thread_new_def Let_def Option.bind_eq_Some_conv split: if_splits prod.splits option.splits bool.splits list.splits)
  then show ?thesis
    using mdc_lens_new event_new_ok [of lc cnt m1 e k m2 fmts] new_bufs_ok [of "thread_bufs mn mx" "[]" m2] by (simp add: thread_ok_def)
qed

subsection \<open>Properties\<close>


text \<open>A machine, a thread and a system for the witnesses.\<close>

definition sample_libc :: libc where
  "sample_libc = \<lparr>lc_hostname = Some ''host'', lc_self = 1, lc_getenv = Map.empty, lc_localtime = (\<lambda>_. zero_tm),
     lc_expand = (\<lambda>f t. f)\<rparr>"

definition sample_thread :: zlog_thread where
  "sample_thread = the (fst (the (zlog_thread_new sample_libc 1 1024 2048 1 [])))"

lemma sample_thread_new: "zlog_thread_new sample_libc 1 1024 2048 1 [] = Some (Some sample_thread, [])"
  by (simp add: sample_thread_def zlog_thread_new_def zlog_mdc_new_def zc_hashtable_new_def zlog_event_new_def sample_libc_def
      thread_bufs_def zlog_buf_new_def MAXLEN_PATH_def truncate_mark_def Let_def)

lemma sample_thread_ok: "thread_ok sample_libc fmts sample_thread \<and> length (ev_time_caches (th_event sample_thread)) = 1"
  using thread_new_ok [OF sample_thread_new] .


definition sample_sys :: sys where
  "sample_sys = \<lparr>sy_mem = [], sy_clock = (\<lambda>n. (1000, 42)), sy_ticks = 0, sy_pid = 77\<rparr>"

definition sample_specs :: "zlog_spec list" where
  "sample_specs =
     [zero_spec\<lparr>sp_str := ''%d(%F) %m'', sp_len := 6, sp_write_buf := WriteTime, sp_time_fmt := ''%F''\<rparr>,
      zero_spec\<lparr>sp_str := '' %m'', sp_len := 1\<rparr>,
      zero_spec\<lparr>sp_str := ''%m'', sp_len := 2, sp_write_buf := WriteUsrmsg\<rparr>]"

definition sample_format :: zlog_format where
  "sample_format = \<lparr>fm_name = ''f'', fm_pattern = ''%d(%F) %m'',
     fm_pattern_specs = \<lparr>al_array = Some (map Some sample_specs), al_len = 3, al_size = 3, al_del = True\<rparr>\<rparr>"

definition sample_event_thread :: zlog_thread where
  "sample_event_thread = sample_thread\<lparr>th_event := zlog_event_set_fmt (th_event sample_thread) ''app'' 3 None 0 None 0 7 40 (Some (Some ''hello''))\<rparr>"

lemma fresh_level_info: "zlog_level_list_get fresh_levels 40 = Some (Some (default_level 40 ''INFO'' 6))"
proof -
  have "al_slots fresh_levels = foldl store_level [] default_levels" using level_list_new_ok by (auto simp: fresh_levels_def)
  then have "al_slots fresh_levels ! 40 = Some (default_level 40 ''INFO'' 6)"
    by (simp add: default_levels_def store_level_def slots_set_nth)
  then show ?thesis using level_list_get_ok [OF fresh_levels_ok, of 40] by simp
qed

lemma sample_lens: "event_lens (th_event sample_event_thread)"
proof -
  have "event_lens (th_event sample_thread)"
    by (simp add: sample_thread_def zlog_thread_new_def zlog_mdc_new_def zc_hashtable_new_def zlog_event_new_def sample_libc_def
      thread_bufs_def zlog_buf_new_def MAXLEN_PATH_def truncate_mark_def Let_def event_lens_def zero_event_def)
  then show ?thesis by (simp add: sample_event_thread_def zlog_event_set_fmt_def event_lens_def)
qed

lemma sample_message_ok:
  "thread_ok sample_libc [0 \<mapsto> ''%F''] sample_event_thread \<and> message_ok fresh_levels [0 \<mapsto> ''%F''] sample_event_thread sample_sys sample_specs"
proof
  show "thread_ok sample_libc [0 \<mapsto> ''%F''] sample_event_thread"
    using sample_thread_ok event_set_ok by (simp add: sample_event_thread_def thread_ok_def)
  have "length (ev_time_caches (th_event sample_event_thread)) = 1"
    using sample_thread_ok by (simp add: sample_event_thread_def zlog_event_set_fmt_def)
  moreover have "time_ok (event_time (th_event sample_event_thread) sample_sys)"
    by (simp add: time_ok_def event_time_def sample_event_thread_def zlog_event_set_fmt_def sample_sys_def)
  moreover have "level_ok fresh_levels (ev_level (th_event sample_event_thread))"
    using fresh_level_info by (simp add: level_ok_def sample_event_thread_def zlog_event_set_fmt_def default_level_def)
  ultimately show "message_ok fresh_levels [0 \<mapsto> ''%F''] sample_event_thread sample_sys sample_specs"
    using sample_lens by (simp add: message_ok_def sample_specs_def spec_ok_def event_has_def zero_spec_def)
qed

lemma format_gen_msg_writes:
  assumes "thread_ok lc fmts t" and "al_elems (fm_pattern_specs f) ss" and "message_ok levels fmts t w ss"
  shows "\<exists>rc t' w'. zlog_format_gen_msg lc levels f t w = Some (rc, t', w') \<and> thread_moved t w t' w' \<and>
    event_ok lc fmts (th_event t') \<and> (rc = 0 \<longrightarrow> thread_ok lc fmts t') \<and>
    message_made (th_msg_buf t) (sy_mem w) (message_text lc levels t w ss) rc (th_msg_buf t')"
proof -
  let ?t = "t\<lparr>th_msg_buf := zlog_buf_restart (th_msg_buf t)\<rparr>"
  have ok: "thread_ok lc fmts ?t" "message_ok levels fmts ?t w ss" using assms by (simp_all add: thread_ok_def message_ok_def)
  have same: "message_text lc levels ?t w ss = message_text lc levels t w ss" by (simp add: message_text_def)
  have moved: "thread_moved ?t w t' w' = thread_moved t w t' w'" for t' w' by (simp add: thread_moved_def)
  have made: "message_made (zlog_buf_restart b) m x rc b' = message_made b m x rc b'" for b m x rc b'
    by (simp add: message_made_def limited_def)
  show ?thesis
    using gen_msg_loop_writes [OF ok]
    by (simp add: zlog_format_gen_msg_def foreach_elems [OF assms(2)] same moved made)
qed



text \<open>C37: Parsing a format loses nothing: the texts of its specifiers, one after the other, are the pattern, every
  specifier covers at least one character of it, and the time specifiers get, in order, exactly the cache indices
  from the old value of \<open>time_cache_count\<close> up to the new one, so that no two share a cache and an event with
  \<open>time_cache_count\<close> caches has one for each.\<close>

theorem zlog_format_new_roundtrip:
  assumes "zlog_format_new lc line cnt m = Some (Some f, cnt', m')"
  shows "\<exists>ss. al_elems (fm_pattern_specs f) ss \<and> concat (map (\<lambda>s. take (sp_len s) (sp_str s)) ss) = fm_pattern f \<and>
    map sp_time_cache_index (filter (\<lambda>s. sp_write_buf s = WriteTime) ss) = [cnt..<cnt'] \<and>
    (\<forall>s \<in> set ss. spec_ok (spec_fmts ss) cnt' s)"
proof -
  obtain name pattern m1 where b: "format_build name pattern cnt m1 = Some (Some f, cnt', m')"
    using assms by (auto simp: zlog_format_new_def Let_def Option.bind_eq_Some_conv split: if_splits prod.splits option.splits)
  then obtain l l' m2 where l: "zc_arraylist_new True m1 = (Some l, m2)" and
    s: "format_specs (fm_pattern f) l cnt m2 = Some (True, l', cnt', m')" "fm_pattern_specs f = l'"
    by (auto simp: format_build_def Let_def Option.bind_eq_Some_conv split: if_splits prod.splits option.splits)
  have "al_elems l []" using zc_arraylist_new_rep [OF l] by (simp add: al_elems_def)
  from format_specs_cover [OF s(1) this] obtain ss where ss: "al_elems l' ss" "specs_cover (fm_pattern f) cnt ss cnt'" by auto
  then show ?thesis
    using specs_cover_pattern [OF ss(2)] specs_cover_indices [OF ss(2)] specs_cover_ok [OF ss(2)] s(2) by blast
qed

lemma sample_format_new: "\<exists>f cnt' m'. zlog_format_new sample_libc ''f = \"%d\"'' 5 [] = Some (Some f, cnt', m')"
proof -
  have big: "2 \<le> MAXLEN_CFG_LINE" by (simp add: MAXLEN_CFG_LINE_def)
  let ?blk = "''%d'' @ replicate (MAXLEN_CFG_LINE + 1 - 2) (CHR 0x00)"
  have c: "cstr ?blk 0 = Some ''%d''" "cstr ?blk 1 = Some ''d''" by (simp_all add: cstr_def takeWhile_append MAXLEN_CFG_LINE_def)
  have "replace_env_loop Map.empty (MAXLEN_CFG_LINE + 1) ?blk 1 2 = Some (0, ?blk)"
    using c(2) by (subst replace_env_loop.simps) simp
  then have r: "zc_str_replace_env Map.empty ?blk (MAXLEN_CFG_LINE + 1) = Some (0, ?blk)"
    unfolding zc_str_replace_env_def c(1) Option.bind.simps
    using c(1) by (subst replace_env_loop.simps) (simp add: fmt_char_def isdigit_def env_ref_def sscanf_def nscan_def)
  obtain l0 :: "zlog_spec zc_arraylist" where l0: "zc_arraylist_new True [] = (Some l0, [])" by (simp add: zc_arraylist_new_def)
  then have "al_elems l0 []" using zc_arraylist_new_rep [OF l0] by (simp add: al_elems_def)
  note a = add_elems [OF this]
  define sp where "sp = zero_spec\<lparr>sp_str := ''%d'', sp_time_fmt := ZLOG_DEFAULT_TIME_FMT, sp_time_cache_index := 5,
      sp_write_buf := WriteTime, sp_len := 2\<rparr>"
  have n: "zlog_spec_new ''%d'' 5 [] = Some (Some (sp, 2), 6, [])"
    by (simp add: zlog_spec_new_def at_def sscanf_def isdigit_def nscan_def zero_spec_def spec_new_conv_def spec_new_time_def sp_def)
  obtain rc dead l1 m1 where l1: "zc_arraylist_add l0 (Some sp) [] = Some (rc, dead, l1, m1)" "rc = 0" using a [of sp "[]"] by fastforce
  have "format_specs ''%d'' l0 5 [] = Some (True, l1, 6, m1)"
    using n l1 by (subst format_specs.simps) (simp add: format_specs.simps)
  moreover have "sscanf [ScanWs, ScanSet (\<lambda>c. c \<noteq> CHR ''='' \<and> c \<noteq> CHR '' '' \<and> c \<noteq> CHR 0x09), ScanWs,
      ScanLit (CHR ''=''), ScanWs, ScanCount] ''f = \"%d\"'' = [VStr ''f'', VCount 4]"
    by (simp add: sscanf_def isspace_def)
  moreover have "strrchr (CHR ''%'' # CHR ''d'' # [CHR 0x22]) (CHR 0x22) = Some [CHR 0x22]" by (simp add: strrchr_def)
  ultimately have "zlog_format_new sample_libc ''f = \"%d\"'' 5 [] =
      Some (Some \<lparr>fm_name = ''f'', fm_pattern = ''%d'', fm_pattern_specs = l1\<rparr>, 6, m1)"
    using r c(1) l0 big
    by (simp add: zlog_format_new_def format_build_def nscan_def val_str_def val_int_def at_def isalnum_def tolower_def sample_libc_def Let_def)
  then show ?thesis by blast
qed

theorem zlog_format_new_roundtrip_witness:
  "\<exists>f cnt' m' ss. zlog_format_new sample_libc ''f = \"%d\"'' 5 [] = Some (Some f, cnt', m') \<and> al_elems (fm_pattern_specs f) ss \<and>
     concat (map (\<lambda>s. take (sp_len s) (sp_str s)) ss) = fm_pattern f"
  using sample_format_new zlog_format_new_roundtrip by blast

text \<open>The key of \<open>%M(...)\<close> is scanned without a bound into an array of 1024 characters, although a pattern can
  have 4096: a longer key makes \<open>zlog_spec_new\<close> write past the array. A defect.\<close>

theorem zlog_spec_new_mdc_key_overflow:
  assumes "MAXLEN_PATH < length key" and "CHR '')'' \<notin> set key"
  shows "zlog_spec_new (''%M('' @ key @ '')'' @ rest) cnt [] = None"
proof -
  have "takeWhile (\<lambda>x. x \<noteq> CHR '')'') (key @ CHR '')'' # rest) = key" using assms(2) by (auto simp: takeWhile_append)
  moreover have "key \<noteq> []" using assms(1) by auto
  ultimately have "scan_paren (CHR ''M'') (''M('' @ key @ '')'' @ rest) = (True, key, length key + 3)"
    by (simp add: scan_paren_def sscanf_def nscan_def val_str_def val_int_def)
  then show ?thesis
    using assms(1)
    by (simp add: zlog_spec_new_def at_def sscanf_def isdigit_def nscan_def zero_spec_def spec_new_conv_def spec_new_mdc_def Let_def)
qed

theorem zlog_spec_new_mdc_key_overflow_witness:
  "zlog_spec_new (''%M('' @ replicate 1025 (CHR ''k'') @ '')'' @ []) 0 [] = None"
  by (rule zlog_spec_new_mdc_key_overflow) (simp_all add: MAXLEN_PATH_def)

text \<open>\<open>zlog_event_new\<close> gives back what it allocated when it fails, except when the array of time caches
  cannot be allocated: then the event itself is lost. A leak.\<close>

theorem zlog_event_new_leak:
  "zlog_event_new lc n m = (None, k, m') \<longrightarrow> (k \<noteq> 0 \<longleftrightarrow> fst (alloc m) \<and> \<not> fst (alloc (snd (alloc m))))"
  by (auto simp: zlog_event_new_def Let_def zlog_event_del_def split: if_splits prod.splits option.splits)

theorem zlog_event_new_leak_witness: "zlog_event_new sample_libc 1 [True, False] = (None, 1, []) \<and> (1::nat) \<noteq> 0"
  using zlog_event_new_leak [of sample_libc 1 "[True, False]" 1 "[]"] by (simp add: zlog_event_new_def)

end
