(* ===== verification/Zlog_Rule.thy ===== *)
theory Zlog_Rule
  imports Zlog_Rotater Zlog_Selector Zlog_Format
begin

unbundle bit_operations_syntax

text \<open>
  Rules (\<^verbatim>\<open>rule.c\<close>): a rule extends its selector (\<open>rule_sel\<close>) by where its messages go. Here are the output functions, the
  parser of the action of a rule, and the operations on a finished rule. What the output functions read of the global configuration,
  the levels and the rotater, are arguments; the rotater is returned. A user defined record function is a value of
  type \<open>'f\<close>; what calling it does is the argument \<open>call\<close>.
\<close>

datatype output_fn = StaticFileSingle | StaticFileRotate | DynamicFileSingle | DynamicFileRotate | OutPipe | OutSyslog
  | StaticRecord | DynamicRecord | OutStdout | OutStderr

record 'f zlog_rule = rule_sel +
  ru_file_perms :: nat
  ru_file_open_flags :: int
  ru_file_path :: string
  ru_dynamic_specs :: "zlog_spec zc_arraylist option"
  ru_static_fd :: int
  ru_archive_max_size :: int
  ru_archive_max_count :: int
  ru_archive_path :: string
  ru_archive_specs :: "zlog_spec zc_arraylist option"
  ru_pipe_fp :: "int option"
  ru_pipe_fd :: int
  ru_fsync_period :: nat
  ru_fsync_count :: nat
  ru_syslog_facility :: int
  ru_format :: "zlog_format option"
  ru_output :: "output_fn option"
  ru_record_name :: string
  ru_record_path :: string
  ru_record_func :: "'f option"

record zlog_msg =
  ms_buf :: string
  ms_len :: nat
  ms_path :: string

subsection \<open>Parts of the output functions\<close>

text \<open>The bytes of a buffer that is passed with its length, and the string of a sealed buffer.\<close>

definition buf_bytes :: "zlog_buf \<Rightarrow> string option" where
  "buf_bytes b = do { cells \<leftarrow> zb_start b; those (take (zlog_buf_len b) cells) }"

definition buf_str :: "zlog_buf \<Rightarrow> string option" where
  "buf_str b = do {
     cells \<leftarrow> zb_start b;
     let s = takeWhile (\<lambda>c. c \<noteq> None \<and> c \<noteq> Some (CHR 0x00)) cells;
     c \<leftarrow> cell cells (int (length s));
     if c = None then None else those s
   }"

text \<open>\<open>zlog_format_gen_msg\<close> with the format of the rule.\<close>

definition rule_gen_msg ::
  "libc \<Rightarrow> level_list \<Rightarrow> 'f zlog_rule \<Rightarrow> zlog_thread \<Rightarrow> 'z os_scheme \<Rightarrow> (int \<times> zlog_thread \<times> 'z os_scheme) option" where
  "rule_gen_msg lc levels r t w = do { f \<leftarrow> ru_format r; zlog_format_gen_msg lc levels f t w }"

text \<open>\<open>write\<close> of the message buffer to a descriptor: is the result not negative?\<close>

definition write_msg :: "int \<Rightarrow> zlog_thread \<Rightarrow> 'z os_scheme \<Rightarrow> (bool \<times> 'z os_scheme) option" where
  "write_msg fd t w = do { s \<leftarrow> buf_bytes (th_msg_buf t); let (n, w) = os_write fd s w; Some (n \<ge> 0, w) }"

text \<open>The test on \<open>fsync_period\<close> and the counter; a failing \<open>fsync\<close> is only reported.\<close>

definition fsync_step :: "'f zlog_rule \<Rightarrow> int \<Rightarrow> 'z os_scheme \<Rightarrow> 'f zlog_rule \<times> 'z os_scheme" where
  "fsync_step r fd w =
     (if ru_fsync_period r \<noteq> 0 then
        if ru_fsync_count r + 1 \<ge> ru_fsync_period r then (r\<lparr>ru_fsync_count := 0\<rparr>, snd (os_fsync fd w))
        else (r\<lparr>ru_fsync_count := ru_fsync_count r + 1\<rparr>, w)
      else (r, w))"

fun gen_path_loop ::
  "(zlog_spec \<Rightarrow> zlog_thread \<Rightarrow> 'z os_scheme \<Rightarrow> (int \<times> zlog_thread \<times> 'z os_scheme) option) \<Rightarrow> zlog_spec option list \<Rightarrow>
   zlog_thread \<Rightarrow> 'z os_scheme \<Rightarrow> (bool \<times> zlog_thread \<times> 'z os_scheme) option" where
  "gen_path_loop gen [] t w = Some (True, t, w)"
| "gen_path_loop gen (p # ps) t w = do {
     s \<leftarrow> p;
     (rc, t, w) \<leftarrow> gen s t w;
     if rc \<noteq> 0 then Some (False, t, w) else gen_path_loop gen ps t w
   }"

text \<open>\<open>zlog_rule_gen_archive_path\<close>: the inner \<open>None\<close> is a null pointer.\<close>

definition zlog_rule_gen_archive_path ::
  "libc \<Rightarrow> level_list \<Rightarrow> 'f zlog_rule \<Rightarrow> zlog_thread \<Rightarrow> 'z os_scheme \<Rightarrow> (string option \<times> zlog_thread \<times> 'z os_scheme) option" where
  "zlog_rule_gen_archive_path lc levels r t w =
     (case ru_archive_specs r of
        None \<Rightarrow> Some (Some (ru_archive_path r), t, w)
      | Some l \<Rightarrow> do {
          ps \<leftarrow> zc_arraylist_foreach l;
          (ok, t, w) \<leftarrow> gen_path_loop (zlog_spec_gen_archive_path lc levels) ps
             (t\<lparr>th_archive_path_buf := zlog_buf_restart (th_archive_path_buf t)\<rparr>) w;
          if \<not> ok then Some (None, t, w)
          else do {
            b \<leftarrow> zlog_buf_seal (th_archive_path_buf t);
            path \<leftarrow> buf_str b;
            Some (Some path, t\<lparr>th_archive_path_buf := b\<rparr>, w)
          }
        })"

text \<open>The macro \<open>zlog_rule_gen_path\<close>; \<open>False\<close> is its \<open>return -1\<close>.\<close>

definition zlog_rule_gen_path ::
  "libc \<Rightarrow> level_list \<Rightarrow> 'f zlog_rule \<Rightarrow> zlog_thread \<Rightarrow> 'z os_scheme \<Rightarrow> (bool \<times> zlog_thread \<times> 'z os_scheme) option" where
  "zlog_rule_gen_path lc levels r t w = do {
     l \<leftarrow> ru_dynamic_specs r;
     ps \<leftarrow> zc_arraylist_foreach l;
     (ok, t, w) \<leftarrow> gen_path_loop (zlog_spec_gen_path lc levels) ps (t\<lparr>th_path_buf := zlog_buf_restart (th_path_buf t)\<rparr>) w;
     if \<not> ok then Some (False, t, w)
     else do { b \<leftarrow> zlog_buf_seal (th_path_buf t); Some (True, t\<lparr>th_path_buf := b\<rparr>, w) }
   }"

subsection \<open>Output functions\<close>

definition output_fd ::
  "libc \<Rightarrow> level_list \<Rightarrow> int \<Rightarrow> 'f zlog_rule \<Rightarrow> zlog_thread \<Rightarrow> 'z os_scheme \<Rightarrow> (int \<times> zlog_thread \<times> 'z os_scheme) option" where
  "output_fd lc levels fd r t w = do {
     (rc, t, w) \<leftarrow> rule_gen_msg lc levels r t w;
     if rc \<noteq> 0 then Some (-1, t, w)
     else do { (ok, w) \<leftarrow> write_msg fd t w; Some (if ok then 0 else -1, t, w) }
   }"

definition zlog_rule_output_static_file_single ::
  "libc \<Rightarrow> level_list \<Rightarrow> 'f zlog_rule \<Rightarrow> zlog_thread \<Rightarrow> 'z os_scheme \<Rightarrow> (int \<times> 'f zlog_rule \<times> zlog_thread \<times> 'z os_scheme) option" where
  "zlog_rule_output_static_file_single lc levels r t w = do {
     (rc, t, w) \<leftarrow> output_fd lc levels (ru_static_fd r) r t w;
     if rc \<noteq> 0 then Some (-1, r, t, w)
     else let (r, w) = fsync_step r (ru_static_fd r) w in Some (0, r, t, w)
   }"

text \<open>
  What all functions that open their file do: make the message, open the path, write, count, close. \<open>False\<close> is a
  \<open>return -1\<close>; otherwise the length of the message is the result.
\<close>

definition open_write_close ::
  "string \<Rightarrow> 'f zlog_rule \<Rightarrow> zlog_thread \<Rightarrow> 'z os_scheme \<Rightarrow> (bool \<times> 'f zlog_rule \<times> 'z os_scheme) option" where
  "open_write_close path r t w =
     (let (fd, w) = os_open path w in
      if fd < 0 then Some (False, r, w)
      else do {
        (ok, w) \<leftarrow> write_msg fd t w;
        if \<not> ok then Some (False, r, snd (os_close fd w))
        else
          let (r, w) = fsync_step r fd w; (rc, w) = os_close fd w in
          Some (rc \<ge> 0, r, w)
      })"

text \<open>The end of the two rotating functions: is the file big enough to be rotated? Sizes are unsigned 64 bit numbers.\<close>

definition rotate_step ::
  "libc \<Rightarrow> level_list \<Rightarrow> string \<Rightarrow> 'f zlog_rule \<Rightarrow> zlog_rotater \<Rightarrow> zlog_thread \<Rightarrow> 'z os_scheme \<Rightarrow>
   (int \<times> zlog_rotater \<times> zlog_thread \<times> 'z os_scheme) option" where
  "rotate_step lc levels path r ro t w =
     (let len = zlog_buf_len (th_msg_buf t) in
      if int len > ru_archive_max_size r mod 2 ^ 64 then Some (0, ro, t, w)
      else
        let (info, w) = os_stat path w in
        case info of
          None \<Rightarrow> Some (0, ro, t, w)
        | Some st_size \<Rightarrow>
            if (int st_size + int len) mod 2 ^ 64 < ru_archive_max_size r mod 2 ^ 64 then Some (0, ro, t, w)
            else do {
              (archive_path, t, w) \<leftarrow> zlog_rule_gen_archive_path lc levels r t w;
              (rc, ro, w) \<leftarrow> zlog_rotater_rotate ro path len archive_path (ru_archive_max_size r) (ru_archive_max_count r) w;
              Some (if rc \<noteq> 0 then -1 else 0, ro, t, w)
            })"

text \<open>\<open>zlog_rule_output_static_file_rotate\<close> counts and syncs twice, the second time on \<open>static_fd\<close>.\<close>

definition zlog_rule_output_static_file_rotate ::
  "libc \<Rightarrow> level_list \<Rightarrow> 'f zlog_rule \<Rightarrow> zlog_rotater \<Rightarrow> zlog_thread \<Rightarrow> 'z os_scheme \<Rightarrow>
   (int \<times> 'f zlog_rule \<times> zlog_rotater \<times> zlog_thread \<times> 'z os_scheme) option" where
  "zlog_rule_output_static_file_rotate lc levels r ro t w = do {
     (rc, t, w) \<leftarrow> rule_gen_msg lc levels r t w;
     if rc \<noteq> 0 then Some (-1, r, ro, t, w)
     else do {
       (ok, r, w) \<leftarrow> open_write_close (ru_file_path r) r t w;
       if \<not> ok then Some (-1, r, ro, t, w)
       else
         let (r, w) = fsync_step r (ru_static_fd r) w in do {
           (rc, ro, t, w) \<leftarrow> rotate_step lc levels (ru_file_path r) r ro t w;
           Some (rc, r, ro, t, w)
         }
     }
   }"

definition zlog_rule_output_dynamic_file_single ::
  "libc \<Rightarrow> level_list \<Rightarrow> 'f zlog_rule \<Rightarrow> zlog_thread \<Rightarrow> 'z os_scheme \<Rightarrow> (int \<times> 'f zlog_rule \<times> zlog_thread \<times> 'z os_scheme) option" where
  "zlog_rule_output_dynamic_file_single lc levels r t w = do {
     (ok, t, w) \<leftarrow> zlog_rule_gen_path lc levels r t w;
     if \<not> ok then Some (-1, r, t, w)
     else do {
       (rc, t, w) \<leftarrow> rule_gen_msg lc levels r t w;
       if rc \<noteq> 0 then Some (-1, r, t, w)
       else do {
         path \<leftarrow> buf_str (th_path_buf t);
         (ok, r, w) \<leftarrow> open_write_close path r t w;
         Some (if ok then 0 else -1, r, t, w)
       }
     }
   }"

definition zlog_rule_output_dynamic_file_rotate ::
  "libc \<Rightarrow> level_list \<Rightarrow> 'f zlog_rule \<Rightarrow> zlog_rotater \<Rightarrow> zlog_thread \<Rightarrow> 'z os_scheme \<Rightarrow>
   (int \<times> 'f zlog_rule \<times> zlog_rotater \<times> zlog_thread \<times> 'z os_scheme) option" where
  "zlog_rule_output_dynamic_file_rotate lc levels r ro t w = do {
     (ok, t, w) \<leftarrow> zlog_rule_gen_path lc levels r t w;
     if \<not> ok then Some (-1, r, ro, t, w)
     else do {
       (rc, t, w) \<leftarrow> rule_gen_msg lc levels r t w;
       if rc \<noteq> 0 then Some (-1, r, ro, t, w)
       else do {
         path \<leftarrow> buf_str (th_path_buf t);
         (ok, r, w) \<leftarrow> open_write_close path r t w;
         if \<not> ok then Some (-1, r, ro, t, w)
         else do {
           (rc, ro, t, w) \<leftarrow> rotate_step lc levels path r ro t w;
           Some (rc, r, ro, t, w)
         }
       }
     }
   }"

definition zlog_rule_output_pipe ::
  "libc \<Rightarrow> level_list \<Rightarrow> 'f zlog_rule \<Rightarrow> zlog_thread \<Rightarrow> 'z os_scheme \<Rightarrow> (int \<times> zlog_thread \<times> 'z os_scheme) option" where
  "zlog_rule_output_pipe lc levels r t w = output_fd lc levels (ru_pipe_fd r) r t w"

definition zlog_rule_output_stdout ::
  "libc \<Rightarrow> level_list \<Rightarrow> 'f zlog_rule \<Rightarrow> zlog_thread \<Rightarrow> 'z os_scheme \<Rightarrow> (int \<times> zlog_thread \<times> 'z os_scheme) option" where
  "zlog_rule_output_stdout lc levels r t w = output_fd lc levels 1 r t w"

definition zlog_rule_output_stderr ::
  "libc \<Rightarrow> level_list \<Rightarrow> 'f zlog_rule \<Rightarrow> zlog_thread \<Rightarrow> 'z os_scheme \<Rightarrow> (int \<times> zlog_thread \<times> 'z os_scheme) option" where
  "zlog_rule_output_stderr lc levels r t w = output_fd lc levels 2 r t w"

definition zlog_rule_output_syslog ::
  "libc \<Rightarrow> level_list \<Rightarrow> 'f zlog_rule \<Rightarrow> zlog_thread \<Rightarrow> 'z os_scheme \<Rightarrow> (int \<times> zlog_thread \<times> 'z os_scheme) option" where
  "zlog_rule_output_syslog lc levels r t w = do {
     (rc, t, w) \<leftarrow> rule_gen_msg lc levels r t w;
     if rc \<noteq> 0 then Some (-1, t, w)
     else do {
       a_level \<leftarrow> zlog_level_list_get levels (ev_level (th_event t));
       b \<leftarrow> zlog_buf_seal (th_msg_buf t);
       a_level \<leftarrow> a_level;
       s \<leftarrow> buf_str b;
       Some (0, t\<lparr>th_msg_buf := b\<rparr>, os_log (ru_syslog_facility r OR lv_syslog_level a_level) s w)
     }
   }"

text \<open>The two record functions: after the path they are the same.\<close>

definition call_record ::
  "('f \<Rightarrow> zlog_msg \<Rightarrow> 'z os_scheme \<Rightarrow> int \<times> 'z os_scheme) \<Rightarrow> 'f \<Rightarrow> libc \<Rightarrow> level_list \<Rightarrow> (zlog_thread \<Rightarrow> string option) \<Rightarrow> 'f zlog_rule \<Rightarrow>
   zlog_thread \<Rightarrow> 'z os_scheme \<Rightarrow> (int \<times> zlog_thread \<times> 'z os_scheme) option" where
  "call_record call f lc levels path r t w = do {
     (rc, t, w) \<leftarrow> rule_gen_msg lc levels r t w;
     if rc \<noteq> 0 then Some (-1, t, w)
     else do {
       b \<leftarrow> zlog_buf_seal (th_msg_buf t);
       let t = t\<lparr>th_msg_buf := b\<rparr>;
       s \<leftarrow> buf_bytes b;
       p \<leftarrow> path t;
       let (rc, w) = call f \<lparr>ms_buf = s, ms_len = zlog_buf_len b, ms_path = p\<rparr> w;
       Some (if rc \<noteq> 0 then -1 else 0, t, w)
     }
   }"

definition zlog_rule_output_static_record ::
  "('f \<Rightarrow> zlog_msg \<Rightarrow> 'z os_scheme \<Rightarrow> int \<times> 'z os_scheme) \<Rightarrow> libc \<Rightarrow> level_list \<Rightarrow> 'f zlog_rule \<Rightarrow> zlog_thread \<Rightarrow> 'z os_scheme \<Rightarrow>
   (int \<times> zlog_thread \<times> 'z os_scheme) option" where
  "zlog_rule_output_static_record call lc levels r t w =
     (case ru_record_func r of
        None \<Rightarrow> Some (-1, t, w)
      | Some f \<Rightarrow> call_record call f lc levels (\<lambda>t. Some (ru_record_path r)) r t w)"

definition zlog_rule_output_dynamic_record ::
  "('f \<Rightarrow> zlog_msg \<Rightarrow> 'z os_scheme \<Rightarrow> int \<times> 'z os_scheme) \<Rightarrow> libc \<Rightarrow> level_list \<Rightarrow> 'f zlog_rule \<Rightarrow> zlog_thread \<Rightarrow> 'z os_scheme \<Rightarrow>
   (int \<times> zlog_thread \<times> 'z os_scheme) option" where
  "zlog_rule_output_dynamic_record call lc levels r t w =
     (case ru_record_func r of
        None \<Rightarrow> Some (-1, t, w)
      | Some f \<Rightarrow> do {
          (ok, t, w) \<leftarrow> zlog_rule_gen_path lc levels r t w;
          if \<not> ok then Some (-1, t, w) else call_record call f lc levels (\<lambda>t. buf_str (th_path_buf t)) r t w
        })"

text \<open>The call through \<open>a_rule->output\<close>, and \<open>zlog_rule_output\<close>.\<close>

definition run_output ::
  "('f \<Rightarrow> zlog_msg \<Rightarrow> 'z os_scheme \<Rightarrow> int \<times> 'z os_scheme) \<Rightarrow> libc \<Rightarrow> level_list \<Rightarrow> 'f zlog_rule \<Rightarrow> zlog_rotater \<Rightarrow> zlog_thread \<Rightarrow>
   'z os_scheme \<Rightarrow> (int \<times> 'f zlog_rule \<times> zlog_rotater \<times> zlog_thread \<times> 'z os_scheme) option" where
  "run_output call lc levels r ro t w = do {
     f \<leftarrow> ru_output r;
     (case f of
        StaticFileSingle \<Rightarrow> do { (rc, r, t, w) \<leftarrow> zlog_rule_output_static_file_single lc levels r t w; Some (rc, r, ro, t, w) }
      | StaticFileRotate \<Rightarrow> zlog_rule_output_static_file_rotate lc levels r ro t w
      | DynamicFileSingle \<Rightarrow> do { (rc, r, t, w) \<leftarrow> zlog_rule_output_dynamic_file_single lc levels r t w; Some (rc, r, ro, t, w) }
      | DynamicFileRotate \<Rightarrow> zlog_rule_output_dynamic_file_rotate lc levels r ro t w
      | OutPipe \<Rightarrow> do { (rc, t, w) \<leftarrow> zlog_rule_output_pipe lc levels r t w; Some (rc, r, ro, t, w) }
      | OutSyslog \<Rightarrow> do { (rc, t, w) \<leftarrow> zlog_rule_output_syslog lc levels r t w; Some (rc, r, ro, t, w) }
      | StaticRecord \<Rightarrow> do { (rc, t, w) \<leftarrow> zlog_rule_output_static_record call lc levels r t w; Some (rc, r, ro, t, w) }
      | DynamicRecord \<Rightarrow> do { (rc, t, w) \<leftarrow> zlog_rule_output_dynamic_record call lc levels r t w; Some (rc, r, ro, t, w) }
      | OutStdout \<Rightarrow> do { (rc, t, w) \<leftarrow> zlog_rule_output_stdout lc levels r t w; Some (rc, r, ro, t, w) }
      | OutStderr \<Rightarrow> do { (rc, t, w) \<leftarrow> zlog_rule_output_stderr lc levels r t w; Some (rc, r, ro, t, w) })
   }"

definition zlog_rule_output ::
  "('f \<Rightarrow> zlog_msg \<Rightarrow> 'z os_scheme \<Rightarrow> int \<times> 'z os_scheme) \<Rightarrow> libc \<Rightarrow> level_list \<Rightarrow> 'f zlog_rule \<Rightarrow> zlog_rotater \<Rightarrow> zlog_thread \<Rightarrow>
   'z os_scheme \<Rightarrow> (int \<times> 'f zlog_rule \<times> zlog_rotater \<times> zlog_thread \<times> 'z os_scheme) option" where
  "zlog_rule_output call lc levels r ro t w =
     (if rule_passes r (ev_level (th_event t)) then run_output call lc levels r ro t w else Some (0, r, ro, t, w))"

subsection \<open>Making a rule\<close>

definition LOG_USER :: int where "LOG_USER = 8"

definition O_SYNC :: int where "O_SYNC = 1052672"

text \<open>The facilities of \<^verbatim>\<open>syslog.h\<close> by name.\<close>

definition syslog_facilities :: "(string \<times> int) list" where
  "syslog_facilities =
     [(''LOG_LOCAL0'', 128), (''LOG_LOCAL1'', 136), (''LOG_LOCAL2'', 144), (''LOG_LOCAL3'', 152), (''LOG_LOCAL4'', 160),
      (''LOG_LOCAL5'', 168), (''LOG_LOCAL6'', 176), (''LOG_LOCAL7'', 184), (''LOG_USER'', LOG_USER)]"

definition syslog_facility_atoi :: "string option \<Rightarrow> int" where
  "syslog_facility_atoi facility =
     (case facility of
        None \<Rightarrow> -187
      | Some s \<Rightarrow> (case find (\<lambda>(name, _). strcaseeq s name) syslog_facilities of Some (_, v) \<Rightarrow> v | None \<Rightarrow> -187))"

text \<open>A character array that holds a string and is zero behind it.\<close>

definition zero_padded :: "string \<Rightarrow> nat \<Rightarrow> string" where
  "zero_padded s n = s @ replicate (n - length s) (CHR 0x00)"

text \<open>
  \<open>zlog_rule_parse_path\<close> from the first quote on: the return code, the path, the specifiers (a null pointer when the path is static)
  and the counter of time caches. The test after \<open>zc_arraylist_new\<close> is on the wrong variable, so a list that could not be made
  is used; adding to it is undefined.
\<close>

definition zlog_rule_parse_path ::
  "libc \<Rightarrow> string \<Rightarrow> nat \<Rightarrow> nat \<Rightarrow> mem \<Rightarrow> (int \<times> string \<times> zlog_spec zc_arraylist option \<times> nat \<times> mem) option" where
  "zlog_rule_parse_path lc path_start path_size time_cache_count m =
     (let p = drop 1 path_start in
      case strrchr p (CHR 0x22) of
        None \<Rightarrow> Some (-1, [], None, time_cache_count, m)
      | Some q \<Rightarrow>
          let len = length p - length q in
          if len > path_size - 1 then Some (-1, [], None, time_cache_count, m)
          else do {
            (rc, blk) \<leftarrow> zc_str_replace_env (lc_getenv lc) (zero_padded (take len p) path_size) path_size;
            path \<leftarrow> cstr blk 0;
            if rc \<noteq> 0 then Some (-1, path, None, time_cache_count, m)
            else if strchr path (CHR ''%'') = None then Some (0, path, None, time_cache_count, m)
            else
              (case zc_arraylist_new True m of
                 (None, m) \<Rightarrow> do {
                   (r, time_cache_count, m) \<leftarrow> zlog_spec_new path time_cache_count m;
                   (case r of None \<Rightarrow> Some (-1, path, None, time_cache_count, m) | Some _ \<Rightarrow> None)
                 }
               | (Some specs, m) \<Rightarrow> do {
                   (ok, specs, time_cache_count, m) \<leftarrow> format_specs path specs time_cache_count m;
                   if ok then Some (0, path, Some specs, time_cache_count, m)
                   else do {
                     _ \<leftarrow> zc_arraylist_del (Some specs);
                     Some (-1, path, None, time_cache_count, m)
                   }
                 })
          })"

definition zlog_rule_del :: "'f zlog_rule \<Rightarrow> 'z os_scheme \<Rightarrow> 'z os_scheme option" where
  "zlog_rule_del r w = do {
     _ \<leftarrow> (case ru_dynamic_specs r of None \<Rightarrow> Some [] | Some l \<Rightarrow> zc_arraylist_del (Some l));
     let w = (if ru_static_fd r \<noteq> 0 then snd (os_close (ru_static_fd r) w) else w);
     let w = (case ru_pipe_fp r of None \<Rightarrow> w | Some fd \<Rightarrow> snd (os_pclose fd w));
     _ \<leftarrow> (case ru_archive_specs r of None \<Rightarrow> Some [] | Some l \<Rightarrow> zc_arraylist_del (Some l));
     Some w
   }"

text \<open>
  The parts of \<open>zlog_rule_new\<close> behind the selector. Each gets the rule built so far and returns, with the counter of time caches and the
  system, whether to go on (\<open>False\<close> is the jump to \<open>err\<close>) and the rule.
\<close>

fun find_format :: "string \<Rightarrow> zlog_format option list \<Rightarrow> zlog_format option option" where
  "find_format name [] = Some None"
| "find_format name (p # ps) = do { f \<leftarrow> p; if zlog_format_has_name f name then Some (Some f) else find_format name ps }"

text \<open>The limit of a file: \<open>sscanf\<close> with \<open>" %[0-9MmKkBb] * %d ~"\<close>, whose result is not 0 also when there is no input.\<close>

definition limit_items :: "scan_item list" where
  "limit_items = [ScanWs, ScanSet (\<lambda>c. isdigit c \<or> c \<in> set ''MmKkBb''), ScanWs, ScanLit (CHR ''*''), ScanWs, ScanInt, ScanWs, ScanLit (CHR ''~'')]"

definition rule_new_limit ::
  "libc \<Rightarrow> string \<Rightarrow> 'f zlog_rule \<Rightarrow> nat \<Rightarrow> mem \<Rightarrow> (bool \<times> 'f zlog_rule \<times> nat \<times> mem) option" where
  "rule_new_limit lc file_limit r time_cache_count m =
     (let vs = sscanf limit_items file_limit;
          r = r\<lparr>ru_archive_max_count := val_int (ru_archive_max_count r) vs 1\<rparr>
      in do {
        size \<leftarrow> (if nscan vs \<noteq> 0 \<or> scan_eof limit_items file_limit then map_option int (zc_parse_byte_size (val_str vs 0))
                 else Some (ru_archive_max_size r));
        let r = r\<lparr>ru_archive_max_size := size\<rparr>;
        (case strchr file_limit (CHR 0x22) of
           None \<Rightarrow> Some (True, r, time_cache_count, m)
         | Some p \<Rightarrow> do {
             (rc, path, specs, time_cache_count, m) \<leftarrow> zlog_rule_parse_path lc p (MAXLEN_PATH + 1) time_cache_count m;
             let r = r\<lparr>ru_archive_path := path, ru_archive_specs := specs\<rparr>;
             if rc \<noteq> 0 then Some (False, r, time_cache_count, m)
             else if strchr path (CHR ''#'') = None then None
             else Some (True, r, time_cache_count, m)
           })
      })"

text \<open>The choice of the output function for a file; a static file is opened.\<close>

definition rule_new_open :: "'f zlog_rule \<Rightarrow> 'z os_scheme \<Rightarrow> bool \<times> 'f zlog_rule \<times> 'z os_scheme" where
  "rule_new_open r w =
     (if ru_dynamic_specs r \<noteq> None then
        (True, r\<lparr>ru_output := Some (if ru_archive_max_size r \<le> 0 then DynamicFileSingle else DynamicFileRotate)\<rparr>, w)
      else
        let (fd, w) = os_open (ru_file_path r) w in
        (fd \<ge> 0, r\<lparr>ru_output := Some (if ru_archive_max_size r \<le> 0 then StaticFileSingle else StaticFileRotate), ru_static_fd := fd\<rparr>, w))"

definition rule_new_file ::
  "libc \<Rightarrow> string \<Rightarrow> string option \<Rightarrow> 'f zlog_rule \<Rightarrow> nat \<Rightarrow> 'z os_scheme \<Rightarrow> (bool \<times> 'f zlog_rule \<times> nat \<times> 'z os_scheme) option" where
  "rule_new_file lc p file_limit r time_cache_count w = do {
     (rc, path, specs, time_cache_count, m) \<leftarrow> zlog_rule_parse_path lc p (MAXLEN_PATH + 1) time_cache_count (sy_mem w);
     let r = r\<lparr>ru_file_path := path, ru_dynamic_specs := specs\<rparr>;
     if rc \<noteq> 0 then Some (False, r, time_cache_count, w\<lparr>sy_mem := m\<rparr>)
     else do {
       (ok, r, time_cache_count, m) \<leftarrow> (case file_limit of
           None \<Rightarrow> Some (True, r, time_cache_count, m)
         | Some l \<Rightarrow> rule_new_limit lc l r time_cache_count m);
       let w = w\<lparr>sy_mem := m\<rparr>;
       let (ok, r, w) = (if ok then rule_new_open r w else (False, r, w));
       Some (ok, r, time_cache_count, w)
     }
   }"

definition rule_new_pipe :: "string \<Rightarrow> 'f zlog_rule \<Rightarrow> 'z os_scheme \<Rightarrow> bool \<times> 'f zlog_rule \<times> 'z os_scheme" where
  "rule_new_pipe output r w =
     (case os_popen (drop 1 output) w of
        (None, w) \<Rightarrow> (False, r, w)
      | (Some fd, w) \<Rightarrow>
          let r = r\<lparr>ru_pipe_fp := Some fd, ru_pipe_fd := fd\<rparr> in
          if fd < 0 then (False, r, w) else (True, r\<lparr>ru_output := Some OutPipe\<rparr>, w))"

definition rule_new_std :: "string \<Rightarrow> string option \<Rightarrow> 'f zlog_rule \<Rightarrow> bool \<times> 'f zlog_rule" where
  "rule_new_std file_path file_limit r =
     (let s = drop 1 file_path in
      if strnceq s ''syslog'' 6 then
        let r = r\<lparr>ru_syslog_facility := syslog_facility_atoi file_limit\<rparr> in
        if ru_syslog_facility r = -187 then (False, r) else (True, r\<lparr>ru_output := Some OutSyslog\<rparr>)
      else if strnceq s ''stdout'' 6 then (True, r\<lparr>ru_output := Some OutStdout\<rparr>)
      else if strnceq s ''stderr'' 6 then (True, r\<lparr>ru_output := Some OutStderr\<rparr>)
      else (False, r))"

text \<open>A record name that does not fit its array is undefined.\<close>

definition rule_new_record ::
  "libc \<Rightarrow> string \<Rightarrow> string option \<Rightarrow> 'f zlog_rule \<Rightarrow> nat \<Rightarrow> mem \<Rightarrow> (bool \<times> 'f zlog_rule \<times> nat \<times> mem) option" where
  "rule_new_record lc file_path file_limit r time_cache_count m =
     (let name = val_str (sscanf [ScanStr] (drop 1 file_path)) 0;
          r = r\<lparr>ru_record_name := name\<rparr>;
          quoted = (case file_limit of
              None \<Rightarrow> Some []
            | Some l \<Rightarrow> do {
                p \<leftarrow> strchr l (CHR 0x22);
                q \<leftarrow> strrchr (drop 1 p) (CHR 0x22);
                let len = length (drop 1 p) - length q;
                if len > MAXLEN_PATH then None else Some (take len (drop 1 p))
              })
      in
        if length name > MAXLEN_PATH then None
        else case quoted of
          None \<Rightarrow> Some (False, r, time_cache_count, m)
        | Some s \<Rightarrow> do {
            (rc, blk) \<leftarrow> zc_str_replace_env (lc_getenv lc) (zero_padded s (MAXLEN_PATH + 1)) (MAXLEN_PATH + 1);
            path \<leftarrow> cstr blk 0;
            let r = r\<lparr>ru_record_path := path\<rparr>;
            if rc \<noteq> 0 then Some (False, r, time_cache_count, m)
            else if strchr path (CHR ''%'') = None then Some (True, r\<lparr>ru_output := Some StaticRecord\<rparr>, time_cache_count, m)
            else
              let r = r\<lparr>ru_output := Some DynamicRecord\<rparr> in
              (case zc_arraylist_new True m of
                 (None, m) \<Rightarrow> Some (False, r, time_cache_count, m)
               | (Some specs, m) \<Rightarrow> do {
                   (ok, specs, time_cache_count, m) \<leftarrow> format_specs path specs time_cache_count m;
                   Some (ok, r\<lparr>ru_dynamic_specs := Some specs\<rparr>, time_cache_count, m)
                 })
          })"

text \<open>The switch on the first character of the output.\<close>

definition rule_new_output ::
  "libc \<Rightarrow> string \<Rightarrow> 'f zlog_rule \<Rightarrow> nat \<Rightarrow> 'z os_scheme \<Rightarrow> (bool \<times> 'f zlog_rule \<times> nat \<times> 'z os_scheme) option" where
  "rule_new_output lc output r time_cache_count w =
     (let vs = sscanf [ScanWs, ScanSet (\<lambda>c. c \<noteq> CHR '',''), ScanLit (CHR '','')] output;
          file_path = val_str vs 0;
          file_limit = map_option (\<lambda>l. dropWhile isspace (drop 1 l)) (strchr output (CHR '',''));
          c = at file_path 0
      in
        if nscan vs < 1 then Some (False, r, time_cache_count, w)
        else if c = CHR ''-'' then
          if at file_path 1 \<noteq> CHR 0x22 then Some (False, r, time_cache_count, w)
          else rule_new_file lc (drop 1 file_path) file_limit (r\<lparr>ru_fsync_period := 0, ru_file_open_flags := O_SYNC\<rparr>) time_cache_count w
        else if c = CHR 0x22 then rule_new_file lc file_path file_limit r time_cache_count w
        else if c = CHR ''|'' then let (ok, r, w) = rule_new_pipe output r w in Some (ok, r, time_cache_count, w)
        else if c = CHR ''>'' then let (ok, r) = rule_new_std file_path file_limit r in Some (ok, r, time_cache_count, w)
        else if c = CHR ''$'' then do {
          (ok, r, time_cache_count, m) \<leftarrow> rule_new_record lc file_path file_limit r time_cache_count (sy_mem w);
          Some (ok, r, time_cache_count, w\<lparr>sy_mem := m\<rparr>)
        }
        else Some (False, r, time_cache_count, w))"

definition zero_rule :: "rule_sel \<Rightarrow> nat \<Rightarrow> nat \<Rightarrow> 'f zlog_rule" where
  "zero_rule sel file_perms fsync_period = rule_sel.extend sel
     \<lparr>ru_file_perms = file_perms, ru_file_open_flags = 0, ru_file_path = [], ru_dynamic_specs = None, ru_static_fd = 0,
      ru_archive_max_size = 0, ru_archive_max_count = 0, ru_archive_path = [], ru_archive_specs = None, ru_pipe_fp = None, ru_pipe_fd = 0,
      ru_fsync_period = fsync_period, ru_fsync_count = 0, ru_syslog_facility = 0, ru_format = None, ru_output = None,
      ru_record_name = [], ru_record_path = [], ru_record_func = None\<rparr>"

text \<open>The action behind the selector: the output, and the name of a format.\<close>

definition rule_new_format :: "string \<Rightarrow> zlog_format \<Rightarrow> zlog_format zc_arraylist \<Rightarrow> zlog_format option option" where
  "rule_new_format name default_format formats =
     (if name = [] then Some (Some default_format) else do { ps \<leftarrow> zc_arraylist_foreach formats; find_format name ps })"

definition rule_new_action ::
  "libc \<Rightarrow> string \<Rightarrow> zlog_format \<Rightarrow> zlog_format zc_arraylist \<Rightarrow> 'f zlog_rule \<Rightarrow> nat \<Rightarrow> 'z os_scheme \<Rightarrow>
   (bool \<times> 'f zlog_rule \<times> nat \<times> 'z os_scheme) option" where
  "rule_new_action lc action default_format formats r time_cache_count w =
     (let vs = sscanf [ScanWs, ScanSet (\<lambda>c. c \<noteq> CHR '';''), ScanLit (CHR '';''), ScanStr] action;
          output = val_str vs 0; format_name = val_str vs 1
      in
        if length output > MAXLEN_CFG_LINE \<or> length format_name > MAXLEN_CFG_LINE then None
        else if nscan vs < 1 then Some (False, r, time_cache_count, w)
        else do {
          fmt \<leftarrow> rule_new_format format_name default_format formats;
          (case fmt of
             None \<Rightarrow> Some (False, r, time_cache_count, w)
           | Some f \<Rightarrow> rule_new_output lc output (r\<lparr>ru_format := Some f\<rparr>) time_cache_count w)
        })"

definition zlog_rule_new ::
  "libc \<Rightarrow> string \<Rightarrow> level_list \<Rightarrow> zlog_format \<Rightarrow> zlog_format zc_arraylist \<Rightarrow> nat \<Rightarrow> nat \<Rightarrow> nat \<Rightarrow> 'z os_scheme \<Rightarrow>
   ('f zlog_rule option \<times> nat \<times> 'z os_scheme) option" where
  "zlog_rule_new lc line levels default_format formats file_perms fsync_period time_cache_count w =
     (let (ok, m) = alloc (sy_mem w); w = w\<lparr>sy_mem := m\<rparr> in
      if \<not> ok then Some (None, time_cache_count, w)
      else do {
        sel \<leftarrow> rule_parse_selector levels line;
        (case sel of
           None \<Rightarrow> Some (None, time_cache_count, w)
         | Some (sel, action) \<Rightarrow> do {
             (ok, r, time_cache_count, w) \<leftarrow>
               rule_new_action lc action default_format formats (zero_rule sel file_perms fsync_period) time_cache_count w;
             if ok then Some (Some r, time_cache_count, w)
             else do { w \<leftarrow> zlog_rule_del r w; Some (None, time_cache_count, w) }
           })
      })"

definition zlog_rule_set_record :: "'f zlog_rule \<Rightarrow> (string, 'f zlog_record) zc_hashtable \<Rightarrow> ('f zlog_rule) option" where
  "zlog_rule_set_record r records =
     (if ru_output r \<noteq> Some StaticRecord \<and> ru_output r \<noteq> Some DynamicRecord then Some r
      else do {
        a_record \<leftarrow> zc_hashtable_get records (ru_record_name r);
        Some (case a_record of None \<Rightarrow> r | Some a \<Rightarrow> r\<lparr>ru_record_func := Some (rec_output a)\<rparr>)
      })"

subsection \<open>What reaches a descriptor\<close>

lemma sys_moved_os:
  assumes "sys_moved w w'"
  shows "os_dir w' = os_dir w" and "os_data w' = os_data w" and "os_fd w' = os_fd w" and "os_io w' = os_io w"
    and "os_brk_inode w' = os_brk_inode w" and "os_brk_fd w' = os_brk_fd w" and "os_sync w' = os_sync w" and "os_syslog w' = os_syslog w"
  using arg_cong [OF assms [unfolded sys_moved_def], of os_dir] arg_cong [OF assms [unfolded sys_moved_def], of os_data]
    arg_cong [OF assms [unfolded sys_moved_def], of os_fd] arg_cong [OF assms [unfolded sys_moved_def], of os_io]
    arg_cong [OF assms [unfolded sys_moved_def], of os_brk_inode] arg_cong [OF assms [unfolded sys_moved_def], of os_brk_fd]
    arg_cong [OF assms [unfolded sys_moved_def], of os_sync] arg_cong [OF assms [unfolded sys_moved_def], of os_syslog]
  by simp_all

lemma those_map_Some: "those (map Some xs) = Some xs"
  by (induction xs) simp_all

lemma buf_bytes_text:
  assumes "buf_ready b"
  shows "buf_bytes b = Some (buf_text b)" and "length (buf_text b) = zlog_buf_len b"
proof -
  obtain cells where c: "zb_start b = Some cells" "zb_tail b \<le> length cells" "\<forall>i < zb_tail b. cells ! i \<noteq> None"
    using assms by (auto simp: buf_ready_def split: option.splits)
  have "take (zb_tail b) cells = map Some (map the (take (zb_tail b) cells))"
    using c(2,3) by (intro nth_equalityI) auto
  then show "buf_bytes b = Some (buf_text b)"
    using c(1) those_map_Some [of "map the (take (zb_tail b) cells)"]
    by (simp add: buf_bytes_def zlog_buf_len_def buf_text_def buf_cells_def)
  show "length (buf_text b) = zlog_buf_len b" using c(1,2) by (simp add: buf_text_def buf_cells_def zlog_buf_len_def)
qed

text \<open>The system with one text appended to the file behind a descriptor.\<close>

definition appended :: "'z os_scheme \<Rightarrow> nat \<Rightarrow> string \<Rightarrow> nat \<Rightarrow> string" where
  "appended w i s = (os_data w)(i := os_data w i @ s)"

lemma os_write_cases:
  assumes "os_write fd s w = (n, w')" and "os_fd w fd = Some i"
  shows "os_dir w' = os_dir w" and "os_fd w' = os_fd w" and "os_brk_inode w' = os_brk_inode w" and "os_brk_fd w' = os_brk_fd w"
    and "os_data w' = (if n \<ge> 0 then appended w i s else os_data w)" and "False \<notin> set (os_io w) \<Longrightarrow> n \<ge> 0 \<and> False \<notin> set (os_io w')"
    and "sy_mem w' = sy_mem w"
  using assms by (auto simp: os_write_def io_ok_def appended_def split: list.splits if_splits)

lemma fsync_step_frame:
  assumes "fsync_step r fd w = (r', w')"
  shows "os_dir w' = os_dir w" and "os_fd w' = os_fd w" and "os_data w' = os_data w" and "sy_mem w' = sy_mem w"
    and "os_brk_inode w' = os_brk_inode w" and "os_brk_fd w' = os_brk_fd w" and "\<exists>n. r' = r\<lparr>ru_fsync_count := n\<rparr>"
    and "False \<notin> set (os_io w) \<Longrightarrow> False \<notin> set (os_io w')"
  using assms by (auto simp: fsync_step_def os_fsync_def io_ok_def Let_def split: if_splits list.splits) (metis zlog_rule.surjective zlog_rule.update_convs(13))+

text \<open>Everything a message needs: a well-formed thread, a format with its specifiers, and an event that has what they show.\<close>

definition rule_ready ::
  "libc \<Rightarrow> level_list \<Rightarrow> (nat \<rightharpoonup> string) \<Rightarrow> 'f zlog_rule \<Rightarrow> zlog_spec list \<Rightarrow> zlog_thread \<Rightarrow> 'z sys_scheme \<Rightarrow> bool" where
  "rule_ready lc levels fmts r ss t w \<longleftrightarrow> thread_ok lc fmts t \<and> message_ok levels fmts t w ss \<and>
     (\<exists>f. ru_format r = Some f \<and> al_elems (fm_pattern_specs f) ss)"

definition fits :: "zlog_buf \<Rightarrow> string \<Rightarrow> bool" where
  "fits b s \<longleftrightarrow> zb_size_max b = 0 \<or> length s < zb_size_max b"

lemma rule_gen_msg_writes:
  assumes "rule_ready lc levels fmts r ss t w"
  obtains rc t' w' where "rule_gen_msg lc levels r t w = Some (rc, t', w')" and "thread_moved t w t' w'"
    and "event_ok lc fmts (th_event t')"
    and "rc = 0 \<longrightarrow> buf_ready (th_msg_buf t') \<and> buf_text (th_msg_buf t') = message_text lc levels t w ss \<and> thread_ok lc fmts t'"
    and "False \<notin> set (sy_mem w) \<and> fits (th_msg_buf t) (message_text lc levels t w ss) \<longrightarrow> rc = 0"
proof -
  obtain f where f: "ru_format r = Some f" "al_elems (fm_pattern_specs f) ss" and ok: "thread_ok lc fmts t" "message_ok levels fmts t w ss"
    using assms by (auto simp: rule_ready_def)
  from format_gen_msg_writes [OF ok(1) f(2) ok(2)] obtain rc t' w' where
    "zlog_format_gen_msg lc levels f t w = Some (rc, t', w')" "thread_moved t w t' w'" "event_ok lc fmts (th_event t')"
    "rc = 0 \<longrightarrow> thread_ok lc fmts t'" and m: "message_made (th_msg_buf t) (sy_mem w) (message_text lc levels t w ss) rc (th_msg_buf t')"
    by blast
  then show thesis using that [of rc t' w'] f(1) by (auto simp: rule_gen_msg_def message_made_def fits_def split: if_splits)
qed

lemma output_fd_writes:
  assumes "rule_ready lc levels fmts r ss t w" and "os_fd w fd = Some i"
  shows "\<exists>rc t' w'. output_fd lc levels fd r t w = Some (rc, t', w') \<and> (rc = 0 \<or> rc = -1) \<and> os_dir w' = os_dir w \<and> os_fd w' = os_fd w \<and>
    os_data w' = (if rc = 0 then appended w i (message_text lc levels t w ss) else os_data w) \<and> event_ok lc fmts (th_event t') \<and>
    (False \<notin> set (sy_mem w) \<and> False \<notin> set (os_io w) \<and> fits (th_msg_buf t) (message_text lc levels t w ss) \<longrightarrow> rc = 0)"
proof -
  obtain rc t1 w1 where g: "rule_gen_msg lc levels r t w = Some (rc, t1, w1)" "thread_moved t w t1 w1" "event_ok lc fmts (th_event t1)"
    "rc = 0 \<longrightarrow> buf_ready (th_msg_buf t1) \<and> buf_text (th_msg_buf t1) = message_text lc levels t w ss \<and> thread_ok lc fmts t1"
    "False \<notin> set (sy_mem w) \<and> fits (th_msg_buf t) (message_text lc levels t w ss) \<longrightarrow> rc = 0"
    by (rule rule_gen_msg_writes [OF assms(1)])
  have "sys_moved w w1" using g(2) by (simp add: thread_moved_def)
  note os = sys_moved_os [OF this]
  show ?thesis
  proof (cases "rc = 0")
    case False
    then show ?thesis using g os by (auto simp: output_fd_def)
  next
    case True
    let ?s = "message_text lc levels t w ss"
    obtain n w2 where wr: "os_write fd ?s w1 = (n, w2)" by (cases "os_write fd ?s w1")
    have "write_msg fd t1 w1 = Some (n \<ge> 0, w2)"
      using g(4) True buf_bytes_text [of "th_msg_buf t1"] wr by (simp add: write_msg_def)
    moreover have "os_fd w1 fd = Some i" using os assms(2) by simp
    note c = os_write_cases [OF wr this]
    ultimately show ?thesis using g(1,3) True os c by (auto simp: output_fd_def appended_def)
  qed
qed

text \<open>The descriptor of the outputs that write to one.\<close>

definition direct_fd :: "'f zlog_rule \<Rightarrow> int option" where
  "direct_fd r = (case ru_output r of
     Some StaticFileSingle \<Rightarrow> Some (ru_static_fd r) | Some OutPipe \<Rightarrow> Some (ru_pipe_fd r) | Some OutStdout \<Rightarrow> Some 1 | Some OutStderr \<Rightarrow> Some 2
   | _ \<Rightarrow> None)"

text \<open>Inodes and descriptors that have not been given out yet are empty; the inode an \<open>open\<close> of a path leads to.\<close>

definition os_fresh :: "'z os_scheme \<Rightarrow> bool" where
  "os_fresh w \<longleftrightarrow> (\<forall>j \<ge> os_brk_inode w. os_data w j = []) \<and> (\<forall>n \<ge> os_brk_fd w. os_fd w (int n) = None)"

definition path_inode :: "'z os_scheme \<Rightarrow> string \<Rightarrow> nat" where
  "path_inode w path = (case view w path of Some i \<Rightarrow> i | None \<Rightarrow> os_brk_inode w)"

lemma os_open_cases:
  assumes "os_open path w = (fd, w')" and "os_fresh w"
  shows "os_data w' = os_data w" and "fd \<ge> 0 \<Longrightarrow> os_fd w' = (os_fd w)(fd \<mapsto> path_inode w path) \<and> os_fd w fd = None"
    and "fd < 0 \<Longrightarrow> os_fd w' = os_fd w"
proof -
  obtain ok w1 where k: "io_ok w = (ok, w1)" by (cases "io_ok w")
  then have w1: "os_data w1 = os_data w" "os_fd w1 = os_fd w" "os_dir w1 = os_dir w" "os_brk_inode w1 = os_brk_inode w" "os_brk_fd w1 = os_brk_fd w"
    by (auto simp: io_ok_def split: list.splits)
  have z: "(os_data w)(os_brk_inode w := []) = os_data w" using assms(2) by (auto simp: os_fresh_def)
  have n: "os_fd w (int (os_brk_fd w)) = None" using assms(2) by (simp add: os_fresh_def)
  have u: "os_data w' = os_data (snd (os_open path w))" "os_fd w' = os_fd (snd (os_open path w))" "fd = fst (os_open path w)"
    using assms(1) by simp_all
  have "os_data w' = os_data w \<and> (if ok then fd = int (os_brk_fd w) \<and> os_fd w' = (os_fd w)(fd \<mapsto> path_inode w path) else fd = -1 \<and> os_fd w' = os_fd w)"
    unfolding u by (cases ok; cases "view w path") (simp_all add: os_open_def path_inode_def k w1 z Let_def)
  then show "os_data w' = os_data w" and "fd \<ge> 0 \<Longrightarrow> os_fd w' = (os_fd w)(fd \<mapsto> path_inode w path) \<and> os_fd w fd = None" and "fd < 0 \<Longrightarrow> os_fd w' = os_fd w"
    using n by (simp_all split: if_splits)
qed

lemma os_close_frame:
  assumes "os_close fd w = (rc, w')"
  shows "os_data w' = os_data w" and "os_fd w' = (os_fd w)(fd := None)"
  using assms by (auto simp: os_close_def io_ok_def split: if_splits list.splits)

lemma open_write_close_cases:
  assumes "open_write_close path r t w = Some (ok, r', w')" and "buf_ready (th_msg_buf t)" and "os_fresh w"
  shows "os_fd w' = os_fd w" and "\<exists>n. r' = r\<lparr>ru_fsync_count := n\<rparr>"
    and "os_data w' = appended w (path_inode w path) (buf_text (th_msg_buf t)) \<or> \<not> ok \<and> os_data w' = os_data w"
proof -
  let ?s = "buf_text (th_msg_buf t)"
  have keep: "\<exists>n. r = r\<lparr>ru_fsync_count := n\<rparr>" by (rule exI [of _ "ru_fsync_count r"]) simp
  obtain fd w1 where o: "os_open path w = (fd, w1)" by (cases "os_open path w")
  note oc = os_open_cases [OF o assms(3)]
  have "os_fd w' = os_fd w \<and> (\<exists>n. r' = r\<lparr>ru_fsync_count := n\<rparr>) \<and>
    (os_data w' = appended w (path_inode w path) ?s \<or> \<not> ok \<and> os_data w' = os_data w)"
  proof (cases "fd < 0")
    case True
    then have "r' = r" "w' = w1" "\<not> ok" using assms(1) o by (simp_all add: open_write_close_def)
    then show ?thesis using oc(1,3) True keep by metis
  next
    case False
    obtain n w2 where wr: "os_write fd ?s w1 = (n, w2)" by (cases "os_write fd ?s w1")
    have f: "os_fd w1 fd = Some (path_inode w path)" "(os_fd w1)(fd := None) = os_fd w" using oc(2) False by auto
    note wc = os_write_cases [OF wr f(1)]
    have m: "write_msg fd t w1 = Some (n \<ge> 0, w2)" using wr buf_bytes_text [OF assms(2)] by (simp add: write_msg_def)
    obtain r3 w3 where s: "fsync_step r fd w2 = (r3, w3)" by (cases "fsync_step r fd w2")
    obtain rc w4 where c: "os_close fd w3 = (rc, w4)" by (cases "os_close fd w3")
    obtain rc' w5 where c': "os_close fd w2 = (rc', w5)" by (cases "os_close fd w2")
    note fs = fsync_step_frame [OF s] and cc = os_close_frame [OF c] and cc' = os_close_frame [OF c']
    show ?thesis
    proof (cases "n \<ge> 0")
      case True
      then have "r' = r3" "w' = w4" using assms(1) o False m s c by (simp_all add: open_write_close_def)
      then show ?thesis using fs cc wc True f oc(1) by (auto simp: appended_def)
    next
      case n: False
      then have "r' = r" "w' = w5" "\<not> ok" using assms(1) o False m c' by (simp_all add: open_write_close_def)
      moreover have "os_fd w5 = os_fd w" "os_data w5 = os_data w" using cc' wc n f oc(1) by simp_all
      ultimately show ?thesis using keep by metis
    qed
  qed
  then show "os_fd w' = os_fd w" and "\<exists>n. r' = r\<lparr>ru_fsync_count := n\<rparr>"
    and "os_data w' = appended w (path_inode w path) ?s \<or> \<not> ok \<and> os_data w' = os_data w" by auto
qed

lemma rotate_step_frame:
  assumes "rotate_step lc levels path r ro t w = Some (rc, ro', t', w')" and "rotater_idle ro" and "ru_archive_specs r = None"
  shows "ro' = ro \<and> same_contents w w'"
proof -
  obtain info w1 where s: "os_stat path w = (info, w1)" by (cases "os_stat path w")
  note c = dir_ops_same(4) [OF s]
  show ?thesis using assms s c
    by (auto simp: rotate_step_def zlog_rule_gen_archive_path_def Let_def split: if_splits option.splits Option.bind_splits
        dest!: rotate_frame dest: same_contents_trans)
qed

subsection \<open>Properties\<close>



text \<open>A system with the log file \<open>aa\<close> open as descriptor 3, an event for it, and rules that log everything to it.\<close>

definition sample_log_os :: os where
  "sample_log_os = (sample_os [(''aa.0'', 2), (''aa'', 50)])\<lparr>sy_clock := \<lambda>n. (1000, 42), sy_pid := 77, os_fd := [3 \<mapsto> 50],
     os_data := \<lambda>i. if i < 100 then ''old'' else []\<rparr>"

definition sample_rule :: "output_fn \<Rightarrow> unit zlog_rule" where
  "sample_rule f = (zero_rule \<lparr>ru_category = ''*'', ru_compare_char = CHR ''*'', ru_level = -1, ru_level_bitmap = replicate 32 0xFF\<rparr> 384 1)
     \<lparr>ru_file_path := ''aa'', ru_static_fd := 3, ru_format := Some sample_format, ru_output := Some f, ru_archive_max_size := 12\<rparr>"

definition no_call :: "unit \<Rightarrow> zlog_msg \<Rightarrow> os \<Rightarrow> int \<times> os" where
  "no_call _ msg w = (0, w)"

lemma sample_ready: "rule_ready sample_libc fresh_levels [0 \<mapsto> ''%F''] (sample_rule f) sample_specs sample_event_thread sample_log_os"
proof -
  have "event_time e sample_log_os = event_time e sample_sys" for e
    by (simp add: event_time_def sample_log_os_def sample_os_def sample_sys_def)
  then have "message_ok fresh_levels [0 \<mapsto> ''%F''] sample_event_thread sample_log_os sample_specs"
    using sample_message_ok by (simp add: message_ok_def)
  moreover have "al_elems (fm_pattern_specs sample_format) sample_specs"
    by (simp add: sample_format_def al_elems_def al_rep_def sample_specs_def)
  ultimately show ?thesis using sample_message_ok by (simp add: rule_ready_def sample_rule_def zero_rule_def rule_sel.defs)
qed

lemma sample_text: "message_text sample_libc fresh_levels sample_event_thread sample_log_os sample_specs = ''%F hello''"
  by (simp add: message_text_def sample_specs_def spec_text_def raw_text_def zero_spec_def event_time_def sample_log_os_def sample_os_def
      sample_event_thread_def zlog_event_set_fmt_def strftime_def sample_libc_def MAXLEN_CFG_LINE_def usrmsg_text_def)

lemma sample_fits: "fits (th_msg_buf sample_event_thread) ''%F hello''"
  by (simp add: fits_def sample_event_thread_def sample_thread_def zlog_thread_new_def zlog_mdc_new_def zc_hashtable_new_def
      zlog_event_new_def sample_libc_def thread_bufs_def zlog_buf_new_def MAXLEN_PATH_def truncate_mark_def Let_def)


text \<open>The rotation that the message of the sample event starts.\<close>

lemma sample_rotation:
  "map_option fst (zlog_rotater_rotate sample_rotater ''aa'' 8 (Some []) 12 0
     (sample_log_os\<lparr>sy_ticks := n, os_brk_fd := 5, os_data := d(50 := ''old%F hello''), os_fd := x, os_sync := [4, 3]\<rparr>)) = Some 0"
  by code_simp
lemma sample_gen_msg:
  obtains t n where "rule_gen_msg sample_libc fresh_levels (sample_rule f) sample_event_thread sample_log_os = Some (0, t, sample_log_os\<lparr>sy_ticks := n\<rparr>)"
    and "buf_bytes (th_msg_buf t) = Some ''%F hello''" and "zlog_buf_len (th_msg_buf t) = 8"
proof -
  obtain rc t w where g: "rule_gen_msg sample_libc fresh_levels (sample_rule f) sample_event_thread sample_log_os = Some (rc, t, w)"
    "thread_moved sample_event_thread sample_log_os t w"
    "rc = 0 \<longrightarrow> buf_ready (th_msg_buf t) \<and> buf_text (th_msg_buf t) = message_text sample_libc fresh_levels sample_event_thread sample_log_os sample_specs \<and>
       thread_ok sample_libc [0 \<mapsto> ''%F''] t"
    "False \<notin> set (sy_mem sample_log_os) \<and> fits (th_msg_buf sample_event_thread)
       (message_text sample_libc fresh_levels sample_event_thread sample_log_os sample_specs) \<longrightarrow> rc = 0"
    by (rule rule_gen_msg_writes [OF sample_ready])
  have m: "sy_mem sample_log_os = []" by (simp add: sample_log_os_def sample_os_def)
  have rc: "rc = 0" using g(4) sample_fits by (simp add: m sample_text)
  have "sys_moved sample_log_os w" "sy_mem w = []" using g(2) m by (auto simp: thread_moved_def)
  then have "w = sample_log_os\<lparr>sy_ticks := sy_ticks w\<rparr>" using m unfolding sys_moved_def by (metis sys.surjective sys.update_convs(1,3))
  then show thesis using that [of t "sy_ticks w"] g(1,3) rc buf_bytes_text [of "th_msg_buf t"] by (simp add: sample_text)
qed


subsection \<open>What the parser of a rule makes\<close>

text \<open>A rule that can be run: it has a format and an output function, and what that function uses is there.\<close>

definition rule_made :: "'f zlog_rule \<Rightarrow> 'z os_scheme \<Rightarrow> bool" where
  "rule_made r w \<longleftrightarrow> ru_format r \<noteq> None \<and> (case ru_output r of
       None \<Rightarrow> False
     | Some f \<Rightarrow>
         (f \<in> {DynamicFileSingle, DynamicFileRotate, DynamicRecord} \<longrightarrow> ru_dynamic_specs r \<noteq> None) \<and>
         (f \<in> {StaticFileSingle, StaticFileRotate} \<longrightarrow>
            (\<exists>i. os_fd w (ru_static_fd r) = Some i \<and> view w (ru_file_path r) = Some i)) \<and>
         (f = OutPipe \<longrightarrow> os_fd w (ru_pipe_fd r) \<noteq> None \<and> ru_pipe_fp r = Some (ru_pipe_fd r)) \<and>
         (f \<in> {StaticFileRotate, DynamicFileRotate} \<longrightarrow> ru_archive_max_size r > 0))"

text \<open>A rule under construction that holds no descriptor.\<close>

definition no_fd :: "'f zlog_rule \<Rightarrow> bool" where
  "no_fd r \<longleftrightarrow> ru_static_fd r = 0 \<and> ru_pipe_fp r = None"

lemma rule_del_no_fd: "zlog_rule_del r w = Some w' \<Longrightarrow> no_fd r \<Longrightarrow> w' = w"
  by (auto simp: zlog_rule_del_def no_fd_def Let_def split: Option.bind_splits)

lemma os_close_none: "os_fd w fd = None \<Longrightarrow> os_fd (snd (os_close fd w)) = os_fd w"
  by (auto simp: os_close_def io_ok_def split: list.splits)

lemma rule_del_unopened:
  "zlog_rule_del r w = Some w' \<Longrightarrow> ru_static_fd r = -1 \<Longrightarrow> ru_pipe_fp r = None \<Longrightarrow> os_fd w (-1) = None \<Longrightarrow> os_fd w' = os_fd w"
  using os_close_none [of w "-1"] by (auto simp: zlog_rule_del_def Let_def split: Option.bind_splits)

lemma rule_new_limit_keeps:
  "rule_new_limit lc l r cnt m = Some (ok, r', cnt', m') \<Longrightarrow>
     ru_format r' = ru_format r \<and> ru_dynamic_specs r' = ru_dynamic_specs r \<and> (no_fd r' \<longleftrightarrow> no_fd r) \<and> ru_file_path r' = ru_file_path r"
  by (auto simp: rule_new_limit_def Let_def no_fd_def split: Option.bind_splits option.splits if_splits)

lemma os_open_result:
  assumes "os_open path w = (fd, w')"
  shows "if fd < 0 then fd = -1 \<and> os_fd w' = os_fd w else \<exists>i. os_fd w' fd = Some i \<and> view w' path = Some i"
proof -
  obtain ok w1 where k: "io_ok w = (ok, w1)" by (cases "io_ok w")
  then have w1: "os_fd w1 = os_fd w" "os_dir w1 = os_dir w" by (auto simp: io_ok_def split: list.splits)
  have u: "w' = snd (os_open path w)" "fd = fst (os_open path w)" using assms by simp_all
  show ?thesis unfolding u
    by (cases ok; cases "view w path") (simp_all add: os_open_def k w1 Let_def map_add_def split: option.splits)
qed

lemma rule_new_open_result:
  assumes "rule_new_open r w = (ok, r', w')" and "no_fd r" and "ru_format r \<noteq> None"
  shows "if ok then rule_made r' w' else os_fd w' = os_fd w \<and> (no_fd r' \<or> ru_static_fd r' = -1 \<and> ru_pipe_fp r' = None)"
proof -
  obtain fd w1 where o: "os_open (ru_file_path r) w = (fd, w1)" by (cases "os_open (ru_file_path r) w")
  show ?thesis using assms o os_open_result [OF o]
    by (auto simp: rule_new_open_def rule_made_def no_fd_def split: if_splits)
qed

lemma rule_new_file_result:
  assumes "rule_new_file lc p l r cnt w = Some (ok, r', cnt', w')" and "no_fd r" and "ru_format r \<noteq> None"
  shows "if ok then rule_made r' w' else os_fd w' = os_fd w \<and> (no_fd r' \<or> ru_static_fd r' = -1 \<and> ru_pipe_fp r' = None)"
proof -
  obtain rc path specs cnt1 m where p: "zlog_rule_parse_path lc p (MAXLEN_PATH + 1) cnt (sy_mem w) = Some (rc, path, specs, cnt1, m)"
    using assms(1) by (auto simp: rule_new_file_def split: Option.bind_splits)
  let ?r = "r\<lparr>ru_file_path := path, ru_dynamic_specs := specs\<rparr>"
  show ?thesis
  proof (cases "rc = 0")
    case False
    then show ?thesis using assms p by (auto simp: rule_new_file_def no_fd_def)
  next
    case True
    let ?x = "case l of None \<Rightarrow> Some (True, ?r, cnt1, m) | Some l \<Rightarrow> rule_new_limit lc l ?r cnt1 m"
    obtain ok1 r1 cnt2 m1 where l: "?x = Some (ok1, r1, cnt2, m1)"
      using assms(1) p True by (cases ?x) (auto simp: rule_new_file_def)
    have r1: "ru_format r1 \<noteq> None" "no_fd r1"
      using l assms(2,3) by (auto simp: no_fd_def split: option.splits dest!: rule_new_limit_keeps)
    obtain ok2 r2 w2 where o: "rule_new_open r1 (w\<lparr>sy_mem := m1\<rparr>) = (ok2, r2, w2)" by (cases "rule_new_open r1 (w\<lparr>sy_mem := m1\<rparr>)")
    note c = rule_new_open_result [OF o r1(2,1)]
    show ?thesis
    proof (cases ok1)
      case T: True
      then have "ok = ok2" "r' = r2" "w' = w2" using assms(1) p True l o by (simp_all add: rule_new_file_def)
      then show ?thesis using c by simp
    next
      case False
      then have "\<not> ok" "r' = r1" "w' = w\<lparr>sy_mem := m1\<rparr>" using assms(1) p True l by (simp_all add: rule_new_file_def)
      then show ?thesis using r1 by simp
    qed
  qed
qed

lemma rule_new_record_result:
  assumes "rule_new_record lc p l r cnt m = Some (ok, r', cnt', m')" and "no_fd r" and "ru_format r \<noteq> None"
  shows "no_fd r' \<and> (ok \<longrightarrow> rule_made r' w)"
  using assms by (auto simp: rule_new_record_def Let_def no_fd_def rule_made_def split: Option.bind_splits option.splits if_splits prod.splits)

lemma rule_new_pipe_result:
  assumes "rule_new_pipe output r w = (ok, r', w')" and "no_fd r" and "ru_format r \<noteq> None"
  shows "if ok then rule_made r' w' else no_fd r' \<and> os_fd w' = os_fd w"
  using assms by (auto simp: rule_new_pipe_def os_popen_def io_ok_def Let_def no_fd_def rule_made_def split: prod.splits option.splits if_splits list.splits)

lemma rule_new_std_result:
  assumes "rule_new_std p l r = (ok, r')" and "no_fd r" and "ru_format r \<noteq> None"
  shows "no_fd r' \<and> (ok \<longrightarrow> rule_made r' w)"
  using assms by (auto simp: rule_new_std_def Let_def no_fd_def rule_made_def split: if_splits)

lemma rule_new_output_result:
  assumes "rule_new_output lc out r cnt w = Some (ok, r', cnt', w')" and "no_fd r" and "ru_format r \<noteq> None"
  shows "if ok then rule_made r' w' else os_fd w' = os_fd w \<and> (no_fd r' \<or> ru_static_fd r' = -1 \<and> ru_pipe_fp r' = None)"
proof -
  have f: "no_fd (r\<lparr>ru_fsync_period := a, ru_file_open_flags := b\<rparr>)" "ru_format (r\<lparr>ru_fsync_period := a, ru_file_open_flags := b\<rparr>) \<noteq> None" for a b
    using assms(2,3) by (simp_all add: no_fd_def)
  show ?thesis
    using assms unfolding rule_new_output_def Let_def
    by (auto split: if_splits prod.splits Option.bind_splits
        dest: rule_new_file_result [OF _ f] rule_new_file_result rule_new_pipe_result rule_new_std_result rule_new_record_result)
qed

lemma rule_new_action_result:
  assumes "rule_new_action lc action d fs r cnt w = Some (ok, r', cnt', w')" and "no_fd r"
  shows "if ok then rule_made r' w' else os_fd w' = os_fd w \<and> (no_fd r' \<or> ru_static_fd r' = -1 \<and> ru_pipe_fp r' = None)"
proof -
  have f: "no_fd (r\<lparr>ru_format := Some f\<rparr>)" "ru_format (r\<lparr>ru_format := Some f\<rparr>) \<noteq> None" for f
    using assms(2) by (simp_all add: no_fd_def)
  show ?thesis
    using assms unfolding rule_new_action_def Let_def
    by (auto split: if_splits option.splits Option.bind_splits dest: rule_new_output_result [OF _ f])
qed

text \<open>The selector of a rule is set once, when its line is parsed.\<close>

definition sel_of :: "'z rule_sel_scheme \<Rightarrow> string \<times> char \<times> int \<times> 8 word list" where
  "sel_of r = (ru_category r, ru_compare_char r, ru_level r, ru_level_bitmap r)"

lemma sel_ok_cong: "sel_of r' = sel_of r \<Longrightarrow> sel_ok r' = sel_ok r"
  by (simp add: sel_of_def sel_ok_def rule_passes_def)

lemma rule_new_limit_sel: "rule_new_limit lc l r cnt m = Some (ok, r', cnt', m') \<Longrightarrow> sel_of r' = sel_of r"
  by (auto simp: rule_new_limit_def sel_of_def Let_def split: Option.bind_splits option.splits if_splits)

lemma rule_new_open_sel: "rule_new_open r w = (ok, r', w') \<Longrightarrow> sel_of r' = sel_of r"
  by (auto simp: rule_new_open_def sel_of_def split: prod.splits if_splits)

lemma rule_new_pipe_sel: "rule_new_pipe out r w = (ok, r', w') \<Longrightarrow> sel_of r' = sel_of r"
  by (auto simp: rule_new_pipe_def sel_of_def Let_def split: prod.splits option.splits if_splits)

lemma rule_new_std_sel: "rule_new_std p fl r = (ok, r') \<Longrightarrow> sel_of r' = sel_of r"
  by (auto simp: rule_new_std_def sel_of_def Let_def split: if_splits)

lemma rule_new_record_sel: "rule_new_record lc p fl r cnt m = Some (ok, r', cnt', m') \<Longrightarrow> sel_of r' = sel_of r"
  by (auto simp: rule_new_record_def Let_def sel_of_def split: Option.bind_splits option.splits if_splits prod.splits)

lemma rule_new_file_sel:
  assumes "rule_new_file lc p l r cnt w = Some (ok, r', cnt', w')"
  shows "sel_of r' = sel_of r"
proof -
  obtain rc path specs cnt1 m where p: "zlog_rule_parse_path lc p (MAXLEN_PATH + 1) cnt (sy_mem w) = Some (rc, path, specs, cnt1, m)"
    using assms by (auto simp: rule_new_file_def split: Option.bind_splits)
  let ?r = "r\<lparr>ru_file_path := path, ru_dynamic_specs := specs\<rparr>"
  have r: "sel_of ?r = sel_of r" by (simp add: sel_of_def)
  show ?thesis
  proof (cases "rc = 0")
    case False
    then show ?thesis using assms p r by (auto simp: rule_new_file_def)
  next
    case True
    let ?x = "case l of None \<Rightarrow> Some (True, ?r, cnt1, m) | Some l \<Rightarrow> rule_new_limit lc l ?r cnt1 m"
    obtain ok1 r1 cnt2 m1 where l: "?x = Some (ok1, r1, cnt2, m1)"
      using assms p True by (cases ?x) (auto simp: rule_new_file_def)
    have "sel_of r1 = sel_of ?r" using l by (auto split: option.splits dest: rule_new_limit_sel)
    moreover obtain ok2 r2 w2 where o: "rule_new_open r1 (w\<lparr>sy_mem := m1\<rparr>) = (ok2, r2, w2)" by (cases "rule_new_open r1 (w\<lparr>sy_mem := m1\<rparr>)")
    moreover have "r' = r1 \<or> r' = r2" using assms p True l o by (auto simp: rule_new_file_def Let_def split: if_splits)
    ultimately show ?thesis using r rule_new_open_sel [OF o] by auto
  qed
qed

lemma rule_new_output_sel: "rule_new_output lc out r cnt w = Some (ok, r', cnt', w') \<Longrightarrow> sel_of r' = sel_of r"
  unfolding rule_new_output_def Let_def
  by (auto split: if_splits prod.splits Option.bind_splits
      dest: rule_new_file_sel rule_new_pipe_sel rule_new_std_sel rule_new_record_sel) (auto simp: sel_of_def dest!: rule_new_file_sel)

lemma rule_new_action_sel: "rule_new_action lc action d fs r cnt w = Some (ok, r', cnt', w') \<Longrightarrow> sel_of r' = sel_of r"
  unfolding rule_new_action_def Let_def
  by (auto simp: sel_of_def split: if_splits option.splits Option.bind_splits dest!: rule_new_output_sel)

lemma zlog_rule_new_sel:
  assumes "zlog_rule_new lc line levels df formats perms period cnt w = Some (Some r, cnt', w')" and "level_list_ok levels" and "length line \<le> MAXLEN_CFG_LINE"
  shows "sel_ok r"
proof -
  obtain m where "alloc (sy_mem w) = (True, m)"
    using assms(1) by (cases "alloc (sy_mem w)") (auto simp: zlog_rule_new_def Let_def split: if_splits)
  then obtain sel action w1 where p: "rule_parse_selector levels line = Some (Some (sel, action))"
    and a: "rule_new_action lc action df formats (zero_rule sel perms period) cnt (w\<lparr>sy_mem := m\<rparr>) = Some (True, r, cnt', w1)"
    using assms(1) by (auto simp: zlog_rule_new_def Let_def split: if_splits Option.bind_splits option.splits)
  have "sel_ok sel" using parse_selector_ok [OF assms(2,3)] p by auto
  moreover have "sel_of r = sel_of sel" using rule_new_action_sel [OF a] by (simp add: sel_of_def zero_rule_def rule_sel.defs)
  ultimately show ?thesis using sel_ok_cong by blast
qed

lemma set_record_sel: "zlog_rule_set_record r records = Some r' \<Longrightarrow> sel_of r' = sel_of r"
  by (auto simp: zlog_rule_set_record_def sel_of_def bind_eq_Some_conv split: if_splits option.splits)

lemma fsync_step_sel: "sel_of (fst (fsync_step r fd w)) = sel_of r"
  by (auto simp: fsync_step_def sel_of_def Let_def split: if_splits)

lemma open_write_close_sel: "open_write_close path r t w = Some (ok, r', w') \<Longrightarrow> sel_of r' = sel_of r"
  by (auto simp: open_write_close_def Let_def split_beta bind_eq_Some_conv fsync_step_sel split: if_splits)

lemma output_files_sel:
  "zlog_rule_output_static_file_single lc levels r t w = Some (rc, r', t', w') \<Longrightarrow> sel_of r' = sel_of r"
  "zlog_rule_output_static_file_rotate lc levels r ro t w = Some (rc, r', ro', t', w') \<Longrightarrow> sel_of r' = sel_of r"
  "zlog_rule_output_dynamic_file_single lc levels r t w = Some (rc, r', t', w') \<Longrightarrow> sel_of r' = sel_of r"
  "zlog_rule_output_dynamic_file_rotate lc levels r ro t w = Some (rc, r', ro', t', w') \<Longrightarrow> sel_of r' = sel_of r"
  by (auto simp: zlog_rule_output_static_file_single_def zlog_rule_output_static_file_rotate_def zlog_rule_output_dynamic_file_single_def
      zlog_rule_output_dynamic_file_rotate_def Let_def split_beta bind_eq_Some_conv fsync_step_sel split: if_splits dest!: open_write_close_sel)

lemma run_output_sel: "run_output call lc levels r ro t w = Some (rc, r', ro', t', w') \<Longrightarrow> sel_of r' = sel_of r"
  by (cases "the (ru_output r)") (auto simp: run_output_def bind_eq_Some_conv dest: output_files_sel)

lemma rule_output_sel: "zlog_rule_output call lc levels r ro t w = Some (rc, r', ro', t', w') \<Longrightarrow> sel_of r' = sel_of r"
  by (auto simp: zlog_rule_output_def dest: run_output_sel split: if_splits)


text \<open>Lists without elements, for lines that name no level and no format.\<close>

definition empty_list :: "'a zc_arraylist" where
  "empty_list = \<lparr>al_array = Some [None], al_len = 0, al_size = 1, al_del = True\<rparr>"


text \<open>a rule whose archive path has no \<open>#\<close> makes \<open>zlog_rule_new\<close> search through a null pointer: the test that should report the error
applies \<open>strchr\<close> to the result of the search that has just failed.\<close>

theorem zlog_rule_new_archive_without_mark:
  "(zlog_rule_new sample_libc ''*.* \"bb\", 1 ~ \"cc\"'' empty_list sample_format empty_list 384 0 0 sample_log_os :: (unit zlog_rule option \<times> nat \<times> os) option) = None"
  by code_simp

end
