(* ===== verification/Zlog_Conf.thy ===== *)
theory Zlog_Conf
  imports Zlog_Rule
begin

text \<open>
  The configuration (\<^verbatim>\<open>conf.c\<close>): the settings, levels, formats and rules that a configuration file describes, or the default
  ones. Rules are shared with the categories, so they live in a store of their own and a configuration holds their addresses. The
  field \<open>mtime\<close>, which is only printed, is left out.
\<close>

record 'f rule_store =
  rs_map :: "nat \<rightharpoonup> 'f zlog_rule"
  rs_brk :: nat

record zlog_conf =
  co_file :: string
  co_strict_init :: bool
  co_buf_size_min :: nat
  co_buf_size_max :: nat
  co_rotate_lock_file :: string
  co_rotater :: "zlog_rotater option"
  co_default_format_line :: string
  co_default_format :: "zlog_format option"
  co_file_perms :: nat
  co_fsync_period :: nat
  co_reload_conf_period :: nat
  co_levels :: "level_list option"
  co_formats :: "zlog_format zc_arraylist option"
  co_rules :: "nat zc_arraylist option"
  co_time_cache_count :: nat

definition ZLOG_CONF_DEFAULT_FORMAT :: string where
  "ZLOG_CONF_DEFAULT_FORMAT = ''default = '' @ [CHR 0x22] @ ''%D %V [%p:%F:%L] %m%n'' @ [CHR 0x22]"

definition ZLOG_CONF_DEFAULT_RULE :: string where
  "ZLOG_CONF_DEFAULT_RULE = ''*.*        >stdout''"

definition ZLOG_CONF_DEFAULT_BUF_SIZE_MIN :: nat where "ZLOG_CONF_DEFAULT_BUF_SIZE_MIN = 1024"

definition ZLOG_CONF_DEFAULT_BUF_SIZE_MAX :: nat where "ZLOG_CONF_DEFAULT_BUF_SIZE_MAX = 2 * 1024 * 1024"

definition ZLOG_CONF_DEFAULT_FILE_PERMS :: nat where "ZLOG_CONF_DEFAULT_FILE_PERMS = 384"

definition ZLOG_CONF_DEFAULT_RELOAD_CONF_PERIOD :: nat where "ZLOG_CONF_DEFAULT_RELOAD_CONF_PERIOD = 0"

definition ZLOG_CONF_DEFAULT_FSYNC_PERIOD :: nat where "ZLOG_CONF_DEFAULT_FSYNC_PERIOD = 0"

definition ZLOG_CONF_BACKUP_ROTATE_LOCK_FILE :: string where "ZLOG_CONF_BACKUP_ROTATE_LOCK_FILE = ''/tmp/zlog.lock''"

subsection \<open>Deleting\<close>

text \<open>The elements that the list of rules, or of formats, gives to its \<open>del\<close> function.\<close>

fun del_rule_list :: "nat list \<Rightarrow> 'f rule_store \<Rightarrow> 'z os_scheme \<Rightarrow> ('f rule_store \<times> 'z os_scheme) option" where
  "del_rule_list [] st w = Some (st, w)"
| "del_rule_list (a # as) st w = do {
     r \<leftarrow> rs_map st a;
     w \<leftarrow> zlog_rule_del r w;
     del_rule_list as (st\<lparr>rs_map := (rs_map st)(a := None)\<rparr>) w
   }"

fun del_format_list :: "zlog_format list \<Rightarrow> unit option" where
  "del_format_list [] = Some ()"
| "del_format_list (f # fs) = do { _ \<leftarrow> zlog_format_del f; del_format_list fs }"

definition zlog_conf_del :: "zlog_conf \<Rightarrow> 'f rule_store \<Rightarrow> 'z os_scheme \<Rightarrow> ('f rule_store \<times> 'z os_scheme) option" where
  "zlog_conf_del conf st w = do {
     let w = (case co_rotater conf of None \<Rightarrow> w | Some ro \<Rightarrow> zlog_rotater_del ro w);
     _ \<leftarrow> zlog_level_list_del (co_levels conf);
     _ \<leftarrow> (case co_default_format conf of None \<Rightarrow> Some [] | Some f \<Rightarrow> zlog_format_del f);
     _ \<leftarrow> (case co_formats conf of None \<Rightarrow> Some () | Some l \<Rightarrow> do { fs \<leftarrow> zc_arraylist_del (Some l); del_format_list fs });
     (case co_rules conf of
        None \<Rightarrow> Some (st, w)
      | Some l \<Rightarrow> do { as \<leftarrow> zc_arraylist_del (Some l); del_rule_list as st w })
   }"

subsection \<open>Lines\<close>

text \<open>A rule of the configuration: made, and added to the list; an address of the store stands for the block of the rule.\<close>

definition conf_add_rule ::
  "libc \<Rightarrow> zlog_conf \<Rightarrow> string \<Rightarrow> 'f rule_store \<Rightarrow> 'z os_scheme \<Rightarrow> (bool \<times> int \<times> zlog_conf \<times> 'f rule_store \<times> 'z os_scheme) option" where
  "conf_add_rule lc conf line st w = do {
     levels \<leftarrow> co_levels conf;
     formats \<leftarrow> co_formats conf;
     rules \<leftarrow> co_rules conf;
     (case co_default_format conf of
        None \<Rightarrow> Some (False, 0, conf, st, w)
      | Some f \<Rightarrow> do {
          (r, cnt, w) \<leftarrow> zlog_rule_new lc line levels f formats (co_file_perms conf) (co_fsync_period conf) (co_time_cache_count conf) w;
          let conf = conf\<lparr>co_time_cache_count := cnt\<rparr>;
          (case r of
             None \<Rightarrow> Some (False, 0, conf, st, w)
           | Some r \<Rightarrow> do {
               let a = rs_brk st;
               (rc, _, rules, m) \<leftarrow> zc_arraylist_add rules (Some a) (sy_mem w);
               let w = w\<lparr>sy_mem := m\<rparr>;
               let conf = conf\<lparr>co_rules := Some rules\<rparr>;
               if rc \<noteq> 0 then do { w \<leftarrow> zlog_rule_del r w; Some (True, -1, conf, st, w) }
               else Some (True, 0, conf, st\<lparr>rs_map := (rs_map st)(a \<mapsto> r), rs_brk := a + 1\<rparr>, w)
             })
        })
   }"

text \<open>A line \<open>[section]\<close>. The array \<open>name\<close> is read also when nothing was stored in it, which is undefined.\<close>

definition conf_section ::
  "libc \<Rightarrow> zlog_conf \<Rightarrow> string \<Rightarrow> nat \<Rightarrow> 'z os_scheme \<Rightarrow> (int \<times> zlog_conf \<times> nat \<times> 'z os_scheme) option" where
  "conf_section lc conf line section w =
     (let vs = sscanf [ScanLit (CHR ''[''), ScanWs, ScanSet (\<lambda>c. c \<noteq> CHR '']'' \<and> c \<noteq> CHR '' '' \<and> c \<noteq> CHR 0x09)] line;
          name = val_str vs 0;
          new = (if name = ''global'' then 1 else if name = ''levels'' then 2 else if name = ''formats'' then 3 else if name = ''rules'' then 4 else 0)
      in
        if nscan vs = 0 then None
        else if new = 0 then Some (-1, conf, section, w)
        else if section \<ge> new then Some (-1, conf, new, w)
        else if new = 4 then
          let conf = (if co_reload_conf_period conf \<noteq> 0 \<and> co_fsync_period conf \<ge> co_reload_conf_period conf then conf\<lparr>co_fsync_period := 0\<rparr> else conf);
              (ro, w) = zlog_rotater_new (co_rotate_lock_file conf) w;
              conf = conf\<lparr>co_rotater := ro\<rparr>
          in
            if ro = None then Some (-1, conf, new, w)
            else do {
              (f, cnt, m) \<leftarrow> zlog_format_new lc (co_default_format_line conf) (co_time_cache_count conf) (sy_mem w);
              let conf = conf\<lparr>co_default_format := f, co_time_cache_count := cnt\<rparr>;
              Some (if f = None then -1 else 0, conf, new, w\<lparr>sy_mem := m\<rparr>)
            }
        else Some (0, conf, new, w))"

text \<open>A line of the section \<open>[global]\<close>.\<close>

definition conf_global :: "libc \<Rightarrow> zlog_conf \<Rightarrow> string \<Rightarrow> (int \<times> zlog_conf) option" where
  "conf_global lc conf line =
     (let vs = sscanf [ScanWs, ScanSet (\<lambda>c. c \<noteq> CHR ''=''), ScanLit (CHR ''=''), ScanWs, ScanStr, ScanWs] line;
          name = val_str vs 0; val = val_str vs 1;
          ws = sscanf [ScanStr, ScanCount, ScanStr, ScanStr] name;
          word_1 = val_str ws 0; nread = nat (val_int 0 ws 1); word_2 = val_str ws 2; word_3 = val_str ws 3
      in
        if nscan vs \<noteq> 2 then Some (-1, conf)
        else if word_1 = ''strict'' \<and> word_2 = ''init'' then
          Some (0, conf\<lparr>co_strict_init := \<not> (strcaseeq val ''false'' \<and> lc_getenv lc ''ZLOG_STRICT_INIT'' = None)\<rparr>)
        else if word_1 = ''buffer'' \<and> word_2 = ''min'' then do { n \<leftarrow> zc_parse_byte_size val; Some (0, conf\<lparr>co_buf_size_min := n\<rparr>) }
        else if word_1 = ''buffer'' \<and> word_2 = ''max'' then do { n \<leftarrow> zc_parse_byte_size val; Some (0, conf\<lparr>co_buf_size_max := n\<rparr>) }
        else if word_1 = ''file'' \<and> word_2 = ''perms'' then
          Some (0, conf\<lparr>co_file_perms := nat (val_int (int (co_file_perms conf)) (sscanf [ScanOct] val) 0 mod 2 ^ 32)\<rparr>)
        else if word_1 = ''rotate'' \<and> word_2 = ''lock'' \<and> word_3 = ''file'' then
          Some (0, conf\<lparr>co_rotate_lock_file := (if val = ''self'' then co_file conf else val)\<rparr>)
        else if word_1 = ''default'' \<and> word_2 = ''format'' then Some (0, conf\<lparr>co_default_format_line := drop nread line\<rparr>)
        else if word_1 = ''reload'' \<and> word_2 = ''conf'' \<and> word_3 = ''period'' then
          do { n \<leftarrow> zc_parse_byte_size val; Some (0, conf\<lparr>co_reload_conf_period := n\<rparr>) }
        else if word_1 = ''fsync'' \<and> word_2 = ''period'' then do { n \<leftarrow> zc_parse_byte_size val; Some (0, conf\<lparr>co_fsync_period := n\<rparr>) }
        else Some (if co_strict_init conf then -1 else 0, conf))"

definition conf_add_format ::
  "libc \<Rightarrow> zlog_conf \<Rightarrow> string \<Rightarrow> mem \<Rightarrow> (int \<times> zlog_conf \<times> mem) option" where
  "conf_add_format lc conf line m = do {
     formats \<leftarrow> co_formats conf;
     (f, cnt, m) \<leftarrow> zlog_format_new lc line (co_time_cache_count conf) m;
     let conf = conf\<lparr>co_time_cache_count := cnt\<rparr>;
     (case f of
        None \<Rightarrow> Some (if co_strict_init conf then -1 else 0, conf, m)
      | Some f \<Rightarrow> do {
          (rc, _, formats, m) \<leftarrow> zc_arraylist_add formats (Some f) m;
          let conf = conf\<lparr>co_formats := Some formats\<rparr>;
          if rc \<noteq> 0 then do { _ \<leftarrow> zlog_format_del f; Some (-1, conf, m) } else Some (0, conf, m)
        })
   }"

definition zlog_conf_parse_line ::
  "libc \<Rightarrow> zlog_conf \<Rightarrow> string \<Rightarrow> nat \<Rightarrow> 'f rule_store \<Rightarrow> 'z os_scheme \<Rightarrow> (int \<times> zlog_conf \<times> nat \<times> 'f rule_store \<times> 'z os_scheme) option" where
  "zlog_conf_parse_line lc conf line section st w =
     (if length line > MAXLEN_CFG_LINE then Some (-1, conf, section, st, w)
      else if at line 0 = CHR ''['' then do {
        (rc, conf, section, w) \<leftarrow> conf_section lc conf line section w;
        Some (rc, conf, section, st, w)
      }
      else if section = 1 then do { (rc, conf) \<leftarrow> conf_global lc conf line; Some (rc, conf, section, st, w) }
      else if section = 2 then do {
        levels \<leftarrow> co_levels conf;
        (rc, _, levels, m) \<leftarrow> zlog_level_list_set levels line (sy_mem w);
        Some (if rc \<noteq> 0 \<and> co_strict_init conf then -1 else 0, conf\<lparr>co_levels := Some levels\<rparr>, section, st, w\<lparr>sy_mem := m\<rparr>)
      }
      else if section = 3 then do {
        (rc, conf, m) \<leftarrow> conf_add_format lc conf line (sy_mem w);
        Some (rc, conf, section, st, w\<lparr>sy_mem := m\<rparr>)
      }
      else if section = 4 then do {
        (made, rc, conf, st, w) \<leftarrow> conf_add_rule lc conf line st w;
        Some (if made then rc else if co_strict_init conf then -1 else 0, conf, section, st, w)
      }
      else Some (-1, conf, section, st, w))"

subsection \<open>Files\<close>

text \<open>\<open>fgets\<close>: what it stores for an array of \<open>n\<close> characters, and what is left.\<close>

definition fgets :: "nat \<Rightarrow> string \<Rightarrow> string \<times> string" where
  "fgets n inp = (let k = min (n - 1) (length (takeWhile (\<lambda>c. c \<noteq> CHR 0x0A) inp) + 1) in (take k inp, drop k inp))"

text \<open>The text before a comment, which starts with a \<open>#\<close> outside quotation marks.\<close>

fun cut_comment :: "bool \<Rightarrow> string \<Rightarrow> string" where
  "cut_comment q [] = []"
| "cut_comment q (c # cs) =
     (if c = CHR 0x22 then c # cut_comment (\<not> q) cs
      else if c = CHR ''#'' \<and> \<not> q then []
      else c # cut_comment q cs)"

text \<open>
  One round of the loop that reads the file, on the array \<open>line\<close> and the index of \<open>pline\<close> in it, up to the call of
  \<open>zlog_conf_parse_line\<close>: the array, the index for the next round, and the line to parse, if it is complete. Going back over white space
  before a backslash can leave the array, which is undefined.
\<close>

definition conf_line :: "string \<Rightarrow> nat \<Rightarrow> string \<Rightarrow> (string \<times> nat \<times> string option) option" where
  "conf_line blk pline s = do {
     blk \<leftarrow> write_at blk pline (s @ [CHR 0x00]);
     t \<leftarrow> cstr blk pline;
     c \<leftarrow> cell blk (int pline + int (length t) - 1);
     blk \<leftarrow> (if c = CHR 0x0A then write_at blk (pline + length t - 1) [CHR 0x00] else Some blk);
     t \<leftarrow> cstr blk pline;
     let p = dropWhile isspace t;
     if p = [] \<or> hd p = CHR ''#'' then Some (blk, pline, None)
     else do {
       blk \<leftarrow> write_at blk pline (p @ [CHR 0x00]);
       let u = rev (dropWhile isspace (rev p));
       let e = pline + length u - 1;
       if last u = CHR 0x5C \<and> \<not> e > MAXLEN_CFG_LINE - 30 then
         let k = length (dropWhile isspace (rev (take e blk))) in
         if k = 0 then None
         else do { blk \<leftarrow> write_at blk k [CHR 0x00]; Some (blk, k, None) }
       else do {
         blk \<leftarrow> write_at blk (e + 1) [CHR 0x00];
         l \<leftarrow> cstr blk 0;
         let l = cut_comment False l;
         blk \<leftarrow> write_at blk (length l) [CHR 0x00];
         Some (blk, 0, Some l)
       }
     }
   }"

lemma fgets_rest: "(s, rest) = fgets n inp \<Longrightarrow> inp \<noteq> [] \<Longrightarrow> \<not> n \<le> Suc 0 \<Longrightarrow> length rest < length inp"
  by (cases inp) (auto simp: fgets_def Let_def)

function conf_lines ::
  "libc \<Rightarrow> string \<Rightarrow> string \<Rightarrow> nat \<Rightarrow> zlog_conf \<Rightarrow> nat \<Rightarrow> 'f rule_store \<Rightarrow> 'z os_scheme \<Rightarrow>
   (int \<times> zlog_conf \<times> 'f rule_store \<times> 'z os_scheme) option" where
  "conf_lines lc inp blk pline conf section st w =
     (if inp = [] then Some (0, conf, st, w)
      else if MAXLEN_CFG_LINE + 1 - pline \<le> 1 then None
      else
        let (s, rest) = fgets (MAXLEN_CFG_LINE + 1 - pline) inp in do {
          (blk, pline, line) \<leftarrow> conf_line blk pline s;
          (case line of
             None \<Rightarrow> conf_lines lc rest blk pline conf section st w
           | Some l \<Rightarrow> do {
               (rc, conf, section, st, w) \<leftarrow> zlog_conf_parse_line lc conf l section st w;
               if rc < 0 then Some (rc, conf, st, w) else conf_lines lc rest blk pline conf section st w
             })
        })"
  by pat_completeness auto

termination
  by (relation "measure (\<lambda>(_, inp, _). length inp)") (auto dest: fgets_rest)

text \<open>\<open>fopen\<close> for reading: the text of the file.\<close>

definition os_fopen_r :: "string \<Rightarrow> 'z os_scheme \<Rightarrow> string option \<times> 'z os_scheme" where
  "os_fopen_r path w = (let (ok, w) = io_ok w in (if ok then file_text w path else None, w))"

definition zlog_conf_build_with_file ::
  "libc \<Rightarrow> zlog_conf \<Rightarrow> 'f rule_store \<Rightarrow> 'z os_scheme \<Rightarrow> (int \<times> zlog_conf \<times> 'f rule_store \<times> 'z os_scheme) option" where
  "zlog_conf_build_with_file lc conf st w =
     (case os_stat (co_file conf) w of
        (None, w) \<Rightarrow> Some (-1, conf, st, w)
      | (Some _, w) \<Rightarrow>
          (case os_fopen_r (co_file conf) w of
             (None, w) \<Rightarrow> Some (-1, conf, st, w)
           | (Some inp, w) \<Rightarrow> conf_lines lc inp (replicate (MAXLEN_CFG_LINE + 1) (CHR 0x00)) 0 conf 0 st w))"

definition zlog_conf_build_without_file ::
  "libc \<Rightarrow> zlog_conf \<Rightarrow> 'f rule_store \<Rightarrow> 'z os_scheme \<Rightarrow> (int \<times> zlog_conf \<times> 'f rule_store \<times> 'z os_scheme) option" where
  "zlog_conf_build_without_file lc conf st w = do {
     (f, cnt, m) \<leftarrow> zlog_format_new lc (co_default_format_line conf) (co_time_cache_count conf) (sy_mem w);
     let conf = conf\<lparr>co_default_format := f, co_time_cache_count := cnt\<rparr>;
     let w = w\<lparr>sy_mem := m\<rparr>;
     if f = None then Some (-1, conf, st, w)
     else
       let (ro, w) = zlog_rotater_new (co_rotate_lock_file conf) w; conf = conf\<lparr>co_rotater := ro\<rparr> in
       if ro = None then Some (-1, conf, st, w)
       else do {
         (made, rc, conf, st, w) \<leftarrow> conf_add_rule lc conf ZLOG_CONF_DEFAULT_RULE st w;
         Some (if made then rc else -1, conf, st, w)
       }
   }"

definition zero_conf :: zlog_conf where
  "zero_conf = \<lparr>co_file = [], co_strict_init = False, co_buf_size_min = 0, co_buf_size_max = 0, co_rotate_lock_file = [], co_rotater = None,
     co_default_format_line = [], co_default_format = None, co_file_perms = 0, co_fsync_period = 0, co_reload_conf_period = 0,
     co_levels = None, co_formats = None, co_rules = None, co_time_cache_count = 0\<rparr>"

text \<open>The settings before a file is read.\<close>

definition conf_defaults :: "string \<Rightarrow> bool \<Rightarrow> zlog_conf" where
  "conf_defaults path has_conf_file = zero_conf\<lparr>co_file := path, co_strict_init := True, co_buf_size_min := ZLOG_CONF_DEFAULT_BUF_SIZE_MIN,
     co_buf_size_max := ZLOG_CONF_DEFAULT_BUF_SIZE_MAX,
     co_rotate_lock_file := (if has_conf_file then path else ZLOG_CONF_BACKUP_ROTATE_LOCK_FILE),
     co_default_format_line := ZLOG_CONF_DEFAULT_FORMAT, co_file_perms := ZLOG_CONF_DEFAULT_FILE_PERMS,
     co_reload_conf_period := ZLOG_CONF_DEFAULT_RELOAD_CONF_PERIOD, co_fsync_period := ZLOG_CONF_DEFAULT_FSYNC_PERIOD\<rparr>"

text \<open>\<open>conf_lists\<close> makes the three lists; \<open>False\<close> is the jump to \<open>err\<close>.\<close>

definition conf_lists :: "zlog_conf \<Rightarrow> mem \<Rightarrow> (bool \<times> zlog_conf \<times> mem) option" where
  "conf_lists conf m = do {
     (levels, m) \<leftarrow> zlog_level_list_new m;
     if levels = None then Some (False, conf, m)
     else
       let conf = conf\<lparr>co_levels := levels\<rparr>; (formats, m) = zc_arraylist_new True m in
       if formats = None then Some (False, conf, m)
       else
         let conf = conf\<lparr>co_formats := formats\<rparr>; (rules, m) = zc_arraylist_new True m in
         Some (rules \<noteq> None, conf\<lparr>co_rules := rules\<rparr>, m)
   }"

definition zlog_conf_new ::
  "libc \<Rightarrow> string option \<Rightarrow> 'f rule_store \<Rightarrow> 'z os_scheme \<Rightarrow> (zlog_conf option \<times> 'f rule_store \<times> 'z os_scheme) option" where
  "zlog_conf_new lc confpath st w =
     (let (ok, m) = alloc (sy_mem w); w = w\<lparr>sy_mem := m\<rparr>;
          path = (case confpath of
             Some (c # cs) \<Rightarrow> Some (c # cs)
           | _ \<Rightarrow> lc_getenv lc ''ZLOG_CONF_PATH'')
      in
        if \<not> ok then Some (None, st, w)
        else if (case path of None \<Rightarrow> False | Some p \<Rightarrow> length p > MAXLEN_PATH) then Some (None, st, w)
        else
          let conf = conf_defaults (case path of None \<Rightarrow> [] | Some p \<Rightarrow> p) (path \<noteq> None) in do {
            (ok, conf, m) \<leftarrow> conf_lists conf (sy_mem w);
            let w = w\<lparr>sy_mem := m\<rparr>;
            (rc, conf, st, w) \<leftarrow> (if \<not> ok then Some (-1, conf, st, w)
               else if path \<noteq> None then zlog_conf_build_with_file lc conf st w
               else zlog_conf_build_without_file lc conf st w);
            if rc = 0 then Some (Some conf, st, w)
            else do { (st, w) \<leftarrow> zlog_conf_del conf st w; Some (None, st, w) }
          })"

subsection \<open>What building a configuration does to the rules\<close>

text \<open>
  A configuration under construction: its lists exist, its list of levels is well formed, and its rules are live, with selectors that decide
  every level, at different addresses from \<open>brk\<close> on (\<open>conf_strong\<close>), or the list of rules has lost its block to a failed allocation.
\<close>

definition conf_strong :: "nat \<Rightarrow> 'f rule_store \<Rightarrow> zlog_conf \<Rightarrow> bool" where
  "conf_strong brk st conf \<longleftrightarrow> (\<exists>levels. co_levels conf = Some levels \<and> level_list_ok levels) \<and> co_formats conf \<noteq> None \<and>
     (\<exists>rules as. co_rules conf = Some rules \<and> al_elems rules as \<and> distinct as \<and>
        (\<forall>a\<in>set as. brk \<le> a \<and> a < rs_brk st \<and> (\<exists>r. rs_map st a = Some r \<and> sel_ok r)))"

definition conf_weak :: "nat \<Rightarrow> zlog_conf \<Rightarrow> bool" where
  "conf_weak brk conf \<longleftrightarrow> (\<forall>rules. co_rules conf = Some rules \<longrightarrow> al_array rules = None \<or> (\<exists>as. al_elems rules as \<and> (\<forall>a\<in>set as. brk \<le> a)))"

definition store_ext :: "nat \<Rightarrow> 'f rule_store \<Rightarrow> 'f rule_store \<Rightarrow> bool" where
  "store_ext brk st st' \<longleftrightarrow> rs_brk st \<le> rs_brk st' \<and> (\<forall>a<brk. rs_map st' a = rs_map st a)"

lemma store_ext_refl [simp]: "store_ext brk st st"
  by (simp add: store_ext_def)

lemma store_ext_trans: "store_ext brk st st' \<Longrightarrow> store_ext brk st' st'' \<Longrightarrow> store_ext brk st st''"
  by (simp add: store_ext_def)

lemma conf_strong_settings [simp]:
  "conf_strong brk st (conf\<lparr>co_time_cache_count := n\<rparr>) = conf_strong brk st conf"
  "conf_strong brk st (conf\<lparr>co_default_format := f\<rparr>) = conf_strong brk st conf"
  "conf_strong brk st (conf\<lparr>co_rotater := ro\<rparr>) = conf_strong brk st conf"
  "conf_strong brk st (conf\<lparr>co_fsync_period := n\<rparr>) = conf_strong brk st conf"
  "conf_strong brk st (conf\<lparr>co_strict_init := b\<rparr>) = conf_strong brk st conf"
  "conf_strong brk st (conf\<lparr>co_buf_size_min := n\<rparr>) = conf_strong brk st conf"
  "conf_strong brk st (conf\<lparr>co_buf_size_max := n\<rparr>) = conf_strong brk st conf"
  "conf_strong brk st (conf\<lparr>co_file_perms := n\<rparr>) = conf_strong brk st conf"
  "conf_strong brk st (conf\<lparr>co_rotate_lock_file := s\<rparr>) = conf_strong brk st conf"
  "conf_strong brk st (conf\<lparr>co_default_format_line := s\<rparr>) = conf_strong brk st conf"
  "conf_strong brk st (conf\<lparr>co_reload_conf_period := n\<rparr>) = conf_strong brk st conf"
  by (simp_all add: conf_strong_def)

lemma conf_strong_lists:
  "conf_strong brk st conf \<Longrightarrow> level_list_ok l \<Longrightarrow> conf_strong brk st (conf\<lparr>co_levels := Some l\<rparr>)" "conf_strong brk st conf \<Longrightarrow> conf_strong brk st (conf\<lparr>co_formats := Some l'\<rparr>)"
  by (auto simp: conf_strong_def)

lemma conf_strong_weak: "conf_strong brk st conf \<Longrightarrow> conf_weak brk conf"
  by (auto simp: conf_strong_def conf_weak_def)

lemma conf_add_rule_frame:
  fixes st st' :: "'f rule_store" and w w' :: "'z os_scheme"
  assumes "conf_add_rule lc conf line st w = Some (made, rc, conf', st', w')" and "conf_strong brk st conf" and "brk \<le> rs_brk st"
    and "length line \<le> MAXLEN_CFG_LINE"
  shows "store_ext brk st st'" and "rc = 0 \<Longrightarrow> conf_strong brk st' conf'" and "conf_weak brk conf'" and "rc = 0 \<or> rc = -1"
proof -
  obtain lv fm rules as where l: "co_levels conf = Some lv" "co_formats conf = Some fm" "co_rules conf = Some rules" "al_elems rules as"
    and ad: "distinct as" "\<forall>a\<in>set as. brk \<le> a \<and> a < rs_brk st \<and> (\<exists>r. rs_map st a = Some r \<and> sel_ok r)" and ll: "level_list_ok lv"
    using assms(2) by (auto simp: conf_strong_def)
  have main: "store_ext brk st st' \<and> (rc = 0 \<longrightarrow> conf_strong brk st' conf') \<and> conf_weak brk conf' \<and> (rc = 0 \<or> rc = -1)"
  proof (cases "co_default_format conf")
    case None
    then show ?thesis using assms(1,2) l by (simp add: conf_add_rule_def conf_strong_weak)
  next
    case (Some f)
    obtain r :: "'f zlog_rule option" and cnt w1
      where n: "zlog_rule_new lc line lv f fm (co_file_perms conf) (co_fsync_period conf) (co_time_cache_count conf) w = Some (r, cnt, w1)"
      using assms(1) l Some by (auto simp: conf_add_rule_def bind_eq_Some_conv)
    show ?thesis
    proof (cases r)
      case None
      then show ?thesis using assms(1,2) l n Some by (auto simp: conf_add_rule_def intro!: conf_strong_weak)
    next
      case r: (Some ru)
      have rep: "al_rep rules (map Some as)" using l(4) by (simp add: al_elems_def)
      have sel: "sel_ok ru" using zlog_rule_new_sel [OF _ ll assms(4)] n r by blast
      show ?thesis
      proof (rule zc_arraylist_add_rep [OF rep, of "Some (rs_brk st)" "sy_mem w1"])
        fix a' m'
        assume a: "zc_arraylist_add rules (Some (rs_brk st)) (sy_mem w1) = Some (0, [], a', m')" "al_rep a' (map Some as @ [Some (rs_brk st)])"
        have "al_elems a' (as @ [rs_brk st])" using a(2) by (simp add: al_elems_def)
        moreover have "conf' = conf\<lparr>co_time_cache_count := cnt, co_rules := Some a'\<rparr>" "rs_map st' = (rs_map st)(rs_brk st \<mapsto> ru)" "rs_brk st' = rs_brk st + 1"
          using assms(1) l n Some r a(1) by (auto simp: conf_add_rule_def Let_def)
        moreover have "rc = 0" using assms(1) l n Some r a(1) by (simp add: conf_add_rule_def Let_def)
        ultimately have "conf_strong brk st' conf'" "store_ext brk st st'" "rc = 0"
          using l ll ad sel assms(3) by (force simp: conf_strong_def, simp add: store_ext_def, simp)
        then show ?thesis by (simp add: conf_strong_weak)
      next
        fix m'
        assume a: "zc_arraylist_add rules (Some (rs_brk st)) (sy_mem w1) = Some (-1, [], rules\<lparr>al_array := None\<rparr>, m')"
        then have "rc = -1" "st' = st" "co_rules conf' = Some (rules\<lparr>al_array := None\<rparr>)"
          using assms(1) l n Some r by (auto simp: conf_add_rule_def Let_def bind_eq_Some_conv)
        then show ?thesis by (simp add: conf_weak_def)
      qed
    qed
  qed
  then show "store_ext brk st st'" and "rc = 0 \<Longrightarrow> conf_strong brk st' conf'" and "conf_weak brk conf'" and "rc = 0 \<or> rc = -1" by blast+
qed

lemma conf_section_strong: "conf_section lc conf line section w = Some (rc, conf', section', w') \<Longrightarrow> conf_strong brk st conf \<Longrightarrow> conf_strong brk st conf'"
  by (auto simp: conf_section_def Let_def bind_eq_Some_conv split: if_splits prod.splits)

lemma all_if: "(b \<Longrightarrow> P x) \<Longrightarrow> (\<not> b \<Longrightarrow> P y) \<Longrightarrow> P (if b then x else y)"
  by simp

lemma conf_global_strong: "conf_global lc conf line = Some (rc, conf') \<Longrightarrow> conf_strong brk st conf \<Longrightarrow> conf_strong brk st conf'"
proof -
  let ?P = "\<lambda>x. \<forall>rc conf'. x = Some (rc, conf') \<longrightarrow> conf_strong brk st conf' = conf_strong brk st conf"
  have "?P (conf_global lc conf line)"
    unfolding conf_global_def Let_def by (intro all_if [where P = ?P]) (auto simp: bind_eq_Some_conv)
  then show "conf_global lc conf line = Some (rc, conf') \<Longrightarrow> conf_strong brk st conf \<Longrightarrow> conf_strong brk st conf'" by blast
qed

lemma conf_add_format_strong:
  assumes "conf_add_format lc conf line m = Some (rc, conf', m')" and "conf_strong brk st conf"
  shows "conf_strong brk st conf'"
proof -
  obtain formats where f: "co_formats conf = Some formats" using assms(2) by (auto simp: conf_strong_def)
  obtain x cnt m1 where n: "zlog_format_new lc line (co_time_cache_count conf) m = Some (x, cnt, m1)"
    using assms(1) f by (auto simp: conf_add_format_def bind_eq_Some_conv)
  show ?thesis
  proof (cases x)
    case None
    then show ?thesis using assms f n by (auto simp: conf_add_format_def Let_def)
  next
    case (Some a)
    then obtain rc' d l m2 where "zc_arraylist_add formats (Some a) m1 = Some (rc', d, l, m2)"
      using assms(1) f n by (auto simp: conf_add_format_def Let_def bind_eq_Some_conv)
    then have "conf' = conf\<lparr>co_time_cache_count := cnt, co_formats := Some l\<rparr>"
      using assms(1) f n Some by (auto simp: conf_add_format_def Let_def bind_eq_Some_conv split: if_splits)
    then show ?thesis using assms(2) by (auto intro: conf_strong_lists(2))
  qed
qed

lemma zlog_conf_parse_line_frame:
  assumes "zlog_conf_parse_line lc conf line section st w = Some (rc, conf', section', st', w')" and "conf_strong brk st conf" and "brk \<le> rs_brk st"
  shows "store_ext brk st st' \<and> conf_weak brk conf' \<and> (\<not> rc < 0 \<longrightarrow> conf_strong brk st' conf')"
proof -
  let ?Q = "\<lambda>rc conf' st'. store_ext brk st st' \<and> conf_weak brk conf' \<and> (\<not> rc < (0 :: int) \<longrightarrow> conf_strong brk st' conf')"
  let ?P = "\<lambda>x. \<forall>rc conf' section' st' w'. x = Some (rc, conf', section', st', w') \<longrightarrow> ?Q rc conf' st'"
  have same: "?Q rc conf' st" if "conf_strong brk st conf'" for rc conf' using that by (simp add: conf_strong_weak)
  have rule: "?Q (if made then rc' else if co_strict_init conf' then -1 else 0) conf' st'"
    if "conf_add_rule lc conf line st w = Some (made, rc', conf', st', w')" "length line \<le> MAXLEN_CFG_LINE" for made rc' conf' st' w'
  proof -
    have "rc' = 0" if "\<not> made" using that \<open>conf_add_rule lc conf line st w = _\<close>
      by (auto simp: conf_add_rule_def Let_def bind_eq_Some_conv split: option.splits if_splits)
    then show ?thesis using conf_add_rule_frame [OF that(1) assms(2,3) that(2)] by auto
  qed
  have "?P (zlog_conf_parse_line lc conf line section st w)"
    unfolding zlog_conf_parse_line_def
  proof (intro all_if [where P = ?P], goal_cases)
    case 2
    show ?case using conf_section_strong [OF _ assms(2)] same by (fastforce simp: bind_eq_Some_conv)
  next
    case 3
    show ?case using conf_global_strong [OF _ assms(2)] same by (fastforce simp: bind_eq_Some_conv)
  next
    case 4
    obtain levels where lv: "co_levels conf = Some levels" "level_list_ok levels" using assms(2) by (auto simp: conf_strong_def)
    obtain rc1 dead ls m where ls: "zlog_level_list_set levels line (sy_mem w) = Some (rc1, dead, ls, m)" "level_list_ok ls"
      using level_list_set_ok [OF lv(2)] 4(1) by (meson not_less)
    then show ?case using lv(1) same [OF conf_strong_lists(1) [OF assms(2) ls(2)]] by simp
  next
    case 5
    show ?case using conf_add_format_strong [OF _ assms(2)] same by (fastforce simp: bind_eq_Some_conv)
  next
    case 6
    show ?case using rule 6(1) by (fastforce simp: bind_eq_Some_conv)
  qed (use same [OF assms(2)] in auto)
  then show ?thesis using assms(1) by blast
qed

lemma conf_lines_frame:
  assumes "conf_lines lc inp blk pline conf section st w = Some (rc, conf', st', w')" and "conf_strong brk st conf" and "brk \<le> rs_brk st"
  shows "store_ext brk st st' \<and> conf_weak brk conf' \<and> (\<not> rc < 0 \<longrightarrow> conf_strong brk st' conf')"
  using assms
proof (induction lc inp blk pline conf "section" st w arbitrary: rc conf' st' w' rule: conf_lines.induct)
  case (1 lc inp blk pline conf sec st w)
  show ?case
  proof (cases "inp = [] \<or> MAXLEN_CFG_LINE + 1 - pline \<le> 1")
    case True
    then show ?thesis using "1.prems" by (subst (asm) (1) conf_lines.simps) (auto simp: conf_strong_weak split: if_splits)
  next
    case False
    then have c: "\<not> inp = []" "\<not> MAXLEN_CFG_LINE + 1 - pline \<le> 1" by auto
    obtain s rest where f: "fgets (MAXLEN_CFG_LINE + 1 - pline) inp = (s, rest)" by fastforce
    note run = "1.prems"(1) [unfolded conf_lines.simps [of lc inp] if_not_P [OF c(1)] if_not_P [OF c(2)] f Let_def prod.case]
    obtain blk1 pl1 line where l: "conf_line blk pline s = Some (blk1, pl1, line)" using run by (auto simp: bind_eq_Some_conv)
    show ?thesis
    proof (cases line)
      case None
      then show ?thesis using run l "1.IH"(1) [OF c refl f [symmetric] l refl refl None] "1.prems"(2,3) by simp
    next
      case (Some tx)
      obtain rc1 conf1 sec1 st1 w1 where p: "zlog_conf_parse_line lc conf tx sec st w = Some (rc1, conf1, sec1, st1, w1)"
        using run l Some by (auto simp: bind_eq_Some_conv)
      note pf = zlog_conf_parse_line_frame [OF p "1.prems"(2,3)]
      show ?thesis
      proof (cases "rc1 < 0")
        case True
        then show ?thesis using run l Some p pf by auto
      next
        case False
        then have "conf_lines lc rest blk1 pl1 conf1 sec1 st1 w1 = Some (rc, conf', st', w')" using run l Some p by simp
        moreover have "conf_strong brk st1 conf1" "brk \<le> rs_brk st1" "store_ext brk st st1" using pf False "1.prems"(3) by (auto simp: store_ext_def)
        ultimately show ?thesis
          using "1.IH"(2) [OF c refl f [symmetric] l refl refl Some p refl refl refl refl False]
          by (auto intro: store_ext_trans)
      qed
    qed
  qed
qed

lemma del_rule_list_frame: "del_rule_list as st w = Some (st', w') \<Longrightarrow> \<forall>a\<in>set as. brk \<le> a \<Longrightarrow> store_ext brk st st'"
  by (induction as st w rule: del_rule_list.induct) (fastforce simp: bind_eq_Some_conv store_ext_def)+

lemma zlog_conf_del_frame:
  assumes "zlog_conf_del conf st w = Some (st', w')" and "conf_weak brk conf"
  shows "store_ext brk st st'"
proof (cases "co_rules conf")
  case None
  then show ?thesis using assms(1) by (auto simp: zlog_conf_del_def bind_eq_Some_conv Let_def split: option.splits)
next
  case (Some rules)
  then obtain as w1 where d: "zc_arraylist_del (Some rules) = Some as" "del_rule_list as st w1 = Some (st', w')"
    using assms(1) by (auto simp: zlog_conf_del_def bind_eq_Some_conv Let_def)
  have "\<forall>a\<in>set as. brk \<le> a"
    using assms(2) Some d(1) zc_arraylist_del_rep [of rules]
    by (auto simp: conf_weak_def conf_strong_def al_elems_def zc_arraylist_del_def split: if_splits)
  then show ?thesis by (rule del_rule_list_frame [OF d(2)])
qed

lemma conf_lists_frame:
  assumes "conf_lists conf m = Some (ok, conf', m')" and "co_rules conf = None"
  shows "ok \<Longrightarrow> conf_strong brk st conf'" and "conf_weak brk conf'"
proof -
  have new: "al_elems a []" if "zc_arraylist_new True m1 = (Some a, m2)" for a :: "nat zc_arraylist" and m1 m2
    using zc_arraylist_new_rep [OF that] by (simp add: al_elems_def)
  consider "\<not> ok" "co_rules conf' = None"
    | levels formats rules m1 m2 m3 where "ok" "conf' = conf\<lparr>co_levels := Some levels, co_formats := Some formats, co_rules := Some rules\<rparr>"
      "zc_arraylist_new True m1 = (Some rules, m2)" "zlog_level_list_new m = Some (Some levels, m3)"
  proof -
    obtain levels m1 where lv: "zlog_level_list_new m = Some (levels, m1)" using assms(1) by (auto simp: conf_lists_def bind_eq_Some_conv)
    obtain formats :: "zlog_format zc_arraylist option" and m2 where fm: "zc_arraylist_new True m1 = (formats, m2)" by fastforce
    obtain rules :: "nat zc_arraylist option" and m3 where ru: "zc_arraylist_new True m2 = (rules, m3)" by fastforce
    note eval = assms(1) [unfolded conf_lists_def lv bind.bind_lunit prod.case fm ru Let_def]
    show thesis
    proof (cases "levels = None \<or> formats = None \<or> rules = None")
      case True
      then have "\<not> ok \<and> co_rules conf' = None" using eval assms(2) by (auto split: if_splits)
      then show thesis using that(1) by blast
    next
      case False
      then obtain l f r where s: "levels = Some l" "formats = Some f" "rules = Some r" by auto
      then have "ok \<and> conf' = conf\<lparr>co_levels := Some l, co_formats := Some f, co_rules := Some r\<rparr>" using eval by simp
      then show thesis using that(2) ru lv s by blast
    qed
  qed
  then have "(ok \<longrightarrow> conf_strong brk st conf') \<and> conf_weak brk conf'"
  proof cases
    case 1
    then show ?thesis by (simp add: conf_weak_def)
  next
    case 2
    have "conf_strong brk st conf'" unfolding 2(2) conf_strong_def using new [OF 2(3)] level_list_new_success [OF 2(4)] by (auto intro!: exI [of _ "[]"])
    then show ?thesis by (simp add: conf_strong_weak)
  qed
  then show "ok \<Longrightarrow> conf_strong brk st conf'" and "conf_weak brk conf'" by blast+
qed

lemma zlog_conf_build_with_file_frame:
  assumes "zlog_conf_build_with_file lc conf st w = Some (rc, conf', st', w')" and "conf_strong brk st conf" and "brk \<le> rs_brk st"
  shows "store_ext brk st st' \<and> conf_weak brk conf' \<and> (rc = 0 \<longrightarrow> conf_strong brk st' conf')"
proof -
  consider "st' = st" "conf' = conf" "rc = -1"
    | inp w1 where "conf_lines lc inp (replicate (MAXLEN_CFG_LINE + 1) (CHR 0x00)) 0 conf 0 st w1 = Some (rc, conf', st', w')"
    using assms(1) by (auto simp: zlog_conf_build_with_file_def split: prod.splits option.splits)
  then show ?thesis
  proof cases
    case 1
    then show ?thesis using assms(2) by (simp add: conf_strong_weak)
  next
    case 2
    then show ?thesis using conf_lines_frame [OF _ assms(2,3)] by fastforce
  qed
qed

lemma zlog_conf_build_without_file_frame:
  assumes "zlog_conf_build_without_file lc conf st w = Some (rc, conf', st', w')" and "conf_strong brk st conf" and "brk \<le> rs_brk st"
  shows "store_ext brk st st' \<and> conf_weak brk conf' \<and> (rc = 0 \<longrightarrow> conf_strong brk st' conf')"
proof -
  consider "st' = st" "conf_strong brk st' conf'"
    | made rc' conf1 w1 where "conf_add_rule lc conf1 ZLOG_CONF_DEFAULT_RULE st w1 = Some (made, rc', conf', st', w')" "conf_strong brk st conf1"
        "rc = (if made then rc' else -1)"
    using assms(1,2) by (auto simp: zlog_conf_build_without_file_def bind_eq_Some_conv Let_def split: if_splits prod.splits)
  then show ?thesis
  proof cases
    case 1
    then show ?thesis by (simp add: conf_strong_weak)
  next
    case 2
    then show ?thesis using conf_add_rule_frame [OF 2(1,2) assms(3)] by (auto simp: ZLOG_CONF_DEFAULT_RULE_def MAXLEN_CFG_LINE_def split: if_splits)
  qed
qed

lemma zlog_conf_new_frame:
  assumes "zlog_conf_new lc path st w = Some (c, st', w')"
  shows "store_ext (rs_brk st) st st' \<and> (\<forall>conf. c = Some conf \<longrightarrow> conf_strong (rs_brk st) st' conf)"
proof -
  let ?brk = "rs_brk st"
  obtain ok0 m0 where a: "alloc (sy_mem w) = (ok0, m0)" by fastforce
  let ?w = "w\<lparr>sy_mem := m0\<rparr>"
  define p where "p = (case path of Some (c # cs) \<Rightarrow> Some (c # cs) | _ \<Rightarrow> lc_getenv lc ''ZLOG_CONF_PATH'')"
  define conf0 where "conf0 = conf_defaults (case p of None \<Rightarrow> [] | Some p \<Rightarrow> p) (p \<noteq> None)"
  have r0: "co_rules conf0 = None" by (simp add: conf0_def conf_defaults_def zero_conf_def)
  show ?thesis
  proof (cases "ok0 \<and> \<not> (case p of None \<Rightarrow> False | Some p \<Rightarrow> length p > MAXLEN_PATH)")
    case False
    then have "c = None \<and> st' = st" using assms a unfolding zlog_conf_new_def Let_def p_def [symmetric] by (auto split: if_splits)
    then show ?thesis by simp
  next
    case True
    then have run: "do { (ok, conf, m) \<leftarrow> conf_lists conf0 m0;
        (rc, conf, st, w) \<leftarrow> (if \<not> ok then Some (-1, conf, st, ?w\<lparr>sy_mem := m\<rparr>)
           else if p \<noteq> None then zlog_conf_build_with_file lc conf st (?w\<lparr>sy_mem := m\<rparr>)
           else zlog_conf_build_without_file lc conf st (?w\<lparr>sy_mem := m\<rparr>));
        if rc = 0 then Some (Some conf, st, w) else do { (st, w) \<leftarrow> zlog_conf_del conf st w; Some (None, st, w) } } = Some (c, st', w')"
      using assms a unfolding zlog_conf_new_def Let_def p_def [symmetric] conf0_def [symmetric] by simp
    obtain ok conf1 m1 where l: "conf_lists conf0 m0 = Some (ok, conf1, m1)" using run by (auto simp: bind_eq_Some_conv)
    let ?build = "if \<not> ok then Some (-1, conf1, st, ?w\<lparr>sy_mem := m1\<rparr>)
           else if p \<noteq> None then zlog_conf_build_with_file lc conf1 st (?w\<lparr>sy_mem := m1\<rparr>)
           else zlog_conf_build_without_file lc conf1 st (?w\<lparr>sy_mem := m1\<rparr>)"
    obtain rc conf2 st2 w2 where b: "?build = Some (rc, conf2, st2, w2)"
      using run unfolding l bind.bind_lunit prod.case by (cases ?build) auto
    have e: "(if rc = 0 then Some (Some conf2, st2, w2) else do { (st, w) \<leftarrow> zlog_conf_del conf2 st2 w2; Some (None, st, w) }) = Some (c, st', w')"
      using run unfolding l bind.bind_lunit prod.case b .
    have f: "store_ext ?brk st st2 \<and> conf_weak ?brk conf2 \<and> (rc = 0 \<longrightarrow> conf_strong ?brk st2 conf2)"
    proof (cases ok)
      case True
      note s = conf_lists_frame(1) [OF l r0 True, of ?brk]
      show ?thesis
      proof (cases p)
        case None
        with b True have "zlog_conf_build_without_file lc conf1 st (?w\<lparr>sy_mem := m1\<rparr>) = Some (rc, conf2, st2, w2)" by simp
        then show ?thesis by (rule zlog_conf_build_without_file_frame [OF _ s order_refl])
      next
        case (Some x)
        with b True have "zlog_conf_build_with_file lc conf1 st (?w\<lparr>sy_mem := m1\<rparr>) = Some (rc, conf2, st2, w2)" by simp
        then show ?thesis by (rule zlog_conf_build_with_file_frame [OF _ s order_refl])
      qed
    next
      case False
      then show ?thesis using b conf_lists_frame(2) [OF l r0, of ?brk] by auto
    qed
    then show ?thesis
      using e zlog_conf_del_frame [of conf2 st2 w2 _ _ ?brk]
      by (auto simp: bind_eq_Some_conv split: if_splits intro: store_ext_trans)
  qed
qed

end
