(* ===== verification/Zlog_Env.thy ===== *)
theory Zlog_Env
  imports Zlog_Conf Zlog_Category
begin

text \<open>
  The interface of the library (\<^verbatim>\<open>zlog.c\<close>): the global variables of the process and the functions a program calls. Every function
  runs under \<open>zlog_env_lock\<close>, apart from the look at the bitmap of a category before it. The functions that change the configuration
  hold it alone; those that log hold it as readers and may overlap, and the model runs them one after another. Taking and
  releasing the lock does not fail here. The calling thread is the one of \<open>lc_self\<close>. Categories are addresses in a heap, as the
  program holds pointers to them.
\<close>

record 'f zlog_env =
  en_conf :: "zlog_conf option"
  en_categories :: "category_table option"
  en_cats :: cat_heap
  en_records :: "(string, 'f zlog_record) zc_hashtable option"
  en_default_category :: "nat option"
  en_reload_conf_count :: nat
  en_is_init :: bool
  en_init_version :: int
  en_threads :: "64 word \<rightharpoonup> zlog_thread"
  en_rules :: "'f rule_store"

text \<open>The state before the first call.\<close>

definition env_start :: "'f zlog_env" where
  "env_start = \<lparr>en_conf = None, en_categories = None, en_cats = \<lparr>ch_map = Map.empty, ch_brk = 0\<rparr>, en_records = None,
     en_default_category = None, en_reload_conf_count = 0, en_is_init = False, en_init_version = 0, en_threads = Map.empty,
     en_rules = \<lparr>rs_map = Map.empty, rs_brk = 0\<rparr>\<rparr>"

subsection \<open>Starting, reloading and finishing\<close>

definition zlog_fini_inner :: "'f zlog_env \<Rightarrow> 'z os_scheme \<Rightarrow> ('f zlog_env \<times> 'z os_scheme) option" where
  "zlog_fini_inner e w = do {
     cats \<leftarrow> (case en_categories e of None \<Rightarrow> Some (en_cats e) | Some t \<Rightarrow> zlog_category_table_del t (en_cats e));
     _ \<leftarrow> zlog_record_table_del (en_records e);
     (st, w) \<leftarrow> (case en_conf e of None \<Rightarrow> Some (en_rules e, w) | Some c \<Rightarrow> zlog_conf_del c (en_rules e) w);
     Some (e\<lparr>en_cats := cats, en_categories := None, en_default_category := None, en_records := None, en_rules := st, en_conf := None\<rparr>, w)
   }"

text \<open>The key for the data of a thread is made, and \<open>atexit\<close> called, when nothing has been initialised before.\<close>

definition init_once :: "'f zlog_env \<Rightarrow> 'z os_scheme \<Rightarrow> bool \<times> 'z os_scheme" where
  "init_once e w =
     (if en_init_version e = 0 then let (ok, w) = io_ok w in if ok then io_ok w else (False, w) else (True, w))"

definition init_tables :: "libc \<Rightarrow> string option \<Rightarrow> 'f zlog_env \<Rightarrow> 'z os_scheme \<Rightarrow> (bool \<times> 'f zlog_env \<times> 'z os_scheme) option" where
  "init_tables lc confpath e w = do {
     (conf, st, w) \<leftarrow> zlog_conf_new lc confpath (en_rules e) w;
     let e = e\<lparr>en_conf := conf, en_rules := st\<rparr>;
     if conf = None then Some (False, e, w)
     else
       let (t, m) = zlog_category_table_new (sy_mem w); e = e\<lparr>en_categories := t\<rparr>; w = w\<lparr>sy_mem := m\<rparr> in
       if t = None then Some (False, e, w)
       else
         let (rt, m) = zlog_record_table_new (sy_mem w) in
         Some (rt \<noteq> None, e\<lparr>en_records := rt\<rparr>, w\<lparr>sy_mem := m\<rparr>)
   }"

definition zlog_init_inner :: "libc \<Rightarrow> string option \<Rightarrow> 'f zlog_env \<Rightarrow> 'z os_scheme \<Rightarrow> (int \<times> 'f zlog_env \<times> 'z os_scheme) option" where
  "zlog_init_inner lc confpath e w =
     (let (ok, w) = init_once e w in do {
        (ok, e, w) \<leftarrow> (if ok then init_tables lc confpath e w else Some (False, e, w));
        if ok then Some (0, e, w) else do { (e, w) \<leftarrow> zlog_fini_inner e w; Some (-1, e, w) }
      })"

definition zlog_init :: "libc \<Rightarrow> string option \<Rightarrow> 'f zlog_env \<Rightarrow> 'z os_scheme \<Rightarrow> (int \<times> 'f zlog_env \<times> 'z os_scheme) option" where
  "zlog_init lc confpath e w =
     (if en_is_init e then Some (-1, e, w)
      else do {
        (rc, e, w) \<leftarrow> zlog_init_inner lc confpath e w;
        if rc \<noteq> 0 then Some (-1, e, w)
        else Some (0, e\<lparr>en_is_init := True, en_init_version := en_init_version e + 1\<rparr>, w)
      })"

text \<open>\<open>zlog_category_table_fetch_category\<close> on the tables of the environment.\<close>

definition env_fetch_category :: "string \<Rightarrow> 'f zlog_env \<Rightarrow> 'z os_scheme \<Rightarrow> (nat option \<times> 'f zlog_env \<times> 'z os_scheme) option" where
  "env_fetch_category cname e w = do {
     t \<leftarrow> en_categories e;
     conf \<leftarrow> en_conf e;
     rules \<leftarrow> co_rules conf;
     (a, t, h, m) \<leftarrow> zlog_category_table_fetch_category (rs_map (en_rules e)) t (en_cats e) cname rules (sy_mem w);
     Some (a, e\<lparr>en_categories := Some t, en_cats := h\<rparr>, w\<lparr>sy_mem := m\<rparr>)
   }"

text \<open>A category that cannot be made leaves the tables in place, and the process not initialised.\<close>

definition dzlog_init ::
  "libc \<Rightarrow> string option \<Rightarrow> string \<Rightarrow> 'f zlog_env \<Rightarrow> 'z os_scheme \<Rightarrow> (int \<times> 'f zlog_env \<times> 'z os_scheme) option" where
  "dzlog_init lc confpath cname e w =
     (if en_is_init e then Some (-1, e, w)
      else do {
        (rc, e, w) \<leftarrow> zlog_init_inner lc confpath e w;
        if rc \<noteq> 0 then Some (-1, e, w)
        else do {
          (a, e, w) \<leftarrow> env_fetch_category cname e w;
          let e = e\<lparr>en_default_category := a\<rparr>;
          if a = None then Some (-1, e, w)
          else Some (0, e\<lparr>en_is_init := True, en_init_version := en_init_version e + 1\<rparr>, w)
        }
      })"

text \<open>The argument of \<open>zlog_reload\<close>: a path, a null pointer for the last file, or -1 from a function that reached the period.\<close>

datatype reload_arg = ReloadPath string | ReloadLast | ReloadPeriod

fun set_records :: "(string, 'f zlog_record) zc_hashtable \<Rightarrow> nat option list \<Rightarrow> 'f rule_store \<Rightarrow> ('f rule_store) option" where
  "set_records records [] st = Some st"
| "set_records records (p # ps) st = do {
     a \<leftarrow> p;
     r \<leftarrow> rs_map st a;
     r \<leftarrow> zlog_rule_set_record r records;
     set_records records ps (st\<lparr>rs_map := (rs_map st)(a \<mapsto> r)\<rparr>)
   }"

text \<open>
  The work of \<open>zlog_reload\<close> after the path is known. When the categories cannot be updated, \<open>c_up\<close> is 0 and they are not rolled back;
  the new configuration is deleted in either case of an error.
\<close>

definition reload_conf :: "libc \<Rightarrow> string option \<Rightarrow> 'f zlog_env \<Rightarrow> 'z os_scheme \<Rightarrow> (int \<times> 'f zlog_env \<times> 'z os_scheme) option" where
  "reload_conf lc confpath e w = do {
     (new_conf, st, w) \<leftarrow> zlog_conf_new lc confpath (en_rules e) w;
     let e = e\<lparr>en_rules := st\<rparr>;
     (case new_conf of
        None \<Rightarrow> Some (-1, e, w)
      | Some new_conf \<Rightarrow> do {
          rules \<leftarrow> co_rules new_conf;
          records \<leftarrow> en_records e;
          t \<leftarrow> en_categories e;
          ps \<leftarrow> zc_arraylist_foreach rules;
          st \<leftarrow> set_records records ps st;
          (rc, h, m) \<leftarrow> zlog_category_table_update_rules (rs_map st) t (en_cats e) rules (sy_mem w);
          let w = w\<lparr>sy_mem := m\<rparr>;
          if rc \<noteq> 0 then do {
            (st, w) \<leftarrow> zlog_conf_del new_conf st w;
            Some (-1, e\<lparr>en_rules := st, en_cats := h\<rparr>, w)
          }
          else do {
            h \<leftarrow> zlog_category_table_commit_rules t h;
            old \<leftarrow> en_conf e;
            (st, w) \<leftarrow> zlog_conf_del old st w;
            Some (0, e\<lparr>en_rules := st, en_cats := h, en_init_version := en_init_version e + 1, en_conf := Some new_conf\<rparr>, w)
          }
        })
   }"

definition zlog_reload :: "libc \<Rightarrow> reload_arg \<Rightarrow> 'f zlog_env \<Rightarrow> 'z os_scheme \<Rightarrow> (int \<times> 'f zlog_env \<times> 'z os_scheme) option" where
  "zlog_reload lc confpath e w =
     (if \<not> en_is_init e then Some (0, e, w)
      else do {
        conf \<leftarrow> en_conf e;
        let e0 = e\<lparr>en_reload_conf_count := 0\<rparr>;
        (case confpath of
           ReloadPath p \<Rightarrow> reload_conf lc (Some p) e0 w
         | ReloadLast \<Rightarrow> reload_conf lc (Some (co_file conf)) e0 w
         | ReloadPeriod \<Rightarrow>
             if en_reload_conf_count e > co_reload_conf_period conf then reload_conf lc (Some (co_file conf)) e0 w
             else Some (0, e, w))
      })"

definition zlog_fini :: "'f zlog_env \<Rightarrow> 'z os_scheme \<Rightarrow> ('f zlog_env \<times> 'z os_scheme) option" where
  "zlog_fini e w =
     (if \<not> en_is_init e then Some (e, w)
      else do { (e, w) \<leftarrow> zlog_fini_inner e w; Some (e\<lparr>en_is_init := False\<rparr>, w) })"

subsection \<open>Categories and records\<close>

definition zlog_get_category :: "string \<Rightarrow> 'f zlog_env \<Rightarrow> 'z os_scheme \<Rightarrow> (nat option \<times> 'f zlog_env \<times> 'z os_scheme) option" where
  "zlog_get_category cname e w = (if \<not> en_is_init e then Some (None, e, w) else env_fetch_category cname e w)"

definition dzlog_set_category :: "string \<Rightarrow> 'f zlog_env \<Rightarrow> 'z os_scheme \<Rightarrow> (int \<times> 'f zlog_env \<times> 'z os_scheme) option" where
  "dzlog_set_category cname e w =
     (if \<not> en_is_init e then Some (-1, e, w)
      else do {
        (a, e, w) \<leftarrow> env_fetch_category cname e w;
        Some (if a = None then -1 else 0, e\<lparr>en_default_category := a\<rparr>, w)
      })"

definition zlog_set_record ::
  "string \<Rightarrow> 'f \<Rightarrow> 'f zlog_env \<Rightarrow> 'z os_scheme \<Rightarrow> (int \<times> 'f zlog_env \<times> 'z os_scheme) option" where
  "zlog_set_record rname record_output e w =
     (if \<not> en_is_init e then Some (0, e, w)
      else case zlog_record_new (Some rname) (Some record_output) (sy_mem w) of
        (None, m) \<Rightarrow> Some (-1, e, w\<lparr>sy_mem := m\<rparr>)
      | (Some a_record, m) \<Rightarrow> do {
          records \<leftarrow> en_records e;
          (rc, _, records, m) \<leftarrow> zc_hashtable_put records (rec_name a_record) a_record m;
          let e = e\<lparr>en_records := Some records\<rparr>;
          let w = w\<lparr>sy_mem := m\<rparr>;
          if rc \<noteq> 0 then Some (rc, e, w)
          else do {
            conf \<leftarrow> en_conf e;
            rules \<leftarrow> co_rules conf;
            ps \<leftarrow> zc_arraylist_foreach rules;
            st \<leftarrow> set_records records ps (en_rules e);
            Some (0, e\<lparr>en_rules := st\<rparr>, w)
          }
        })"

subsection \<open>The data of a thread\<close>

text \<open>The macro \<open>zlog_fetch_thread\<close>; an inner \<open>None\<close> is its jump.\<close>

definition rebuild_thread :: "libc \<Rightarrow> zlog_conf \<Rightarrow> int \<Rightarrow> zlog_thread \<Rightarrow> mem \<Rightarrow> bool \<times> zlog_thread \<times> mem" where
  "rebuild_thread lc conf version t m =
     (if th_init_version t = version then (True, t, m)
      else case zlog_thread_rebuild_msg_buf t (co_buf_size_min conf) (co_buf_size_max conf) m of
        (rd, t, m) \<Rightarrow>
          if rd \<noteq> 0 then (False, t, m)
          else case zlog_thread_rebuild_event lc t (co_time_cache_count conf) m of
            (rd, t, m) \<Rightarrow> if rd \<noteq> 0 then (False, t, m) else (True, t\<lparr>th_init_version := version\<rparr>, m))"

definition zlog_fetch_thread :: "libc \<Rightarrow> 'f zlog_env \<Rightarrow> 'z os_scheme \<Rightarrow> (zlog_thread option \<times> 'f zlog_env \<times> 'z os_scheme) option" where
  "zlog_fetch_thread lc e w = do {
     conf \<leftarrow> en_conf e;
     (t, w) \<leftarrow> (case en_threads e (lc_self lc) of
         Some t \<Rightarrow> Some (Some t, w)
       | None \<Rightarrow> do {
           (t, m) \<leftarrow> zlog_thread_new lc (en_init_version e) (co_buf_size_min conf) (co_buf_size_max conf) (co_time_cache_count conf) (sy_mem w);
           let w = w\<lparr>sy_mem := m\<rparr>;
           (case t of
              None \<Rightarrow> Some (None, w)
            | Some t \<Rightarrow>
                let (ok, w) = io_ok w in
                if ok then Some (Some t, w) else do { _ \<leftarrow> zlog_thread_del t; Some (None, w) })
         });
     (case t of
        None \<Rightarrow> Some (None, e, w)
      | Some t \<Rightarrow>
          let (ok, t, m) = rebuild_thread lc conf (en_init_version e) t (sy_mem w) in
          Some (if ok then Some t else None, e\<lparr>en_threads := (en_threads e)(lc_self lc \<mapsto> t)\<rparr>, w\<lparr>sy_mem := m\<rparr>))
   }"

definition zlog_put_mdc :: "libc \<Rightarrow> string \<Rightarrow> string \<Rightarrow> 'f zlog_env \<Rightarrow> 'z os_scheme \<Rightarrow> (int \<times> 'f zlog_env \<times> 'z os_scheme) option" where
  "zlog_put_mdc lc key val e w =
     (if \<not> en_is_init e then Some (-1, e, w)
      else do {
        (t, e, w) \<leftarrow> zlog_fetch_thread lc e w;
        (case t of
           None \<Rightarrow> Some (-1, e, w)
         | Some t \<Rightarrow> do {
             (rc, _, d, m) \<leftarrow> zlog_mdc_put (th_mdc t) key val (sy_mem w);
             Some (if rc \<noteq> 0 then -1 else 0, e\<lparr>en_threads := (en_threads e)(lc_self lc \<mapsto> t\<lparr>th_mdc := d\<rparr>)\<rparr>, w\<lparr>sy_mem := m\<rparr>)
           })
      })"

definition zlog_get_mdc :: "libc \<Rightarrow> string \<Rightarrow> 'f zlog_env \<Rightarrow> string option option" where
  "zlog_get_mdc lc key e =
     (if \<not> en_is_init e then Some None
      else case en_threads e (lc_self lc) of None \<Rightarrow> Some None | Some t \<Rightarrow> zlog_mdc_get (th_mdc t) key)"

definition zlog_remove_mdc :: "libc \<Rightarrow> string \<Rightarrow> 'f zlog_env \<Rightarrow> ('f zlog_env) option" where
  "zlog_remove_mdc lc key e =
     (if \<not> en_is_init e then Some e
      else case en_threads e (lc_self lc) of
        None \<Rightarrow> Some e
      | Some t \<Rightarrow> do { (d, _) \<leftarrow> zlog_mdc_remove (th_mdc t) key; Some (e\<lparr>en_threads := (en_threads e)(lc_self lc \<mapsto> t\<lparr>th_mdc := d\<rparr>)\<rparr>) })"

definition zlog_clean_mdc :: "libc \<Rightarrow> 'f zlog_env \<Rightarrow> ('f zlog_env) option" where
  "zlog_clean_mdc lc e =
     (if \<not> en_is_init e then Some e
      else case en_threads e (lc_self lc) of
        None \<Rightarrow> Some e
      | Some t \<Rightarrow> do { (d, _) \<leftarrow> zlog_mdc_clean (th_mdc t); Some (e\<lparr>en_threads := (en_threads e)(lc_self lc \<mapsto> t\<lparr>th_mdc := d\<rparr>)\<rparr>) })"

subsection \<open>Logging\<close>

text \<open>Where a message comes from, and its level.\<close>

record log_args =
  la_file :: "string option"
  la_file_len :: nat
  la_func :: "string option"
  la_func_len :: nat
  la_line :: "64 word"
  la_level :: int

definition set_fmt :: "log_args \<Rightarrow> string option option \<Rightarrow> zlog_category \<Rightarrow> zlog_event \<Rightarrow> zlog_event" where
  "set_fmt la fmt c ev = zlog_event_set_fmt ev (ca_name c) (ca_name_len c) (la_file la) (la_file_len la) (la_func la) (la_func_len la) (la_line la)
     (la_level la) fmt"

definition set_hex :: "log_args \<Rightarrow> string option \<Rightarrow> nat \<Rightarrow> zlog_category \<Rightarrow> zlog_event \<Rightarrow> zlog_event" where
  "set_hex la buf buflen c ev = zlog_event_set_hex ev (ca_name c) (ca_name_len c) (la_file la) (la_file_len la) (la_func la) (la_func_len la) (la_line la)
     (la_level la) buf buflen"

text \<open>\<open>zlog_rule_output\<close> on the rule at an address; the rotater is that of the configuration.\<close>

definition env_out ::
  "('f \<Rightarrow> zlog_msg \<Rightarrow> 'z os_scheme \<Rightarrow> int \<times> 'z os_scheme) \<Rightarrow> libc \<Rightarrow> level_list \<Rightarrow> nat \<Rightarrow>
   'f rule_store \<times> zlog_rotater option \<times> zlog_thread \<times> 'z os_scheme \<Rightarrow>
   (int \<times> 'f rule_store \<times> zlog_rotater option \<times> zlog_thread \<times> 'z os_scheme) option" where
  "env_out call lc levels a s =
     (case s of (st, ro, t, w) \<Rightarrow> do {
        r \<leftarrow> rs_map st a;
        ro \<leftarrow> ro;
        (rc, r, ro, t, w) \<leftarrow> zlog_rule_output call lc levels r ro t w;
        Some (rc, st\<lparr>rs_map := (rs_map st)(a \<mapsto> r)\<rparr>, Some ro, t, w)
      })"

text \<open>
  The part of the logging functions under the lock, after the checks: the thread, the event, the output to the rules of the
  category, and the count of messages for the period of reloading; \<open>True\<close> is the jump to \<open>reload\<close>.
\<close>

definition log_locked ::
  "('f \<Rightarrow> zlog_msg \<Rightarrow> 'z os_scheme \<Rightarrow> int \<times> 'z os_scheme) \<Rightarrow> libc \<Rightarrow> nat option \<Rightarrow> (zlog_category \<Rightarrow> zlog_event \<Rightarrow> zlog_event) \<Rightarrow>
   'f zlog_env \<Rightarrow> 'z os_scheme \<Rightarrow> (bool \<times> 'f zlog_env \<times> 'z os_scheme) option" where
  "log_locked call lc category fill e w = do {
     (t, e, w) \<leftarrow> zlog_fetch_thread lc e w;
     (case t of
        None \<Rightarrow> Some (False, e, w)
      | Some t \<Rightarrow> do {
          a \<leftarrow> category;
          c \<leftarrow> ch_map (en_cats e) a;
          conf \<leftarrow> en_conf e;
          levels \<leftarrow> co_levels conf;
          (rc, st, ro, t, w) \<leftarrow> zlog_category_output (env_out call lc levels) c
             (en_rules e, co_rotater conf, t\<lparr>th_event := fill c (th_event t)\<rparr>, w);
          let e = e\<lparr>en_rules := st, en_conf := Some (conf\<lparr>co_rotater := ro\<rparr>), en_threads := (en_threads e)(lc_self lc \<mapsto> t)\<rparr>;
          if rc \<noteq> 0 \<or> co_reload_conf_period conf = 0 then Some (False, e, w)
          else
            let n = en_reload_conf_count e + 1 in
            Some (n > co_reload_conf_period conf, e\<lparr>en_reload_conf_count := n\<rparr>, w)
        })
   }"

text \<open>With the check for initialisation and the reload after the lock.\<close>

definition log_message ::
  "('f \<Rightarrow> zlog_msg \<Rightarrow> 'z os_scheme \<Rightarrow> int \<times> 'z os_scheme) \<Rightarrow> libc \<Rightarrow> nat option \<Rightarrow> (zlog_category \<Rightarrow> zlog_event \<Rightarrow> zlog_event) \<Rightarrow>
   'f zlog_env \<Rightarrow> 'z os_scheme \<Rightarrow> ('f zlog_env \<times> 'z os_scheme) option" where
  "log_message call lc category fill e w =
     (if \<not> en_is_init e then Some (e, w)
      else do {
        (reload, e, w) \<leftarrow> log_locked call lc category fill e w;
        if reload then do { (_, e, w) \<leftarrow> zlog_reload lc ReloadPeriod e w; Some (e, w) } else Some (e, w)
      })"

text \<open>The look at the bitmap of a category.\<close>

definition needless :: "nat \<Rightarrow> int \<Rightarrow> 'f zlog_env \<Rightarrow> bool option" where
  "needless a level e = do { c \<leftarrow> ch_map (en_cats e) a; zlog_category_needless_level c level }"

definition vzlog ::
  "('f \<Rightarrow> zlog_msg \<Rightarrow> 'z os_scheme \<Rightarrow> int \<times> 'z os_scheme) \<Rightarrow> libc \<Rightarrow> nat \<Rightarrow> log_args \<Rightarrow> string option option \<Rightarrow>
   'f zlog_env \<Rightarrow> 'z os_scheme \<Rightarrow> ('f zlog_env \<times> 'z os_scheme) option" where
  "vzlog call lc category la fmt e w = do {
     b \<leftarrow> needless category (la_level la) e;
     if b then Some (e, w) else log_message call lc (Some category) (set_fmt la fmt) e w
   }"

definition hzlog ::
  "('f \<Rightarrow> zlog_msg \<Rightarrow> 'z os_scheme \<Rightarrow> int \<times> 'z os_scheme) \<Rightarrow> libc \<Rightarrow> nat \<Rightarrow> log_args \<Rightarrow> string option \<Rightarrow> nat \<Rightarrow>
   'f zlog_env \<Rightarrow> 'z os_scheme \<Rightarrow> ('f zlog_env \<times> 'z os_scheme) option" where
  "hzlog call lc category la buf buflen e w = do {
     b \<leftarrow> needless category (la_level la) e;
     if b then Some (e, w) else log_message call lc (Some category) (set_hex la buf buflen) e w
   }"

text \<open>The functions for the default category; a null pointer is read by the first look at the bitmap.\<close>

definition default_message ::
  "('f \<Rightarrow> zlog_msg \<Rightarrow> 'z os_scheme \<Rightarrow> int \<times> 'z os_scheme) \<Rightarrow> libc \<Rightarrow> (zlog_category \<Rightarrow> zlog_event \<Rightarrow> zlog_event) \<Rightarrow>
   'f zlog_env \<Rightarrow> 'z os_scheme \<Rightarrow> ('f zlog_env \<times> 'z os_scheme) option" where
  "default_message call lc fill e w =
     (if en_is_init e \<and> en_default_category e = None then Some (e, w) else log_message call lc (en_default_category e) fill e w)"

definition vdzlog ::
  "('f \<Rightarrow> zlog_msg \<Rightarrow> 'z os_scheme \<Rightarrow> int \<times> 'z os_scheme) \<Rightarrow> libc \<Rightarrow> log_args \<Rightarrow> string option option \<Rightarrow>
   'f zlog_env \<Rightarrow> 'z os_scheme \<Rightarrow> ('f zlog_env \<times> 'z os_scheme) option" where
  "vdzlog call lc la fmt e w = do {
     a \<leftarrow> en_default_category e;
     b \<leftarrow> needless a (la_level la) e;
     if b then Some (e, w) else default_message call lc (set_fmt la fmt) e w
   }"

definition hdzlog ::
  "('f \<Rightarrow> zlog_msg \<Rightarrow> 'z os_scheme \<Rightarrow> int \<times> 'z os_scheme) \<Rightarrow> libc \<Rightarrow> log_args \<Rightarrow> string option \<Rightarrow> nat \<Rightarrow>
   'f zlog_env \<Rightarrow> 'z os_scheme \<Rightarrow> ('f zlog_env \<times> 'z os_scheme) option" where
  "hdzlog call lc la buf buflen e w = do {
     a \<leftarrow> en_default_category e;
     b \<leftarrow> needless a (la_level la) e;
     if b then Some (e, w) else default_message call lc (set_hex la buf buflen) e w
   }"

definition zlog ::
  "('f \<Rightarrow> zlog_msg \<Rightarrow> 'z os_scheme \<Rightarrow> int \<times> 'z os_scheme) \<Rightarrow> libc \<Rightarrow> nat option \<Rightarrow> log_args \<Rightarrow> string option option \<Rightarrow>
   'f zlog_env \<Rightarrow> 'z os_scheme \<Rightarrow> ('f zlog_env \<times> 'z os_scheme) option" where
  "zlog call lc category la fmt e w = do {
     b \<leftarrow> (case category of None \<Rightarrow> Some False | Some a \<Rightarrow> needless a (la_level la) e);
     if b then Some (e, w) else log_message call lc category (set_fmt la fmt) e w
   }"

definition dzlog ::
  "('f \<Rightarrow> zlog_msg \<Rightarrow> 'z os_scheme \<Rightarrow> int \<times> 'z os_scheme) \<Rightarrow> libc \<Rightarrow> log_args \<Rightarrow> string option option \<Rightarrow>
   'f zlog_env \<Rightarrow> 'z os_scheme \<Rightarrow> ('f zlog_env \<times> 'z os_scheme) option" where
  "dzlog call lc la fmt e w =
     (if \<not> en_is_init e then Some (e, w)
      else case en_default_category e of
        None \<Rightarrow> Some (e, w)
      | Some a \<Rightarrow> do {
          b \<leftarrow> needless a (la_level la) e;
          if b then Some (e, w) else log_message call lc (Some a) (set_fmt la fmt) e w
        })"

end
