(* ===== verification/Zlog_Api.thy ===== *)
theory Zlog_Api
  imports Zlog_Env
begin

text \<open>
  The library as a state machine: a program calls the functions of \<^verbatim>\<open>zlog.c\<close> in any order, from any thread, while memory, files and
  clocks answer as they like. The invariant of the states it can reach says what the functions rely on.
\<close>

subsection \<open>Calls\<close>

datatype 'f api =
    ApiInit "string option"
  | ApiDInit "string option" string
  | ApiReload reload_arg
  | ApiFini
  | ApiGetCategory string
  | ApiSetCategory string
  | ApiSetRecord string 'f
  | ApiPutMdc string string
  | ApiRemoveMdc string
  | ApiCleanMdc
  | ApiVlog nat log_args "string option option"
  | ApiHlog nat log_args "string option" nat
  | ApiVdlog log_args "string option option"
  | ApiHdlog log_args "string option" nat
  | ApiLog "nat option" log_args "string option option"
  | ApiDlog log_args "string option option"

fun run_api ::
  "('f \<Rightarrow> zlog_msg \<Rightarrow> 'z os_scheme \<Rightarrow> int \<times> 'z os_scheme) \<Rightarrow> libc \<Rightarrow> 'f api \<Rightarrow> 'f zlog_env \<Rightarrow> 'z os_scheme \<Rightarrow> ('f zlog_env \<times> 'z os_scheme) option" where
  "run_api call lc (ApiInit path) e w = map_option snd (zlog_init lc path e w)"
| "run_api call lc (ApiDInit path cname) e w = map_option snd (dzlog_init lc path cname e w)"
| "run_api call lc (ApiReload arg) e w = map_option snd (zlog_reload lc arg e w)"
| "run_api call lc ApiFini e w = zlog_fini e w"
| "run_api call lc (ApiGetCategory cname) e w = map_option snd (zlog_get_category cname e w)"
| "run_api call lc (ApiSetCategory cname) e w = map_option snd (dzlog_set_category cname e w)"
| "run_api call lc (ApiSetRecord rname f) e w = map_option snd (zlog_set_record rname f e w)"
| "run_api call lc (ApiPutMdc key val) e w = map_option snd (zlog_put_mdc lc key val e w)"
| "run_api call lc (ApiRemoveMdc key) e w = map_option (\<lambda>e. (e, w)) (zlog_remove_mdc lc key e)"
| "run_api call lc ApiCleanMdc e w = map_option (\<lambda>e. (e, w)) (zlog_clean_mdc lc e)"
| "run_api call lc (ApiVlog c la fmt) e w = vzlog call lc c la fmt e w"
| "run_api call lc (ApiHlog c la buf n) e w = hzlog call lc c la buf n e w"
| "run_api call lc (ApiVdlog la fmt) e w = vdzlog call lc la fmt e w"
| "run_api call lc (ApiHdlog la buf n) e w = hdzlog call lc la buf n e w"
| "run_api call lc (ApiLog c la fmt) e w = zlog call lc c la fmt e w"
| "run_api call lc (ApiDlog la fmt) e w = dzlog call lc la fmt e w"

text \<open>The states a process can be in between two calls.\<close>

inductive env_reachable :: "('f \<Rightarrow> zlog_msg \<Rightarrow> 'z os_scheme \<Rightarrow> int \<times> 'z os_scheme) \<Rightarrow> 'f zlog_env \<Rightarrow> bool" for call where
  start: "env_reachable call env_start"
| call: "env_reachable call e \<Longrightarrow> run_api call lc a e w = Some (e', w') \<Longrightarrow> env_reachable call e'"

subsection \<open>The invariant\<close>

definition env_ok :: "'f zlog_env \<Rightarrow> bool" where
  "env_ok e \<longleftrightarrow> (en_is_init e \<longrightarrow>
     (\<exists>conf. en_conf e = Some conf \<and> conf_strong 0 (en_rules e) conf) \<and> en_categories e \<noteq> None \<and> en_records e \<noteq> None)"

text \<open>The live rules stay live, with the same selectors.\<close>

definition keeps :: "'f rule_store \<Rightarrow> 'f rule_store \<Rightarrow> bool" where
  "keeps st st' \<longleftrightarrow> rs_brk st' = rs_brk st \<and> (\<forall>a. map_option sel_of (rs_map st' a) = map_option sel_of (rs_map st a))"

lemma keeps_refl [simp]: "keeps st st"
  by (simp add: keeps_def)

lemma keeps_trans: "keeps st st' \<Longrightarrow> keeps st' st'' \<Longrightarrow> keeps st st''"
  by (simp add: keeps_def)

lemma conf_strong_mono:
  assumes "conf_strong brk st conf" and "brk' \<le> brk" and "rs_brk st \<le> rs_brk st'"
    and "\<And>a. brk \<le> a \<Longrightarrow> a < rs_brk st \<Longrightarrow> map_option sel_of (rs_map st' a) = map_option sel_of (rs_map st a)"
  shows "conf_strong brk' st' conf"
proof -
  obtain rules as where l: "\<exists>levels. co_levels conf = Some levels \<and> level_list_ok levels" "co_formats conf \<noteq> None"
      "co_rules conf = Some rules" "al_elems rules as" "distinct as"
    and a: "\<forall>a\<in>set as. brk \<le> a \<and> a < rs_brk st \<and> (\<exists>r. rs_map st a = Some r \<and> sel_ok r)"
    using assms(1) unfolding conf_strong_def by blast
  have "brk' \<le> a \<and> a < rs_brk st' \<and> (\<exists>r. rs_map st' a = Some r \<and> sel_ok r)" if "a \<in> set as" for a
  proof -
    obtain r where r: "brk \<le> a" "a < rs_brk st" "rs_map st a = Some r" "sel_ok r" using a \<open>a \<in> set as\<close> by blast
    then obtain r' where "rs_map st' a = Some r'" "sel_of r' = sel_of r" using assms(4) [of a] by auto
    then show ?thesis using r assms(2,3) sel_ok_cong by fastforce
  qed
  then show ?thesis using l unfolding conf_strong_def by blast
qed

lemma conf_strong_keeps: "keeps st st' \<Longrightarrow> conf_strong brk st conf \<Longrightarrow> conf_strong brk st' conf"
  by (erule conf_strong_mono) (auto simp: keeps_def)

lemma set_records_keeps: "set_records records ps st = Some st' \<Longrightarrow> keeps st st'"
proof (induction records ps st rule: set_records.induct)
  case (2 records p ps st)
  then obtain a r r' where a: "p = Some a" "rs_map st a = Some r" "zlog_rule_set_record r records = Some r'"
    "set_records records ps (st\<lparr>rs_map := (rs_map st)(a \<mapsto> r')\<rparr>) = Some st'"
    by (auto simp: bind_eq_Some_conv)
  have "keeps st (st\<lparr>rs_map := (rs_map st)(a \<mapsto> r')\<rparr>)" using a(2) set_record_sel [OF a(3)] by (auto simp: keeps_def)
  then show ?case using "2.IH" a keeps_trans by blast
qed simp

lemma output_loop_inv:
  assumes "\<And>i s rc s'. P s \<Longrightarrow> out i s = Some (rc, s') \<Longrightarrow> P s'" and "P s" and "output_loop out ps rc s = Some (rc', s')"
  shows "P s'"
  using assms(2,3) by (induction ps arbitrary: rc s) (auto simp: bind_eq_Some_conv dest: assms(1))

lemma env_out_keeps: "env_out call lc levels a (st, ro, t, w) = Some (rc, st', ro', t', w') \<Longrightarrow> keeps st st'"
  by (auto simp: env_out_def bind_eq_Some_conv keeps_def rule_output_sel split: if_splits)

lemma category_output_keeps:
  assumes "zlog_category_output (env_out call lc levels) c (st, ro, t, w) = Some (rc, st', ro', t', w')"
  shows "keeps st st'"
proof -
  obtain ps where "output_loop (env_out call lc levels) ps 0 (st, ro, t, w) = Some (rc, st', ro', t', w')"
    using assms by (auto simp: zlog_category_output_def bind_eq_Some_conv)
  then have "(\<lambda>s. keeps st (fst s)) (st', ro', t', w')"
    by (rule output_loop_inv [rotated 2]) (auto dest!: env_out_keeps intro: keeps_trans)
  then show ?thesis by simp
qed

subsection \<open>Every call keeps the invariant\<close>

lemma env_ok_conf: "env_ok e \<Longrightarrow> en_is_init e \<Longrightarrow> \<exists>conf. en_conf e = Some conf \<and> conf_strong 0 (en_rules e) conf"
  by (simp add: env_ok_def)

lemma init_tables_init:
  assumes "init_tables lc path e w = Some (res, e', w')"
  shows "en_is_init e' = en_is_init e"
proof -
  obtain conf st w1 where c: "zlog_conf_new lc path (en_rules e) w = Some (conf, st, w1)" using assms by (auto simp: init_tables_def bind_eq_Some_conv)
  obtain t m1 where t: "zlog_category_table_new (sy_mem w1) = (t, m1)" by fastforce
  obtain rt :: "(string, 'a zlog_record) zc_hashtable option" and m2 where rt: "zlog_record_table_new m1 = (rt, m2)" by fastforce
  show ?thesis using assms c t rt by (auto simp: init_tables_def Let_def split: if_splits)
qed

lemma zlog_fini_inner_init: "zlog_fini_inner e w = Some (e', w') \<Longrightarrow> en_is_init e' = en_is_init e"
  by (auto simp: zlog_fini_inner_def bind_eq_Some_conv)

lemma zlog_init_inner_init:
  assumes "zlog_init_inner lc path e w = Some (rc, e', w')"
  shows "en_is_init e' = en_is_init e"
proof -
  obtain ok w1 where o: "init_once e w = (ok, w1)" by fastforce
  obtain res e1 w2 where t: "(if ok then init_tables lc path e w1 else Some (False, e, w1)) = Some (res, e1, w2)"
    using assms by (auto simp: zlog_init_inner_def o bind_eq_Some_conv)
  have "en_is_init e1 = en_is_init e" using t by (auto dest: init_tables_init split: if_splits)
  moreover have "e' = e1 \<or> (\<exists>w3. zlog_fini_inner e1 w2 = Some (e', w3))"
    using assms t by (auto simp: zlog_init_inner_def o bind_eq_Some_conv split: if_splits)
  ultimately show ?thesis using zlog_fini_inner_init by metis
qed

lemma zlog_init_inner_ok:
  assumes "zlog_init_inner lc path e w = Some (0, e', w')"
  shows "(\<exists>conf. en_conf e' = Some conf \<and> conf_strong 0 (en_rules e') conf) \<and> en_categories e' \<noteq> None \<and> en_records e' \<noteq> None"
proof -
  obtain w1 where t: "init_tables lc path e w1 = Some (True, e', w')"
    using assms by (auto simp: zlog_init_inner_def bind_eq_Some_conv Let_def split: prod.splits if_splits)
  then obtain conf st w2 where c: "zlog_conf_new lc path (en_rules e) w1 = Some (Some conf, st, w2)" and e: "en_conf e' = Some conf" "en_rules e' = st"
    and n: "en_categories e' \<noteq> None" "en_records e' \<noteq> None"
    by (auto simp: init_tables_def bind_eq_Some_conv Let_def split: prod.splits if_splits)
  have "conf_strong (rs_brk (en_rules e)) st conf" using zlog_conf_new_frame [OF c] by simp
  then have "conf_strong 0 st conf" by (rule conf_strong_mono) auto
  then show ?thesis using e n by simp
qed

lemma zlog_init_ok: "env_ok e \<Longrightarrow> zlog_init lc path e w = Some (rc, e', w') \<Longrightarrow> env_ok e'"
proof -
  assume ok: "env_ok e" and r: "zlog_init lc path e w = Some (rc, e', w')"
  show "env_ok e'"
  proof (cases "en_is_init e'")
    case True
    show ?thesis
    proof (cases "en_is_init e")
      case False
      obtain rc1 e1 w1 where i: "zlog_init_inner lc path e w = Some (rc1, e1, w1)" using r False by (auto simp: zlog_init_def bind_eq_Some_conv)
      have "rc1 = 0" "e' = e1\<lparr>en_is_init := True, en_init_version := en_init_version e1 + 1\<rparr>"
        using r False True i zlog_init_inner_init [OF i] by (auto simp: zlog_init_def split: if_splits)
      then show ?thesis using zlog_init_inner_ok [of lc path e w e1 w1] i by (simp add: env_ok_def)
    qed (use ok r in \<open>simp add: zlog_init_def\<close>)
  qed (simp add: env_ok_def)
qed

lemma env_fetch_category_frame:
  "env_fetch_category cname e w = Some (a, e', w') \<Longrightarrow>
   en_conf e' = en_conf e \<and> en_rules e' = en_rules e \<and> en_records e' = en_records e \<and> en_is_init e' = en_is_init e \<and> en_categories e' \<noteq> None"
  by (auto simp: env_fetch_category_def bind_eq_Some_conv)

lemma env_fetch_category_ok: "env_ok e \<Longrightarrow> env_fetch_category cname e w = Some (a, e', w') \<Longrightarrow> env_ok e'"
  by (auto simp: env_ok_def dest!: env_fetch_category_frame)

lemma dzlog_init_ok:
  assumes "env_ok e" and "dzlog_init lc path cname e w = Some (rc, e', w')"
  shows "env_ok e'"
proof (cases "en_is_init e")
  case False
  obtain rc1 e1 w1 where i: "zlog_init_inner lc path e w = Some (rc1, e1, w1)" using assms(2) False by (auto simp: dzlog_init_def bind_eq_Some_conv)
  have n: "\<not> en_is_init e1" using zlog_init_inner_init [OF i] False by simp
  show ?thesis
  proof (cases "rc1 = 0")
    case True
    obtain a e2 w2 where f: "env_fetch_category cname e1 w1 = Some (a, e2, w2)" using assms(2) False i True by (auto simp: dzlog_init_def bind_eq_Some_conv)
    have "e' = e2\<lparr>en_default_category := a, en_is_init := True, en_init_version := en_init_version e2 + 1\<rparr> \<or> e' = e2\<lparr>en_default_category := a\<rparr>"
      using assms(2) False i True f by (auto simp: dzlog_init_def Let_def split: if_splits)
    then show ?thesis
      using env_fetch_category_frame [OF f] zlog_init_inner_ok [of lc path e w e1 w1] i True n by (auto simp: env_ok_def)
  qed (use assms(2) False i n in \<open>auto simp: dzlog_init_def env_ok_def\<close>)
qed (use assms in \<open>simp add: dzlog_init_def\<close>)

text \<open>The reload, in its three ways to end. A failure to read the new configuration leaves everything but new addresses of rules.\<close>

lemma reload_conf_cases:
  fixes e e' :: "'f zlog_env" and w w' :: "'z os_scheme"
  assumes "reload_conf lc path e w = Some (rc, e', w')"
  obtains (unread) st where "zlog_conf_new lc path (en_rules e) w = Some (None, st, w')" "rc = -1" "e' = e\<lparr>en_rules := st\<rparr>"
  | (failed) conf st1 w1 rules ps records t st2 rcu h m st3 where "zlog_conf_new lc path (en_rules e) w = Some (Some conf, st1, w1)"
      "co_rules conf = Some rules" "zc_arraylist_foreach rules = Some ps" "en_records e = Some records" "en_categories e = Some t"
      "set_records records ps st1 = Some st2" "zlog_category_table_update_rules (rs_map st2) t (en_cats e) rules (sy_mem w1) = Some (rcu, h, m)"
      "rcu \<noteq> 0" "zlog_conf_del conf st2 (w1\<lparr>sy_mem := m\<rparr>) = Some (st3, w')" "rc = -1" "e' = e\<lparr>en_rules := st3, en_cats := h\<rparr>"
  | (reloaded) conf st1 w1 rules ps records t st2 h m h2 old st3 where "zlog_conf_new lc path (en_rules e) w = Some (Some conf, st1, w1)"
      "co_rules conf = Some rules" "zc_arraylist_foreach rules = Some ps" "en_records e = Some records" "en_categories e = Some t"
      "set_records records ps st1 = Some st2" "zlog_category_table_update_rules (rs_map st2) t (en_cats e) rules (sy_mem w1) = Some (0, h, m)"
      "zlog_category_table_commit_rules t h = Some h2" "en_conf e = Some old" "zlog_conf_del old st2 (w1\<lparr>sy_mem := m\<rparr>) = Some (st3, w')"
      "rc = 0" "e' = e\<lparr>en_rules := st3, en_cats := h2, en_init_version := en_init_version e + 1, en_conf := Some conf\<rparr>"
proof -
  obtain c and st1 :: "'f rule_store" and w1 where n: "zlog_conf_new lc path (en_rules e) w = Some (c, st1, w1)"
    using assms by (auto simp: reload_conf_def bind_eq_Some_conv)
  show ?thesis
  proof (cases c)
    case None
    then show ?thesis using unread assms n by (auto simp: reload_conf_def)
  next
    case (Some conf)
    note run = assms [unfolded reload_conf_def n bind.bind_lunit prod.case Let_def Some option.case]
    obtain rules records t ps st2 where a: "co_rules conf = Some rules" "en_records e = Some records" "en_categories e = Some t"
      "zc_arraylist_foreach rules = Some ps" "set_records records ps st1 = Some st2"
      using run by (auto simp: bind_eq_Some_conv)
    obtain rcu h m where u: "zlog_category_table_update_rules (rs_map st2) t (en_cats e) rules (sy_mem w1) = Some (rcu, h, m)"
      using run a by (auto simp: bind_eq_Some_conv)
    show ?thesis
    proof (cases "rcu = 0")
      case True
      then obtain h2 old st3 where d: "zlog_category_table_commit_rules t h = Some h2" "en_conf e = Some old" "zlog_conf_del old st2 (w1\<lparr>sy_mem := m\<rparr>) = Some (st3, w')"
        "rc = 0" "e' = e\<lparr>en_rules := st3, en_cats := h2, en_init_version := en_init_version e + 1, en_conf := Some conf\<rparr>"
        using run a u by (auto simp: bind_eq_Some_conv)
      show ?thesis by (rule reloaded [OF n [unfolded Some] a(1,4,2,3,5) u [unfolded True] d])
    next
      case False
      then obtain st3 where d: "zlog_conf_del conf st2 (w1\<lparr>sy_mem := m\<rparr>) = Some (st3, w')" "rc = -1" "e' = e\<lparr>en_rules := st3, en_cats := h\<rparr>"
        using run a u by (auto simp: bind_eq_Some_conv)
      show ?thesis by (rule failed [OF n [unfolded Some] a(1,4,2,3,5) u False d])
    qed
  qed
qed

text \<open>Deleting a configuration frees the rules of its list and no other.\<close>

lemma del_rule_list_others:
  "del_rule_list as st w = Some (st', w') \<Longrightarrow> rs_brk st' = rs_brk st \<and> (\<forall>a. a \<notin> set as \<longrightarrow> rs_map st' a = rs_map st a)"
  by (induction as st w rule: del_rule_list.induct) (fastforce simp: bind_eq_Some_conv)+

lemma zlog_conf_del_others:
  assumes "zlog_conf_del conf st w = Some (st', w')" and "conf_strong brk st0 conf"
  shows "rs_brk st' = rs_brk st" and "rs_brk st0 \<le> a \<Longrightarrow> rs_map st' a = rs_map st a"
proof -
  obtain rules as where r: "co_rules conf = Some rules" "al_elems rules as" "\<forall>a\<in>set as. a < rs_brk st0"
    using assms(2) by (auto simp: conf_strong_def)
  obtain bs w1 where d: "zc_arraylist_del (Some rules) = Some bs" "del_rule_list bs st w1 = Some (st', w')"
    using assms(1) r(1) by (auto simp: zlog_conf_del_def bind_eq_Some_conv Let_def)
  have "set bs \<subseteq> set as" using d(1) r(2) zc_arraylist_del_rep [of rules] by (auto simp: al_elems_def)
  then show "rs_brk st' = rs_brk st" and "rs_brk st0 \<le> a \<Longrightarrow> rs_map st' a = rs_map st a"
    using del_rule_list_others [OF d(2)] r(3) by (blast, meson leD subsetD)
qed

lemma conf_strong_ext: "conf_strong brk st conf \<Longrightarrow> store_ext (rs_brk st) st st' \<Longrightarrow> conf_strong brk st' conf"
  by (erule conf_strong_mono) (auto simp: store_ext_def)

lemma conf_weak_mono: "conf_weak brk conf \<Longrightarrow> brk' \<le> brk \<Longrightarrow> conf_weak brk' conf"
  unfolding conf_weak_def by (meson le_trans)

lemma keeps_None: "keeps st st' \<Longrightarrow> rs_map st' a = None \<longleftrightarrow> rs_map st a = None"
  by (metis keeps_def map_option_is_None)

text \<open>A failed reload leaves the rules of the configuration in force where they were.\<close>

lemma reload_failed_rules:
  assumes "reload_conf lc path e w = Some (rc, e', w')" and "rc \<noteq> 0"
  shows "rs_brk (en_rules e) \<le> rs_brk (en_rules e') \<and>
    (\<forall>a<rs_brk (en_rules e). map_option sel_of (rs_map (en_rules e') a) = map_option sel_of (rs_map (en_rules e) a))"
  using assms(1)
proof (cases rule: reload_conf_cases)
  case (unread st)
  then show ?thesis using zlog_conf_new_frame [OF unread(1)] by (simp add: store_ext_def)
next
  case (failed conf st1 w1 rules ps records t st2 rcu h m st3)
  have f: "store_ext (rs_brk (en_rules e)) (en_rules e) st1" "conf_strong (rs_brk (en_rules e)) st1 conf"
    using zlog_conf_new_frame [OF failed(1)] by auto
  have "store_ext (rs_brk (en_rules e)) st2 st3" by (rule zlog_conf_del_frame [OF failed(9) conf_strong_weak [OF f(2)]])
  then show ?thesis
    using failed(11) f(1) set_records_keeps [OF failed(6)] by (simp add: store_ext_def keeps_def)
next
  case reloaded
  then show ?thesis using assms(2) by simp
qed

lemma reload_ok:
  assumes "env_ok e" and "en_is_init e" and "reload_conf lc path e w = Some (rc, e', w')"
  shows "env_ok e'"
proof -
  obtain old where old: "en_conf e = Some old" "conf_strong 0 (en_rules e) old" using env_ok_conf [OF assms(1,2)] by blast
  have kept: "conf_strong 0 (en_rules e') old" if "rc \<noteq> 0"
    using old(2) reload_failed_rules [OF assms(3) that] by (auto elim!: conf_strong_mono)
  show ?thesis
    using assms(3)
  proof (cases rule: reload_conf_cases)
    case unread
    then show ?thesis using kept assms(1) old(1) by (simp add: env_ok_def)
  next
    case failed
    then show ?thesis using kept assms(1) old(1) by (simp add: env_ok_def)
  next
    case (reloaded conf st1 w1 rules ps records t st2 h m h2 old' st3)
    have f: "store_ext (rs_brk (en_rules e)) (en_rules e) st1" "conf_strong (rs_brk (en_rules e)) st1 conf"
      using zlog_conf_new_frame [OF reloaded(1)] by auto
    have s2: "conf_strong (rs_brk (en_rules e)) st2 conf" by (rule conf_strong_keeps [OF set_records_keeps [OF reloaded(6)] f(2)])
    have "old' = old" using reloaded(9) old(1) by simp
    with reloaded(10) have "zlog_conf_del old st2 (w1\<lparr>sy_mem := m\<rparr>) = Some (st3, w')" by simp
    note d = zlog_conf_del_others [OF this old(2)]
    have "conf_strong 0 st3 conf" using s2 by (rule conf_strong_mono) (use d in auto)
    then show ?thesis using reloaded(12) assms(1) by (simp add: env_ok_def)
  qed
qed

lemma zlog_reload_ok: "env_ok e \<Longrightarrow> zlog_reload lc arg e w = Some (rc, e', w') \<Longrightarrow> env_ok e'"
proof -
  assume a: "env_ok e" "zlog_reload lc arg e w = Some (rc, e', w')"
  have "e' = e \<or> en_is_init e \<and> (\<exists>path. reload_conf lc path (e\<lparr>en_reload_conf_count := 0\<rparr>) w = Some (rc, e', w'))"
    using a(2) by (auto simp: zlog_reload_def bind_eq_Some_conv Let_def split: if_splits reload_arg.splits)
  moreover have "env_ok (e\<lparr>en_reload_conf_count := 0\<rparr>)" using a(1) by (simp add: env_ok_def)
  ultimately show "env_ok e'" using a(1) reload_ok by fastforce
qed

subsection \<open>Calls that leave the configuration\<close>

lemma zlog_fini_ok: "zlog_fini e w = Some (e', w') \<Longrightarrow> env_ok e'"
  by (auto simp: zlog_fini_def env_ok_def bind_eq_Some_conv split: if_splits)

lemma zlog_set_record_frame:
  assumes "zlog_set_record rname f e w = Some (rc, e', w')"
  shows "e' = e \<or> (\<exists>records st. e' = e\<lparr>en_records := Some records, en_rules := st\<rparr> \<and> keeps (en_rules e) st)"
proof -
  consider "e' = e" | records where "e' = e\<lparr>en_records := Some records\<rparr>"
    | records st where "e' = e\<lparr>en_records := Some records, en_rules := st\<rparr>" "keeps (en_rules e) st"
    using assms by (auto simp: zlog_set_record_def bind_eq_Some_conv Let_def dest: set_records_keeps split: if_splits option.splits prod.splits)
  then show ?thesis
  proof cases
    case (2 records)
    then have "e' = e\<lparr>en_records := Some records, en_rules := en_rules e\<rparr>" by simp
    then show ?thesis using keeps_refl by blast
  qed blast+
qed

lemma zlog_set_record_ok:
  assumes "env_ok e" and "zlog_set_record rname f e w = Some (rc, e', w')"
  shows "env_ok e'"
  using zlog_set_record_frame [OF assms(2)] assms(1) by (auto simp: env_ok_def intro: conf_strong_keeps)

lemma env_ok_threads [simp]: "env_ok (e\<lparr>en_threads := ts\<rparr>) = env_ok e"
  by (simp add: env_ok_def)

lemma bind_pairE:
  assumes "x \<bind> (\<lambda>(a, b). f a b) = Some r"
  obtains a b where "x = Some (a, b)" "f a b = Some r"
  using assms by (cases x) auto

lemma zlog_fetch_thread_frame:
  assumes "zlog_fetch_thread lc e w = Some (t, e', w')"
  shows "\<exists>ts. e' = e\<lparr>en_threads := ts\<rparr>"
proof -
  obtain conf where "en_conf e = Some conf" using assms by (auto simp: zlog_fetch_thread_def bind_eq_Some_conv)
  note run = assms [unfolded zlog_fetch_thread_def this bind.bind_lunit]
  show ?thesis
    using run
  proof (rule bind_pairE)
    fix t1 w1
    assume "(case t1 of None \<Rightarrow> Some (None, e, w1)
      | Some t \<Rightarrow> let (ok, t, m) = rebuild_thread lc conf (en_init_version e) t (sy_mem w1) in
          Some (if ok then Some t else None, e\<lparr>en_threads := (en_threads e)(lc_self lc \<mapsto> t)\<rparr>, w1\<lparr>sy_mem := m\<rparr>)) = Some (t, e', w')"
    then show ?thesis by (cases t1) (auto split: prod.splits intro: exI [of _ "en_threads e"])
  qed
qed

lemma zlog_fetch_thread_ok: "zlog_fetch_thread lc e w = Some (t, e', w') \<Longrightarrow> env_ok e' = env_ok e"
  by (auto dest!: zlog_fetch_thread_frame)

lemma zlog_put_mdc_ok:
  assumes "env_ok e" and "zlog_put_mdc lc key val e w = Some (rc, e', w')"
  shows "env_ok e'"
proof (cases "en_is_init e")
  case True
  then obtain t e1 w1 where f: "zlog_fetch_thread lc e w = Some (t, e1, w1)" using assms(2) by (auto simp: zlog_put_mdc_def bind_eq_Some_conv)
  then show ?thesis
    using assms True zlog_fetch_thread_ok [OF f] by (cases t) (auto simp: zlog_put_mdc_def bind_eq_Some_conv)
qed (use assms in \<open>simp add: zlog_put_mdc_def\<close>)

lemma zlog_remove_mdc_ok: "env_ok e \<Longrightarrow> zlog_remove_mdc lc key e = Some e' \<Longrightarrow> env_ok e'"
  by (auto simp: zlog_remove_mdc_def bind_eq_Some_conv split: if_splits option.splits)

lemma zlog_clean_mdc_ok: "env_ok e \<Longrightarrow> zlog_clean_mdc lc e = Some e' \<Longrightarrow> env_ok e'"
  by (auto simp: zlog_clean_mdc_def bind_eq_Some_conv split: if_splits option.splits)

subsection \<open>Logging\<close>

lemma log_locked_frame:
  assumes "log_locked call lc category fill e w = Some (again, e', w')"
  obtains (unlogged) ts where "e' = e\<lparr>en_threads := ts\<rparr>"
  | (logged) conf st ro ts n where "en_conf e = Some conf" "keeps (en_rules e) st"
      "e' = e\<lparr>en_rules := st, en_conf := Some (conf\<lparr>co_rotater := ro\<rparr>), en_threads := ts, en_reload_conf_count := n\<rparr>"
proof -
  obtain t e1 w1 where f: "zlog_fetch_thread lc e w = Some (t, e1, w1)" using assms by (auto simp: log_locked_def bind_eq_Some_conv)
  obtain ts where e1: "e1 = e\<lparr>en_threads := ts\<rparr>" using zlog_fetch_thread_frame [OF f] by blast
  show ?thesis
  proof (cases t)
    case None
    then show ?thesis using assms f e1 unlogged by (auto simp: log_locked_def)
  next
    case (Some th)
    note run = assms [unfolded log_locked_def f bind.bind_lunit prod.case Some option.case Let_def]
    obtain a c conf levels where p: "category = Some a" "ch_map (en_cats e1) a = Some c" "en_conf e1 = Some conf" "co_levels conf = Some levels"
      using run by (auto simp: bind_eq_Some_conv)
    obtain rc st ro t2 w2 where o: "zlog_category_output (env_out call lc levels) c (en_rules e1, co_rotater conf, th\<lparr>th_event := fill c (th_event th)\<rparr>, w1) = Some (rc, st, ro, t2, w2)"
      using run p by (auto simp: bind_eq_Some_conv)
    obtain n where "e' = e1\<lparr>en_rules := st, en_conf := Some (conf\<lparr>co_rotater := ro\<rparr>), en_threads := (en_threads e1)(lc_self lc \<mapsto> t2), en_reload_conf_count := n\<rparr>"
      using run p o that [of "en_reload_conf_count e1"] by (auto split: if_splits)
    then show ?thesis using logged [of conf st] p(3) category_output_keeps [OF o] e1 by simp
  qed
qed

lemma log_locked_ok:
  assumes "env_ok e" and "log_locked call lc category fill e w = Some (again, e', w')"
  shows "env_ok e'"
  using assms(2) by (cases rule: log_locked_frame) (use assms(1) in \<open>auto simp: env_ok_def intro: conf_strong_keeps\<close>)

lemma log_message_ok:
  assumes "env_ok e" and "log_message call lc category fill e w = Some (e', w')"
  shows "env_ok e'"
proof -
  consider "e' = e" | again e1 w1 where "log_locked call lc category fill e w = Some (again, e1, w1)"
    "e' = e1 \<or> (\<exists>rc. zlog_reload lc ReloadPeriod e1 w1 = Some (rc, e', w'))"
    using assms(2) by (auto simp: log_message_def bind_eq_Some_conv split: if_splits)
  then show ?thesis using assms(1) by cases (auto dest: log_locked_ok zlog_reload_ok)
qed

lemma env_ok_default [simp]: "env_ok (e\<lparr>en_default_category := d\<rparr>) = env_ok e"
  by (simp add: env_ok_def)

lemma zlog_get_category_ok: "env_ok e \<Longrightarrow> zlog_get_category cname e w = Some (a, e', w') \<Longrightarrow> env_ok e'"
  by (auto simp: zlog_get_category_def split: if_splits dest: env_fetch_category_ok)

lemma dzlog_set_category_ok: "env_ok e \<Longrightarrow> dzlog_set_category cname e w = Some (rc, e', w') \<Longrightarrow> env_ok e'"
  by (auto simp: dzlog_set_category_def bind_eq_Some_conv split: if_splits dest: env_fetch_category_ok)

text \<open>The logging functions look at the bitmap, and then log or leave everything.\<close>

lemma logging_ok:
  "env_ok e \<Longrightarrow> vzlog call lc a la fmt e w = Some (e', w') \<Longrightarrow> env_ok e'"
  "env_ok e \<Longrightarrow> hzlog call lc a la buf n e w = Some (e', w') \<Longrightarrow> env_ok e'"
  "env_ok e \<Longrightarrow> vdzlog call lc la fmt e w = Some (e', w') \<Longrightarrow> env_ok e'"
  "env_ok e \<Longrightarrow> hdzlog call lc la buf n e w = Some (e', w') \<Longrightarrow> env_ok e'"
  "env_ok e \<Longrightarrow> zlog call lc c la fmt e w = Some (e', w') \<Longrightarrow> env_ok e'"
  "env_ok e \<Longrightarrow> dzlog call lc la fmt e w = Some (e', w') \<Longrightarrow> env_ok e'"
  by (auto simp: vzlog_def hzlog_def vdzlog_def hdzlog_def default_message_def zlog_def dzlog_def bind_eq_Some_conv
      split: if_splits option.splits dest: log_message_ok)

lemmas env_call_ok = zlog_init_ok dzlog_init_ok zlog_reload_ok zlog_fini_ok zlog_get_category_ok dzlog_set_category_ok
  zlog_set_record_ok zlog_put_mdc_ok zlog_remove_mdc_ok zlog_clean_mdc_ok logging_ok

lemma run_api_ok: "env_ok e \<Longrightarrow> run_api call lc a e w = Some (e', w') \<Longrightarrow> env_ok e'"
  by (cases a) (auto dest: env_call_ok)

lemma env_reachable_ok: "env_reachable call e \<Longrightarrow> env_ok e"
  by (induction rule: env_reachable.induct) (simp add: env_ok_def env_start_def, rule run_api_ok)

subsection \<open>Properties\<close>

text \<open>C5: In every state a program can reach by calls of the interface, in any order and with any answers of memory, files and
  clocks, an initialised process has a configuration with its lists, a well formed list of levels, the tables of categories and of records, and
  every rule of the configuration is a live block whose bitmap holds exactly the levels its selector lets through: no call of the library, a reload in particular, leaves a freed rule in the
  configuration in force.\<close>

theorem zlog_env_invariant:
  assumes "env_reachable call e"
  shows "env_ok e"
  using assms by (rule env_reachable_ok)

text \<open>A process that has read an empty configuration file.\<close>

definition sample_conf_os :: "string \<Rightarrow> os" where
  "sample_conf_os path = (sample_os [(path, 5)])\<lparr>os_data := \<lambda>_. []\<rparr>"

lemma sample_conf_os_mem [simp]:
  "sy_mem (sample_conf_os path) = []" "os_io (sample_conf_os path) = []" "(sample_conf_os path)\<lparr>sy_mem := []\<rparr> = sample_conf_os path"
  by (simp_all add: sample_conf_os_def sample_os_def)

lemma fresh_levels_new: "zlog_level_list_new [] = Some (Some fresh_levels, [])"
  using level_list_new_ok by (auto simp: fresh_levels_def)

lemma sample_conf_new:
  assumes "path = c # cs" and "length path \<le> MAXLEN_PATH"
  shows "\<exists>conf. zlog_conf_new sample_libc (Some path) (st :: unit rule_store) (sample_conf_os path) = Some (Some conf, st, sample_conf_os path) \<and>
    co_rules conf = fst (zc_arraylist_new True [])"
  using assms
  by (simp add: zlog_conf_new_def conf_lists_def fresh_levels_new zc_arraylist_new_def conf_defaults_def zero_conf_def
      zlog_conf_build_with_file_def conf_lines.simps [of _ "[]"] os_stat_def os_fopen_r_def file_text_def io_ok_def sample_conf_os_def
      sample_os_def Let_def)

lemma sample_init:
  assumes "path = c # cs" and "length path \<le> MAXLEN_PATH"
  shows "\<exists>e conf. zlog_init sample_libc (Some path) (env_start :: unit zlog_env) (sample_conf_os path) = Some (0, e, sample_conf_os path) \<and>
    en_is_init e \<and> en_conf e = Some conf \<and> co_rules conf = fst (zc_arraylist_new True []) \<and> en_categories e = fst (zlog_category_table_new [])"
  using sample_conf_new [OF assms, of "en_rules env_start"]
  by (auto simp: zlog_init_def zlog_init_inner_def init_once_def init_tables_def io_ok_def env_start_def
      zlog_category_table_new_def zlog_record_table_new_def zc_hashtable_new_def Let_def)

lemma sample_init_path: "''c'' = CHR ''c'' # []" "length ''c'' \<le> MAXLEN_PATH"
  by (simp_all add: MAXLEN_PATH_def)

theorem zlog_env_invariant_witness:
  "\<exists>e. env_reachable no_call e \<and> en_is_init e \<and> env_ok e"
proof -
  obtain e :: "unit zlog_env" where i: "zlog_init sample_libc (Some ''c'') env_start (sample_conf_os ''c'') = Some (0, e, sample_conf_os ''c'')" "en_is_init e"
    using sample_init [OF sample_init_path] by blast
  then have "run_api no_call sample_libc (ApiInit (Some ''c'')) env_start (sample_conf_os ''c'') = Some (e, sample_conf_os ''c'')" by simp
  then have "env_reachable no_call e" by (rule env_reachable.call [OF env_reachable.start])
  then show ?thesis using i(2) zlog_env_invariant by blast
qed


text \<open>Memory runs out at once.\<close>

lemma sample_reload:
  assumes "en_is_init e" and "env_ok e"
  shows "\<exists>rc e' w'. zlog_reload sample_libc (ReloadPath ''c'') e ((sample_conf_os ''c'')\<lparr>sy_mem := [False]\<rparr>) = Some (rc, e', w') \<and> rc \<noteq> 0"
  using env_ok_conf [OF assms(2,1)] assms(1)
  by (auto simp: zlog_reload_def reload_conf_def zlog_conf_new_def Let_def)


text \<open>
  What such a reload does not restore: a category whose update failed has no list of rules, and the next message its bitmap lets
  through reads the null pointer. \<open>zlog_category_table_rollback_rules\<close>, which would put the list back, is not called.
\<close>

lemma update_failed_output:
  assumes "zlog_category_update_rules rh c new_rules m = Some (rc, c', m')" and "rc \<noteq> 0"
  shows "ca_fit_rules c' = None" and "zlog_category_output out c' s = None"
  using assms by (auto simp: zlog_category_update_rules_def zlog_category_output_def bind_eq_Some_conv split: if_splits)

end
