(* ===== verification/Zlog_Routes.thy ===== *)
theory Zlog_Routes
  imports Zlog_Api
begin

text \<open>
  Where messages go. A category keeps its own list of the rules that match its name; the lists are made when the category is made and
  again by every reload, and logging only reads them. This theory follows the lists through the calls of the interface: unless a reload
  runs out of memory in the middle of the table of categories, every category has exactly the rules of the configuration in force that
  match its name.
\<close>

subsection \<open>Rules with the same selectors\<close>

lemma sel_of_decides:
  assumes "sel_of r' = sel_of r"
  shows "rule_fits r' name = rule_fits r name" and "zlog_rule_is_wastebin r' = zlog_rule_is_wastebin r" and "rule_passes r' lv = rule_passes r lv"
proof -
  have "ru_category r' = ru_category r" "ru_compare_char r' = ru_compare_char r" "ru_level r' = ru_level r"
    using assms by (simp_all add: sel_of_def)
  note eq = this rule_fits_def zlog_rule_match_category_def zlog_rule_is_wastebin_def rule_passes_def
  show "rule_fits r' name = rule_fits r name" and "zlog_rule_is_wastebin r' = zlog_rule_is_wastebin r" and "rule_passes r' lv = rule_passes r lv"
    unfolding eq by (rule refl)+
qed

definition same_sels :: "'f rule_store \<Rightarrow> 'f rule_store \<Rightarrow> nat list \<Rightarrow> bool" where
  "same_sels st st' ids \<longleftrightarrow> (\<forall>i\<in>set ids. map_option sel_of (rs_map st' i) = map_option sel_of (rs_map st i))"

lemma same_sels_rule:
  assumes "same_sels st st' ids" and "rules_ok (rs_map st) ids" and "i \<in> set ids"
  obtains r r' where "rs_map st i = Some r" "rs_map st' i = Some r'" "sel_of r' = sel_of r" "sel_ok r"
proof -
  obtain r where r: "rs_map st i = Some r" "sel_ok r" using assms(2,3) by (auto simp: rules_ok_def)
  moreover have "map_option sel_of (rs_map st' i) = map_option sel_of (rs_map st i)" using assms(1,3) by (simp add: same_sels_def)
  ultimately show ?thesis using that by auto
qed

lemma same_sels_rules_ok:
  assumes "same_sels st st' ids" and "rules_ok (rs_map st) ids"
  shows "rules_ok (rs_map st') ids"
  unfolding rules_ok_def
proof
  fix i assume "i \<in> set ids"
  then obtain r r' where "rs_map st i = Some r" "rs_map st' i = Some r'" "sel_of r' = sel_of r" "sel_ok r" by (rule same_sels_rule [OF assms])
  then show "\<exists>r. rs_map st' i = Some r \<and> sel_ok r" using sel_ok_cong by blast
qed

lemma same_sels_decides:
  assumes "same_sels st st' ids" and "rules_ok (rs_map st) ids" and "i \<in> set ids"
  shows "rule_fits (the (rs_map st' i)) name = rule_fits (the (rs_map st i)) name"
    and "zlog_rule_is_wastebin (the (rs_map st' i)) = zlog_rule_is_wastebin (the (rs_map st i))"
    and "rule_passes (the (rs_map st' i)) lv = rule_passes (the (rs_map st i)) lv"
proof -
  obtain r r' where "rs_map st i = Some r" "rs_map st' i = Some r'" "sel_of r' = sel_of r" "sel_ok r" by (rule same_sels_rule [OF assms])
  then show "rule_fits (the (rs_map st' i)) name = rule_fits (the (rs_map st i)) name"
    and "zlog_rule_is_wastebin (the (rs_map st' i)) = zlog_rule_is_wastebin (the (rs_map st i))"
    and "rule_passes (the (rs_map st' i)) lv = rule_passes (the (rs_map st i)) lv"
    using sel_of_decides by simp_all
qed

lemma same_sels_fit_ids:
  assumes "same_sels st st' ids" and "rules_ok (rs_map st) ids"
  shows "fit_ids (rs_map st') name ids = fit_ids (rs_map st) name ids"
proof -
  have "filter (\<lambda>i. rule_fits (the (rs_map st' i)) name) ids = filter (\<lambda>i. rule_fits (the (rs_map st i)) name) ids"
    by (rule filter_cong [OF refl]) (rule same_sels_decides(1) [OF assms])
  moreover have "filter (\<lambda>i. zlog_rule_is_wastebin (the (rs_map st' i))) ids = filter (\<lambda>i. zlog_rule_is_wastebin (the (rs_map st i))) ids"
    by (rule filter_cong [OF refl]) (rule same_sels_decides(2) [OF assms])
  ultimately show ?thesis by (simp add: fit_ids_def)
qed

lemma same_sels_category_ok:
  assumes "same_sels st st' ids" and "category_ok (rs_map st) c ids"
  shows "category_ok (rs_map st') c ids"
proof -
  have r: "rules_ok (rs_map st) ids" using assms(2) by (simp add: category_ok_def)
  show ?thesis
    using assms(2) same_sels_rules_ok [OF assms(1) r] same_sels_decides(3) [OF assms(1) r] by (auto simp: category_ok_def)
qed

lemma same_sels_mono: "same_sels st st' ids \<Longrightarrow> set ids' \<subseteq> set ids \<Longrightarrow> same_sels st st' ids'"
  by (auto simp: same_sels_def)

lemma keeps_same_sels: "keeps st st' \<Longrightarrow> same_sels st st' ids"
  by (simp add: keeps_def same_sels_def)

subsection \<open>Every category has its rules\<close>

definition cats_routed :: "'f rule_store \<Rightarrow> category_table \<Rightarrow> cat_heap \<Rightarrow> nat list \<Rightarrow> bool" where
  "cats_routed st t h ids \<longleftrightarrow> table_steady t h \<and>
     (\<forall>v\<in>ran (ht_abs t). \<exists>c. ch_map h v = Some c \<and> category_ok (rs_map st) c (fit_ids (rs_map st) (ca_name c) ids))"

definition env_routes :: "'f zlog_env \<Rightarrow> bool" where
  "env_routes e \<longleftrightarrow> (\<exists>conf rules ids t. en_conf e = Some conf \<and> co_rules conf = Some rules \<and> al_elems rules ids \<and>
     rules_ok (rs_map (en_rules e)) ids \<and> en_categories e = Some t \<and> cats_routed (en_rules e) t (en_cats e) ids)"

lemma cats_routed_cong:
  assumes "same_sels st st' ids" and "rules_ok (rs_map st) ids" and "cats_routed st t h ids"
  shows "cats_routed st' t h ids"
proof -
  have "category_ok (rs_map st') c (fit_ids (rs_map st') name ids)" if "category_ok (rs_map st) c (fit_ids (rs_map st) name ids)" for c name
    using same_sels_category_ok [OF same_sels_mono [OF assms(1) fit_ids_subset] that] same_sels_fit_ids [OF assms(1,2)] by simp
  then show ?thesis using assms(3) unfolding cats_routed_def by blast
qed

text \<open>What most calls do: the categories and the list of rules stay, and the live rules keep their selectors.\<close>

definition env_kept :: "'f zlog_env \<Rightarrow> 'f zlog_env \<Rightarrow> bool" where
  "env_kept e e' \<longleftrightarrow> en_is_init e' = en_is_init e \<and> en_categories e' = en_categories e \<and> en_cats e' = en_cats e \<and>
     map_option co_rules (en_conf e') = map_option co_rules (en_conf e) \<and> keeps (en_rules e) (en_rules e')"

lemma env_kept_refl [simp]: "env_kept e e"
  by (simp add: env_kept_def)

lemma env_kept_routes:
  assumes "env_routes e" and "en_categories e' = en_categories e" and "en_cats e' = en_cats e"
    and "map_option co_rules (en_conf e') = map_option co_rules (en_conf e)"
    and "\<And>conf rules ids. en_conf e = Some conf \<Longrightarrow> co_rules conf = Some rules \<Longrightarrow> al_elems rules ids \<Longrightarrow> same_sels (en_rules e) (en_rules e') ids"
  shows "env_routes e'"
proof -
  obtain conf rules ids t where r: "en_conf e = Some conf" "co_rules conf = Some rules" "al_elems rules ids" "rules_ok (rs_map (en_rules e)) ids"
    "en_categories e = Some t" "cats_routed (en_rules e) t (en_cats e) ids" using assms(1) by (auto simp: env_routes_def)
  obtain conf' where c: "en_conf e' = Some conf'" "co_rules conf' = Some rules" using assms(4) r(1,2) by auto
  note s = assms(5) [OF r(1-3)]
  show ?thesis unfolding env_routes_def
    using c r(3) same_sels_rules_ok [OF s r(4)] cats_routed_cong [OF s r(4,6)] assms(2,3) r(5) by auto
qed

lemma env_routes_kept: "env_kept e e' \<Longrightarrow> env_routes e \<Longrightarrow> env_routes e'"
  by (rule env_kept_routes) (auto simp: env_kept_def keeps_same_sels)

subsection \<open>Starting\<close>

lemma cats_routed_new:
  assumes "zlog_category_table_new m = (Some t, m')"
  shows "cats_routed st t h ids"
  using str_table_new [OF assms [unfolded zlog_category_table_new_def]] by (simp add: cats_routed_def table_steady_def table_ok_def)

lemma conf_strong_rules:
  assumes "conf_strong brk st conf"
  obtains rules ids where "co_rules conf = Some rules" "al_elems rules ids" "rules_ok (rs_map st) ids" "\<forall>i\<in>set ids. brk \<le> i"
  using assms unfolding conf_strong_def rules_ok_def by blast

lemma zlog_init_inner_routes:
  assumes "zlog_init_inner lc path e w = Some (0, e', w')"
  shows "env_routes e'"
proof -
  obtain w1 where "init_tables lc path e w1 = Some (True, e', w')"
    using assms by (auto simp: zlog_init_inner_def bind_eq_Some_conv Let_def split: prod.splits if_splits)
  then obtain t m m' where t: "zlog_category_table_new m = (Some t, m')" "en_categories e' = Some t"
    by (auto simp: init_tables_def bind_eq_Some_conv Let_def split: prod.splits if_splits)
  obtain conf where c: "en_conf e' = Some conf" "conf_strong 0 (en_rules e') conf" using zlog_init_inner_ok [OF assms] by blast
  obtain rules ids where "co_rules conf = Some rules" "al_elems rules ids" "rules_ok (rs_map (en_rules e')) ids" by (rule conf_strong_rules [OF c(2)])
  then show ?thesis unfolding env_routes_def using c(1) t(2) cats_routed_new [OF t(1)] by blast
qed

subsection \<open>New categories\<close>

lemma cats_routed_insert:
  assumes "cats_routed st t h ids" and "ht_abs t cname = None" and "str_table t1" and "ht_abs t1 = (ht_abs t)(cname \<mapsto> ch_brk h)"
    and "ca_name ca = cname" and "steady ca" and "category_ok (rs_map st) ca (fit_ids (rs_map st) cname ids)"
  shows "cats_routed st t1 (h\<lparr>ch_map := (ch_map h)(ch_brk h \<mapsto> ca), ch_brk := ch_brk h + 1\<rparr>) ids"
proof -
  let ?h = "h\<lparr>ch_map := (ch_map h)(ch_brk h \<mapsto> ca), ch_brk := ch_brk h + 1\<rparr>"
  have tok: "table_ok t h" and sty: "\<forall>v\<in>ran (ht_abs t). \<exists>c. ch_map h v = Some c \<and> steady c"
    and cok: "\<forall>v\<in>ran (ht_abs t). \<exists>c. ch_map h v = Some c \<and> category_ok (rs_map st) c (fit_ids (rs_map st) (ca_name c) ids)"
    using assms(1) by (simp_all add: cats_routed_def table_steady_def)
  have old: "v \<noteq> ch_brk h" if "v \<in> ran (ht_abs t)" for v using tok that by (auto simp: table_ok_def ran_def)
  have rn: "ran (ht_abs t1) = insert (ch_brk h) (ran (ht_abs t))" using assms(2,4) by simp
  have "\<forall>k a. ht_abs t1 k = Some a \<longrightarrow> a < ch_brk ?h \<and> (\<exists>c. ch_map ?h a = Some c \<and> ca_name c = k)"
    using tok assms(5) unfolding assms(4) table_ok_def by (fastforce split: if_splits)
  then have "table_ok t1 ?h" using assms(3) by (simp add: table_ok_def)
  moreover have "\<forall>v\<in>ran (ht_abs t1). \<exists>c. ch_map ?h v = Some c \<and> steady c" using rn sty old assms(6) by simp
  moreover have "\<forall>v\<in>ran (ht_abs t1). \<exists>c. ch_map ?h v = Some c \<and> category_ok (rs_map st) c (fit_ids (rs_map st) (ca_name c) ids)"
    using rn cok old assms(5,7) by simp
  ultimately show ?thesis by (simp add: cats_routed_def table_steady_def)
qed

lemma fetch_routed:
  assumes "cats_routed st t h ids" and "rules_ok (rs_map st) ids" and "al_elems rules ids"
    and "zlog_category_table_fetch_category (rs_map st) t h cname rules m = Some (a, t', h', m')"
  shows "cats_routed st t' h' ids" and "a = Some v \<Longrightarrow> ht_abs t' cname = Some v"
proof -
  have st: "str_table t" using assms(1) by (simp add: cats_routed_def table_steady_def table_ok_def)
  have main: "cats_routed st t' h' ids \<and> (a = Some v \<longrightarrow> ht_abs t' cname = Some v)" for v
  proof (cases "ht_abs t cname")
    case (Some b)
    then show ?thesis using assms(1,4) str_get [OF st] by (simp add: zlog_category_table_fetch_category_def)
  next
    case None
    then obtain c m1 where n: "zlog_category_new (rs_map st) cname rules m = Some (c, m1)"
      using assms(4) str_get [OF st] by (auto simp: zlog_category_table_fetch_category_def bind_eq_Some_conv)
    show ?thesis
    proof (cases c)
      case None
      then show ?thesis using assms(1,4) str_get [OF st] n \<open>ht_abs t cname = None\<close> by (simp add: zlog_category_table_fetch_category_def)
    next
      case (Some ca)
      then have ca: "ca_name ca = cname" "steady ca" "category_ok (rs_map st) ca (fit_ids (rs_map st) cname ids)"
        using category_new_ok [OF assms(2,3) n] by auto
      obtain rc ds t1 m2 where p: "zc_hashtable_put t cname (ch_brk h) m1 = Some (rc, ds, t1, m2)" "str_table t1"
          "rc = 0 \<and> ht_abs t1 = (ht_abs t)(cname \<mapsto> ch_brk h) \<or> rc = -1 \<and> ht_abs t1 = ht_abs t"
        using str_put [OF st, of cname "ch_brk h" m1] by blast
      show ?thesis
      proof (cases "rc = 0")
        case True
        then have e: "a = Some (ch_brk h)" "t' = t1" "h' = h\<lparr>ch_map := (ch_map h)(ch_brk h \<mapsto> ca), ch_brk := ch_brk h + 1\<rparr>"
          using assms(4) str_get [OF st] n None Some ca(1) p(1) by (auto simp: zlog_category_table_fetch_category_def Let_def)
        have abs: "ht_abs t1 = (ht_abs t)(cname \<mapsto> ch_brk h)" using p(3) True by simp
        then show ?thesis using cats_routed_insert [OF assms(1) None p(2) abs ca] e by simp
      next
        case False
        then have e: "a = None" "t' = t1" "h' = h"
          using assms(4) str_get [OF st] n None Some ca(1) p(1) by (auto simp: zlog_category_table_fetch_category_def bind_eq_Some_conv Let_def)
        have "ht_abs t1 = ht_abs t" using p(3) False by simp
        then show ?thesis using e p(2) assms(1) by (simp add: cats_routed_def table_steady_def table_ok_def)
      qed
    qed
  qed
  show "cats_routed st t' h' ids" and "a = Some v \<Longrightarrow> ht_abs t' cname = Some v" using main by blast+
qed

lemma env_fetch_category_routes:
  assumes "env_routes e" and "env_fetch_category cname e w = Some (a, e', w')"
  shows "env_routes e'"
proof -
  obtain conf rules ids t where r: "en_conf e = Some conf" "co_rules conf = Some rules" "al_elems rules ids" "rules_ok (rs_map (en_rules e)) ids"
    "en_categories e = Some t" "cats_routed (en_rules e) t (en_cats e) ids" using assms(1) by (auto simp: env_routes_def)
  obtain t' h' m' where f: "zlog_category_table_fetch_category (rs_map (en_rules e)) t (en_cats e) cname rules (sy_mem w) = Some (a, t', h', m')"
    "e' = e\<lparr>en_categories := Some t', en_cats := h'\<rparr>"
    using assms(2) r by (auto simp: env_fetch_category_def bind_eq_Some_conv)
  show ?thesis using r f(2) fetch_routed(1) [OF r(6,4,3) f(1)] by (auto simp: env_routes_def)
qed

subsection \<open>Reloading\<close>

text \<open>
  A reload that fails because memory runs out in the middle of the table frees the new rules, and leaves the category it stopped at without
  a list and the ones before it with lists of freed rules; such a state is told by the missing list.
\<close>

definition cats_listed :: "'f zlog_env \<Rightarrow> bool" where
  "cats_listed e \<longleftrightarrow> (\<forall>t v c. en_categories e = Some t \<longrightarrow> v \<in> ran (ht_abs t) \<longrightarrow> ch_map (en_cats e) v = Some c \<longrightarrow> ca_fit_rules c \<noteq> None)"

lemma env_routes_listed: "env_routes e \<Longrightarrow> cats_listed e"
  by (fastforce simp: env_routes_def cats_listed_def cats_routed_def category_ok_def)

lemma table_loop_failed:
  "table_loop t f as h m = Some (rc, h1, m1) \<Longrightarrow> rc \<noteq> 0 \<Longrightarrow>
   \<exists>v\<in>set (table_values t as). \<exists>c m rc' c' m'. f c m = Some (rc', c', m') \<and> rc' \<noteq> 0 \<and> ch_map h1 v = Some c'"
proof (induction as arbitrary: h m)
  case (Cons a as)
  obtain e c rc1 c1 m2 where e: "ht_store t a = Some e" "ch_map h (he_value e) = Some c" "f c m = Some (rc1, c1, m2)"
    using Cons.prems(1) by (auto simp: bind_eq_Some_conv)
  have vs: "table_values t (a # as) = he_value e # table_values t as" using e(1) by (simp add: table_values_def)
  show ?case
  proof (cases "rc1 = 0")
    case True
    then show ?thesis using Cons.IH Cons.prems e vs by fastforce
  next
    case False
    then have "ch_map h1 (he_value e) = Some c1" using Cons.prems e by auto
    then show ?thesis using e(3) False vs by auto
  qed
qed simp

lemma update_failed_unlisted:
  assumes "table_ok t h" and "zlog_category_table_update_rules rh t h rules m = Some (rc, h1, m1)" and "rc \<noteq> 0"
  shows "\<exists>v\<in>ran (ht_abs t). \<exists>c. ch_map h1 v = Some c \<and> ca_fit_rules c = None"
proof -
  obtain as where as: "zc_hashtable_foreach t = Some as" "set (table_values t as) = ran (ht_abs t)" by (rule table_foreach [OF assms(1)])
  have "table_loop t (\<lambda>c m. zlog_category_update_rules rh c rules m) as h m = Some (rc, h1, m1)"
    using assms(2) as(1) by (simp add: zlog_category_table_update_rules_def)
  from table_loop_failed [OF this assms(3)] as(2) show ?thesis using update_failed_output(1) by metis
qed

lemma reload_conf_routes:
  assumes "env_ok e" and "en_is_init e" and "env_routes e" and "reload_conf lc path e w = Some (rc, e', w')" and "cats_listed e'"
  shows "env_routes e'"
  using assms(4)
proof (cases rule: reload_conf_cases)
  case (unread st)
  have s: "\<forall>a<rs_brk (en_rules e). map_option sel_of (rs_map (en_rules e') a) = map_option sel_of (rs_map (en_rules e) a)"
    using reload_failed_rules [OF assms(4)] unread by simp
  show ?thesis
  proof (rule env_kept_routes [OF assms(3)])
    fix conf rules ids
    assume c: "en_conf e = Some conf" "co_rules conf = Some rules" "al_elems rules ids"
    have "conf_strong 0 (en_rules e) conf" using env_ok_conf [OF assms(1,2)] c(1) by simp
    then obtain as where as: "al_elems rules as" "\<forall>a\<in>set as. a < rs_brk (en_rules e)" using c(2) unfolding conf_strong_def by auto
    show "same_sels (en_rules e) (en_rules e') ids" using al_elems_unique [OF c(3) as(1)] as(2) s by (simp add: same_sels_def)
  qed (use unread in simp_all)
next
  case (failed conf st1 w1 rules ps records t st2 rcu h m st3)
  have "table_ok t (en_cats e)" using assms(3) failed(5) by (auto simp: env_routes_def cats_routed_def table_steady_def)
  from update_failed_unlisted [OF this failed(7,8)] show ?thesis using assms(5) failed(5,11) by (fastforce simp: cats_listed_def)
next
  case (reloaded conf st1 w1 rules ps records t st2 h m h2 old st3)
  have s2: "conf_strong (rs_brk (en_rules e)) st2 conf"
    using conf_strong_keeps [OF set_records_keeps [OF reloaded(6)]] zlog_conf_new_frame [OF reloaded(1)] by blast
  obtain ids where i: "al_elems rules ids" "rules_ok (rs_map st2) ids" "\<forall>i\<in>set ids. rs_brk (en_rules e) \<le> i"
    using conf_strong_rules [OF s2] reloaded(2) by (metis option.inject)
  have "table_steady t (en_cats e)" using assms(3) reloaded(5) by (auto simp: env_routes_def cats_routed_def)
  from zlog_category_table_commit_new_rules [OF this i(2,1) reloaded(7)] have c: "cats_routed st2 t h2 ids"
    using reloaded(8) by (auto simp: cats_routed_def)
  have "conf_strong 0 (en_rules e) old" using env_ok_conf [OF assms(1,2)] reloaded(9) by simp
  from zlog_conf_del_others [OF reloaded(10) this] have s: "same_sels st2 st3 ids" using i(3) by (simp add: same_sels_def)
  show ?thesis
    unfolding env_routes_def using reloaded(2,5,12) i(1) same_sels_rules_ok [OF s i(2)] cats_routed_cong [OF s i(2) c] by auto
qed

lemma zlog_reload_routes:
  assumes "env_ok e" and "en_is_init e \<longrightarrow> env_routes e" and "zlog_reload lc arg e w = Some (rc, e', w')" and "cats_listed e'" and "en_is_init e'"
  shows "env_routes e'"
proof -
  consider "e' = e" | path where "en_is_init e" "reload_conf lc path (e\<lparr>en_reload_conf_count := 0\<rparr>) w = Some (rc, e', w')"
    using assms(3) by (auto simp: zlog_reload_def bind_eq_Some_conv Let_def split: if_splits reload_arg.splits)
  then show ?thesis
  proof cases
    case 2
    then show ?thesis using reload_conf_routes [of "e\<lparr>en_reload_conf_count := 0\<rparr>"] assms(1,2,4) by (simp add: env_ok_def env_routes_def)
  qed (use assms(2,5) in simp)
qed

subsection \<open>The other calls\<close>

lemma zlog_set_record_kept:
  assumes "zlog_set_record rname f e w = Some (rc, e', w')"
  shows "env_kept e e'"
  using zlog_set_record_frame [OF assms] by (auto simp: env_kept_def)

lemma env_kept_threads [simp]: "env_kept e (e'\<lparr>en_threads := ts\<rparr>) = env_kept e e'"
  by (simp add: env_kept_def)

lemma zlog_put_mdc_kept:
  assumes "zlog_put_mdc lc key val e w = Some (rc, e', w')"
  shows "env_kept e e'"
proof (cases "en_is_init e")
  case True
  then obtain t e1 w1 where f: "zlog_fetch_thread lc e w = Some (t, e1, w1)" using assms by (auto simp: zlog_put_mdc_def bind_eq_Some_conv)
  have "env_kept e e1" using zlog_fetch_thread_frame [OF f] by auto
  then show ?thesis using assms True f by (cases t) (auto simp: zlog_put_mdc_def bind_eq_Some_conv)
qed (use assms in \<open>simp add: zlog_put_mdc_def\<close>)

lemma mdc_kept:
  "zlog_remove_mdc lc key e = Some e' \<Longrightarrow> env_kept e e'"
  "zlog_clean_mdc lc e = Some e' \<Longrightarrow> env_kept e e'"
  by (auto simp: zlog_remove_mdc_def zlog_clean_mdc_def bind_eq_Some_conv split: if_splits option.splits)

lemma log_locked_kept:
  assumes "log_locked call lc category fill e w = Some (again, e', w')"
  shows "env_kept e e'"
  using assms by (cases rule: log_locked_frame) (auto simp: env_kept_def)

text \<open>From a state with the invariant, in which an initialised process has its routes, a call keeps the routes.\<close>

definition env_routed :: "'f zlog_env \<Rightarrow> bool" where
  "env_routed e \<longleftrightarrow> env_ok e \<and> (en_is_init e \<longrightarrow> env_routes e)"

lemma env_routed_kept: "env_routed e \<Longrightarrow> env_ok e' \<Longrightarrow> env_kept e e' \<Longrightarrow> env_routed e'"
  using env_routes_kept by (auto simp: env_routed_def env_kept_def)

lemma log_message_routed:
  assumes "env_routed e" and "log_message call lc category fill e w = Some (e', w')" and "cats_listed e'"
  shows "env_routed e'"
proof -
  consider "e' = e" | again e1 w1 where "log_locked call lc category fill e w = Some (again, e1, w1)"
    "e' = e1 \<or> (\<exists>rc. zlog_reload lc ReloadPeriod e1 w1 = Some (rc, e', w'))"
    using assms(2) by (auto simp: log_message_def bind_eq_Some_conv split: if_splits)
  then show ?thesis
  proof cases
    case 2
    have ok: "env_ok e1" using assms(1) log_locked_ok [OF _ 2(1)] by (simp add: env_routed_def)
    have "env_routed e1" by (rule env_routed_kept [OF assms(1) ok log_locked_kept [OF 2(1)]])
    then show ?thesis using 2(2) assms(3) zlog_reload_ok [OF ok] zlog_reload_routes [OF ok] by (auto simp: env_routed_def)
  qed (use assms(1) in simp)
qed

lemma logging_routed:
  "env_routed e \<Longrightarrow> cats_listed e' \<Longrightarrow> vzlog call lc a la fmt e w = Some (e', w') \<Longrightarrow> env_routed e'"
  "env_routed e \<Longrightarrow> cats_listed e' \<Longrightarrow> hzlog call lc a la buf n e w = Some (e', w') \<Longrightarrow> env_routed e'"
  "env_routed e \<Longrightarrow> cats_listed e' \<Longrightarrow> vdzlog call lc la fmt e w = Some (e', w') \<Longrightarrow> env_routed e'"
  "env_routed e \<Longrightarrow> cats_listed e' \<Longrightarrow> hdzlog call lc la buf n e w = Some (e', w') \<Longrightarrow> env_routed e'"
  "env_routed e \<Longrightarrow> cats_listed e' \<Longrightarrow> zlog call lc c la fmt e w = Some (e', w') \<Longrightarrow> env_routed e'"
  "env_routed e \<Longrightarrow> cats_listed e' \<Longrightarrow> dzlog call lc la fmt e w = Some (e', w') \<Longrightarrow> env_routed e'"
  by (auto simp: vzlog_def hzlog_def vdzlog_def hdzlog_def default_message_def zlog_def dzlog_def bind_eq_Some_conv
      split: if_splits option.splits dest: log_message_routed)

lemma zlog_init_routes:
  assumes "en_is_init e \<longrightarrow> env_routes e" and "zlog_init lc path e w = Some (rc, e', w')" and "en_is_init e'"
  shows "env_routes e'"
proof (cases "en_is_init e")
  case False
  obtain rc1 e1 w1 where i: "zlog_init_inner lc path e w = Some (rc1, e1, w1)" using assms(2) False by (auto simp: zlog_init_def bind_eq_Some_conv)
  have "rc1 = 0" "e' = e1\<lparr>en_is_init := True, en_init_version := en_init_version e1 + 1\<rparr>"
    using assms(2,3) False i zlog_init_inner_init [OF i] by (auto simp: zlog_init_def split: if_splits)
  then show ?thesis using zlog_init_inner_routes [of lc path e w e1 w1] i by (simp add: env_routes_def)
qed (use assms in \<open>simp add: zlog_init_def\<close>)

lemma dzlog_init_routes:
  assumes "en_is_init e \<longrightarrow> env_routes e" and "dzlog_init lc path cname e w = Some (rc, e', w')" and "en_is_init e'"
  shows "env_routes e'"
proof (cases "en_is_init e")
  case False
  obtain rc1 e1 w1 where i: "zlog_init_inner lc path e w = Some (rc1, e1, w1)" using assms(2) False by (auto simp: dzlog_init_def bind_eq_Some_conv)
  have "rc1 = 0" using assms(2,3) False i zlog_init_inner_init [OF i] by (auto simp: dzlog_init_def split: if_splits)
  then have r: "env_routes e1" using zlog_init_inner_routes i by blast
  obtain a e2 w2 where f: "env_fetch_category cname e1 w1 = Some (a, e2, w2)" using assms(2) False i \<open>rc1 = 0\<close> by (auto simp: dzlog_init_def bind_eq_Some_conv)
  have "e' = e2\<lparr>en_default_category := a, en_is_init := True, en_init_version := en_init_version e2 + 1\<rparr> \<or> e' = e2\<lparr>en_default_category := a\<rparr>"
    using assms(2) False i \<open>rc1 = 0\<close> f by (auto simp: dzlog_init_def Let_def split: if_splits)
  then show ?thesis using env_fetch_category_routes [OF r f] by (auto simp: env_routes_def)
qed (use assms in \<open>simp add: dzlog_init_def\<close>)

lemma category_calls_routes:
  "en_is_init e \<longrightarrow> env_routes e \<Longrightarrow> en_is_init e' \<Longrightarrow> zlog_get_category cname e w = Some (a, e', w') \<Longrightarrow> env_routes e'"
  "en_is_init e \<longrightarrow> env_routes e \<Longrightarrow> en_is_init e' \<Longrightarrow> dzlog_set_category cname e w = Some (rc, e', w') \<Longrightarrow> env_routes e'"
proof -
  assume "en_is_init e \<longrightarrow> env_routes e" "en_is_init e'" "zlog_get_category cname e w = Some (a, e', w')"
  then show "env_routes e'" by (auto simp: zlog_get_category_def split: if_splits dest: env_fetch_category_routes)
next
  assume r: "en_is_init e \<longrightarrow> env_routes e" "en_is_init e'" "dzlog_set_category cname e w = Some (rc, e', w')"
  show "env_routes e'"
  proof (cases "en_is_init e")
    case True
    then obtain b e1 w1 where f: "env_fetch_category cname e w = Some (b, e1, w1)" "e' = e1\<lparr>en_default_category := b\<rparr>"
      using r(3) by (auto simp: dzlog_set_category_def bind_eq_Some_conv)
    then show ?thesis using env_fetch_category_routes [OF r(1) [rule_format, OF True] f(1)] by (simp add: env_routes_def)
  qed (use r in \<open>simp add: dzlog_set_category_def\<close>)
qed

lemma env_routed_step:
  assumes "env_routed e" and "run_api call lc a e w = Some (e', w')" and "cats_listed e'"
  shows "env_routed e'"
proof -
  have ok: "env_ok e" "env_ok e'" and r: "en_is_init e \<longrightarrow> env_routes e"
    using assms(1) run_api_ok [OF _ assms(2)] by (simp_all add: env_routed_def)
  note kept = env_routed_kept [OF assms(1) ok(2)]
  have "env_routed e' \<or> (en_is_init e' \<longrightarrow> env_routes e')"
  proof (cases a)
    case (ApiInit path)
    then show ?thesis using assms(2) by (auto dest: zlog_init_routes [OF r])
  next
    case (ApiDInit path cname)
    then show ?thesis using assms(2) by (auto dest: dzlog_init_routes [OF r])
  next
    case (ApiReload arg)
    then show ?thesis using assms(2,3) by (auto dest: zlog_reload_routes [OF ok(1) r])
  next
    case ApiFini
    then show ?thesis using assms(2) by (auto simp: zlog_fini_def bind_eq_Some_conv split: if_splits)
  next
    case (ApiGetCategory cname)
    then show ?thesis using assms(2) by (auto dest: category_calls_routes(1) [OF r])
  next
    case (ApiSetCategory cname)
    then show ?thesis using assms(2) by (auto dest: category_calls_routes(2) [OF r])
  qed (use assms kept in \<open>auto dest: zlog_set_record_kept zlog_put_mdc_kept mdc_kept logging_routed\<close>)
  then show ?thesis using ok(2) by (auto simp: env_routed_def)
qed

subsection \<open>Properties\<close>

text \<open>The states a process can be in between two calls, as long as no category has lost its list of rules.\<close>

inductive env_intact :: "('f \<Rightarrow> zlog_msg \<Rightarrow> 'z os_scheme \<Rightarrow> int \<times> 'z os_scheme) \<Rightarrow> 'f zlog_env \<Rightarrow> bool" for call where
  intact_start: "env_intact call env_start"
| intact_call: "env_intact call e \<Longrightarrow> run_api call lc a e w = Some (e', w') \<Longrightarrow> cats_listed e' \<Longrightarrow> env_intact call e'"

lemma env_intact_routed: "env_intact call e \<Longrightarrow> env_routed e"
  by (induction rule: env_intact.induct) (simp add: env_routed_def env_ok_def env_start_def, rule env_routed_step)

text \<open>C6: In every state a program can reach by calls of the interface, in any order and with any answers of memory, files and clocks,
  as long as no reload has run out of memory in the middle of the table (which shows as a category without a list), each category of an
  initialised process points to exactly the rules of the configuration in force that match its name, in their order, or else to the last
  rule of the category \<open>!\<close>; these rules are live, the bitmap of the category holds exactly the levels that one of them
  outputs, and no backup of an earlier list is kept.\<close>

theorem zlog_routes_invariant:
  assumes "env_intact call e" and "en_is_init e"
  shows "\<exists>conf rules ids t. en_conf e = Some conf \<and> co_rules conf = Some rules \<and> al_elems rules ids \<and> rules_ok (rs_map (en_rules e)) ids \<and>
    en_categories e = Some t \<and> table_steady t (en_cats e) \<and>
    (\<forall>v\<in>ran (ht_abs t). \<exists>c. ch_map (en_cats e) v = Some c \<and>
       category_ok (rs_map (en_rules e)) c (fit_ids (rs_map (en_rules e)) (ca_name c) ids))"
  using env_intact_routed [OF assms(1)] assms(2) by (simp add: env_routed_def env_routes_def cats_routed_def)

text \<open>With enough memory a category can be had by any name that is not too long.\<close>

lemma category_new_made:
  assumes "rules_ok rh ids" and "al_elems rules ids" and "False \<notin> set m" and "length name \<le> MAXLEN_PATH"
  shows "\<exists>c m'. zlog_category_new rh name rules m = Some (Some c, m') \<and> ca_name c = name \<and> False \<notin> set m'"
proof -
  let ?c = "\<lparr>ca_name = name, ca_name_len = length name, ca_level_bitmap = replicate 32 0,
              ca_level_bitmap_backup = replicate 32 0, ca_fit_rules = None, ca_fit_rules_backup = None\<rparr>"
  obtain m1 where al: "alloc m = (True, m1)" "False \<notin> set m1" using alloc_suffix [of m] alloc_False [of m] assms(3) by (cases "alloc m") auto
  have "live (ca_fit_rules ?c)" by (simp add: live_def)
  from obtain_rules_succeeds [OF assms(1,2) this al(2)] obtain c' m' where "zlog_category_obtain_rules rh ?c rules m1 = Some (0, c', m')" by blast
  then have n: "zlog_category_new rh name rules m = Some (Some c', m')" using al(1) assms(4) by (simp add: zlog_category_new_def)
  then show ?thesis using category_new_ok [OF assms(1,2) n] assms(3) by auto
qed

lemma env_fetch_category_made:
  assumes "env_routes e" and "False \<notin> set (sy_mem w)" and "length cname \<le> MAXLEN_PATH"
  shows "\<exists>v t e' w'. env_fetch_category cname e w = Some (Some v, e', w') \<and> en_categories e' = Some t \<and> ht_abs t cname = Some v"
proof -
  obtain conf rules ids t where r: "en_conf e = Some conf" "co_rules conf = Some rules" "al_elems rules ids" "rules_ok (rs_map (en_rules e)) ids"
    "en_categories e = Some t" "cats_routed (en_rules e) t (en_cats e) ids" using assms(1) by (auto simp: env_routes_def)
  have st: "str_table t" using r(6) by (simp add: cats_routed_def table_steady_def table_ok_def)
  obtain c m where n: "zlog_category_new (rs_map (en_rules e)) cname rules (sy_mem w) = Some (Some c, m)" "ca_name c = cname" "False \<notin> set m"
    using category_new_made [OF r(4,3) assms(2,3)] by blast
  obtain ds t1 m2 where p: "zc_hashtable_put t cname (ch_brk (en_cats e)) m = Some (0, ds, t1, m2)"
    using str_put [OF st, of cname "ch_brk (en_cats e)" m] n(3) by blast
  have "\<exists>v t' h m'. zlog_category_table_fetch_category (rs_map (en_rules e)) t (en_cats e) cname rules (sy_mem w) = Some (Some v, t', h, m')"
    using str_get [OF st] n p by (cases "ht_abs t cname") (auto simp: zlog_category_table_fetch_category_def Let_def)
  then show ?thesis using r fetch_routed(2) [OF r(6,4,3)] by (fastforce simp: env_fetch_category_def)
qed

theorem zlog_routes_invariant_witness:
  "\<exists>e t v c. env_intact no_call e \<and> en_is_init e \<and> en_categories e = Some t \<and> ht_abs t ''app'' = Some v \<and> ch_map (en_cats e) v = Some c \<and> steady c"
proof -
  obtain e :: "unit zlog_env" where i: "zlog_init sample_libc (Some ''c'') env_start (sample_conf_os ''c'') = Some (0, e, sample_conf_os ''c'')" "en_is_init e"
    using sample_init [OF sample_init_path] by blast
  have r: "env_routes e" by (rule zlog_init_routes [OF _ i]) (simp add: env_start_def)
  have "run_api no_call sample_libc (ApiInit (Some ''c'')) env_start (sample_conf_os ''c'') = Some (e, sample_conf_os ''c'')" using i(1) by simp
  then have e: "env_intact no_call e" by (rule intact_call [OF intact_start _ env_routes_listed [OF r]])
  obtain v t e' w' where f: "env_fetch_category ''app'' e (sample_conf_os ''c'') = Some (Some v, e', w')" "en_categories e' = Some t" "ht_abs t ''app'' = Some v"
    using env_fetch_category_made [OF r, of "sample_conf_os ''c''" "''app''"] by (auto simp: MAXLEN_PATH_def)
  have r': "env_routes e'" and i': "en_is_init e'" using env_fetch_category_routes [OF r f(1)] env_fetch_category_frame [OF f(1)] i(2) by simp_all
  have "run_api no_call sample_libc (ApiGetCategory ''app'') e (sample_conf_os ''c'') = Some (e', w')" using f(1) i(2) by (simp add: zlog_get_category_def)
  then have e': "env_intact no_call e'" by (rule intact_call [OF e _ env_routes_listed [OF r']])
  have "v \<in> ran (ht_abs t)" using f(3) by (rule ranI)
  then show ?thesis using zlog_routes_invariant [OF e' i'] e' i' f(2,3) by (fastforce simp: table_steady_def)
qed

end
