(* ===== verification/Zlog_Chk_Conf.thy ===== *)
theory Zlog_Chk_Conf
  imports Zlog_Api
begin

text \<open>
  The levels and macros of \<^verbatim>\<open>zlog.h\<close> by which a program logs, and the tool \<^verbatim>\<open>zlog-chk-conf.c\<close>, which starts and finishes the library with each
  of the configuration files of its command line. What \<open>getopt\<close> finds, the characters of the options and the other arguments, is a
  parameter of the tool; its messages are left out.
\<close>

subsection \<open>Levels\<close>

datatype zlog_level_name = ZLOG_LEVEL_DEBUG | ZLOG_LEVEL_INFO | ZLOG_LEVEL_NOTICE | ZLOG_LEVEL_WARN | ZLOG_LEVEL_ERROR | ZLOG_LEVEL_FATAL

fun level_value :: "zlog_level_name \<Rightarrow> int" where
  "level_value ZLOG_LEVEL_DEBUG = 20"
| "level_value ZLOG_LEVEL_INFO = 40"
| "level_value ZLOG_LEVEL_NOTICE = 60"
| "level_value ZLOG_LEVEL_WARN = 80"
| "level_value ZLOG_LEVEL_ERROR = 100"
| "level_value ZLOG_LEVEL_FATAL = 120"

text \<open>The macros \<open>zlog_debug\<close> to \<open>zlog_fatal\<close>, and those for the default category.\<close>

definition zlog_at ::
  "('f \<Rightarrow> zlog_msg \<Rightarrow> 'z os_scheme \<Rightarrow> int \<times> 'z os_scheme) \<Rightarrow> libc \<Rightarrow> zlog_level_name \<Rightarrow> nat option \<Rightarrow> log_args \<Rightarrow> string option option \<Rightarrow>
   'f zlog_env \<Rightarrow> 'z os_scheme \<Rightarrow> ('f zlog_env \<times> 'z os_scheme) option" where
  "zlog_at call lc level cat la fmt e w = zlog call lc cat (la\<lparr>la_level := level_value level\<rparr>) fmt e w"

definition dzlog_at ::
  "('f \<Rightarrow> zlog_msg \<Rightarrow> 'z os_scheme \<Rightarrow> int \<times> 'z os_scheme) \<Rightarrow> libc \<Rightarrow> zlog_level_name \<Rightarrow> log_args \<Rightarrow> string option option \<Rightarrow>
   'f zlog_env \<Rightarrow> 'z os_scheme \<Rightarrow> ('f zlog_env \<times> 'z os_scheme) option" where
  "dzlog_at call lc level la fmt e w = dzlog call lc (la\<lparr>la_level := level_value level\<rparr>) fmt e w"

text \<open>The levels have distinct numbers, in the order of their names, with a default level of that number each.\<close>

lemma level_values:
  "level_value l < 256" "0 \<le> level_value l" "level_value l = level_value l' \<longleftrightarrow> l = l'"
  by (cases l; cases l'; simp)+

text \<open>The program may log before the library is started: nothing happens, with or without a category.\<close>

lemma zlog_at_uninitialised:
  "\<not> en_is_init e \<Longrightarrow> zlog_at call lc level None la fmt e w = Some (e, w)"
  "\<not> en_is_init e \<Longrightarrow> dzlog_at call lc level la fmt e w = Some (e, w)"
  by (simp_all add: zlog_at_def dzlog_at_def zlog_def dzlog_def log_message_def)

subsection \<open>Checking configuration files\<close>

fun chk_files :: "libc \<Rightarrow> string list \<Rightarrow> 'f zlog_env \<Rightarrow> 'z os_scheme \<Rightarrow> (int \<times> 'f zlog_env \<times> 'z os_scheme) option" where
  "chk_files lc [] e w = Some (0, e, w)"
| "chk_files lc (path # paths) e w = do {
     (rc, e, w) \<leftarrow> zlog_init lc (Some path) e w;
     if rc \<noteq> 0 then Some (2, e, w)
     else do { (e, w) \<leftarrow> zlog_fini e w; chk_files lc paths e w }
   }"

text \<open>The status with which the tool exits.\<close>

definition chk_conf :: "libc \<Rightarrow> string \<Rightarrow> string list \<Rightarrow> 'f zlog_env \<Rightarrow> 'z os_scheme \<Rightarrow> (int \<times> 'f zlog_env \<times> 'z os_scheme) option" where
  "chk_conf lc ops args e w =
     (if CHR ''h'' \<in> set ops then Some (0, e, w)
      else if args = [] then Some (-1, e, w)
      else chk_files lc args e w)"

text \<open>The library is not left initialised, and the status tells whether every file was accepted.\<close>

lemma zlog_init_fails: "\<not> en_is_init e \<Longrightarrow> zlog_init lc path e w = Some (rc, e', w') \<Longrightarrow> (rc = 0 \<longleftrightarrow> en_is_init e') \<and> (rc = 0 \<or> rc = -1)"
  by (auto simp: zlog_init_def bind_eq_Some_conv dest: zlog_init_inner_init split: if_splits)

lemma zlog_fini_uninitialised: "zlog_fini e w = Some (e', w') \<Longrightarrow> \<not> en_is_init e'"
  by (auto simp: zlog_fini_def bind_eq_Some_conv split: if_splits)

lemma chk_files_status:
  "\<not> en_is_init e \<Longrightarrow> chk_files lc paths e w = Some (rc, e', w') \<Longrightarrow> \<not> en_is_init e' \<and> (rc = 0 \<or> rc = 2)"
proof (induction paths arbitrary: e w)
  case (Cons path paths)
  obtain rc1 e1 w1 where i: "zlog_init lc (Some path) e w = Some (rc1, e1, w1)" using Cons.prems(2) by (auto simp: bind_eq_Some_conv)
  note f = zlog_init_fails [OF Cons.prems(1) i]
  show ?case
  proof (cases "rc1 = 0")
    case True
    then obtain e2 w2 where "zlog_fini e1 w1 = Some (e2, w2)" "chk_files lc paths e2 w2 = Some (rc, e', w')"
      using Cons.prems(2) i by (auto simp: bind_eq_Some_conv)
    then show ?thesis using Cons.IH zlog_fini_uninitialised by blast
  next
    case False
    then show ?thesis using Cons.prems(2) i f by auto
  qed
qed simp

end
