(* ===== verification/Router_Packet.thy ===== *)
theory Router_Packet
  imports Zlog_Numerals Zc_Util
begin

text \<open>
  The packets of the router (\<^verbatim>\<open>class RouterPacket\<close> of \<^verbatim>\<open>inc/routerSession.h\<close>). On the TCP side a packet is four characters with the
  length of the payload, then the payload: four characters with the length of the address of the UDP peer, that address, and the
  data. The array \<open>m_payload\<close> is a list of characters of fixed length; an access outside it is undefined and gives \<open>None\<close>.
\<close>

definition HEADER_LENGTH :: nat where "HEADER_LENGTH = 4"

definition PEER_LENGTH :: nat where "PEER_LENGTH = 4"

definition MAX_PAYLOAD_SIZE :: nat where "MAX_PAYLOAD_SIZE = 1024"

definition PACKET_SIZE :: nat where "PACKET_SIZE = HEADER_LENGTH + PEER_LENGTH + MAX_PAYLOAD_SIZE"

lemmas packet_sizes = HEADER_LENGTH_def PEER_LENGTH_def MAX_PAYLOAD_SIZE_def PACKET_SIZE_def

record router_packet =
  rp_payloadLength :: "32 word"
  rp_peerLength :: "32 word"
  rp_payload :: string

definition rp_clear :: router_packet where
  "rp_clear = \<lparr>rp_payloadLength = 0, rp_peerLength = 0, rp_payload = replicate PACKET_SIZE (CHR 0x00)\<rparr>"

text \<open>\<open>memcpy\<close> out of an array: a run of its characters.\<close>

definition read_at :: "'a list \<Rightarrow> nat \<Rightarrow> nat \<Rightarrow> 'a list option" where
  "read_at xs i n = (if i + n \<le> length xs then Some (take n (drop i xs)) else None)"

text \<open>The copy; a constructor starts from an array \<open>raw\<close> of whatever the memory holds.\<close>

definition rp_copy :: "string \<Rightarrow> router_packet \<Rightarrow> router_packet option" where
  "rp_copy raw other = do {
     payload \<leftarrow> (if rp_payloadLength other > 0 then do {
          s \<leftarrow> read_at (rp_payload other) 0 (HEADER_LENGTH + PEER_LENGTH + unat (rp_payloadLength other));
          write_at raw 0 s
        } else Some raw);
     Some \<lparr>rp_payloadLength = rp_payloadLength other, rp_peerLength = rp_peerLength other, rp_payload = payload\<rparr>
   }"

definition data_length :: "router_packet \<Rightarrow> 32 word" where
  "data_length p = of_nat HEADER_LENGTH + rp_payloadLength p"

definition payload_length :: "32 word \<Rightarrow> router_packet \<Rightarrow> router_packet" where
  "payload_length n p = p\<lparr>rp_payloadLength := n + of_nat PEER_LENGTH\<rparr>"

definition peer_length :: "32 word \<Rightarrow> router_packet \<Rightarrow> router_packet" where
  "peer_length n p = p\<lparr>rp_peerLength := n\<rparr>"

definition packet_data_length :: "router_packet \<Rightarrow> 32 word" where
  "packet_data_length p = rp_payloadLength p - rp_peerLength p - of_nat PEER_LENGTH"

definition atoi :: "string \<Rightarrow> int" where
  "atoi s = to_int32 (strtol s)"

text \<open>\<open>strncat\<close>: at most \<open>n\<close> characters, up to a zero byte; reading past the array is undefined.\<close>

definition strn :: "string \<Rightarrow> nat \<Rightarrow> nat \<Rightarrow> string option" where
  "strn blk i n =
     (let s = takeWhile (\<lambda>c. c \<noteq> CHR 0x00) (take n (drop i blk)) in
      if i + n \<le> length blk \<or> length s < length (take n (drop i blk)) then Some s else None)"

definition decode_header :: "router_packet \<Rightarrow> (bool \<times> router_packet) option" where
  "decode_header p = do {
     header \<leftarrow> strn (rp_payload p) 0 HEADER_LENGTH;
     let n = (word_of_int (atoi header) :: 32 word);
     if n > of_nat MAX_PAYLOAD_SIZE then Some (False, p\<lparr>rp_payloadLength := 0\<rparr>)
     else Some (True, p\<lparr>rp_payloadLength := n\<rparr>)
   }"

definition decode_peer :: "router_packet \<Rightarrow> (bool \<times> router_packet) option" where
  "decode_peer p = do {
     peer \<leftarrow> strn (rp_payload p) HEADER_LENGTH PEER_LENGTH;
     let n = (word_of_int (atoi peer) :: 32 word);
     if n > rp_payloadLength p then Some (False, p\<lparr>rp_peerLength := 0\<rparr>)
     else Some (True, p\<lparr>rp_peerLength := n\<rparr>)
   }"

text \<open>\<open>sprintf\<close> with \<open>%4d\<close> into an array of five characters, which a longer number overruns.\<close>

definition sprintf_4d :: "32 word \<Rightarrow> string option" where
  "sprintf_4d n =
     (let v = sint n; d = (if v < 0 then ''-'' @ base_string 10 (nat (- v)) else base_string 10 (nat v));
          s = replicate (4 - length d) (CHR '' '') @ d
      in if length s \<le> 4 then Some s else None)"

definition encode_header :: "router_packet \<Rightarrow> router_packet option" where
  "encode_header p = do {
     header \<leftarrow> sprintf_4d (rp_payloadLength p);
     blk \<leftarrow> write_at (rp_payload p) 0 header;
     peer \<leftarrow> sprintf_4d (rp_peerLength p);
     blk \<leftarrow> write_at blk HEADER_LENGTH peer;
     Some (p\<lparr>rp_payload := blk\<rparr>)
   }"

text \<open>The address of the peer is appended to the string \<open>peer\<close> of the caller, whose array has \<open>size\<close> characters.\<close>

definition get_peer_data :: "router_packet \<Rightarrow> string \<Rightarrow> nat \<Rightarrow> (bool \<times> string) option" where
  "get_peer_data p peer nsize =
     (if rp_peerLength p > 0 \<and> nsize > unat (rp_peerLength p) then do {
        s \<leftarrow> strn (rp_payload p) (HEADER_LENGTH + PEER_LENGTH) (unat (rp_peerLength p));
        if length peer + length s < nsize then Some (True, peer @ s) else None
      }
      else Some (False, peer))"

definition set_peer_data :: "string \<Rightarrow> 32 word \<Rightarrow> router_packet \<Rightarrow> router_packet option" where
  "set_peer_data peer nsize p = do {
     s \<leftarrow> read_at peer 0 (unat nsize);
     blk \<leftarrow> write_at (rp_payload p) (HEADER_LENGTH + PEER_LENGTH) s;
     Some (p\<lparr>rp_peerLength := nsize, rp_payload := blk\<rparr>)
   }"

text \<open>The pointer \<open>get_packet_data()\<close>, as an index, and the \<open>n\<close> characters there.\<close>

definition packet_data_at :: "router_packet \<Rightarrow> nat" where
  "packet_data_at p = HEADER_LENGTH + PEER_LENGTH + unat (rp_peerLength p)"

definition get_packet_data :: "router_packet \<Rightarrow> 32 word \<Rightarrow> (string \<times> router_packet) option" where
  "get_packet_data p nsize = do {
     let p = p\<lparr>rp_payloadLength := nsize + rp_peerLength p\<rparr>;
     s \<leftarrow> read_at (rp_payload p) (packet_data_at p) (unat (rp_payloadLength p - rp_peerLength p));
     Some (s, p)
   }"

definition set_packet_data :: "string \<Rightarrow> 32 word \<Rightarrow> router_packet \<Rightarrow> router_packet option" where
  "set_packet_data packet nsize p = do {
     s \<leftarrow> read_at packet 0 (unat nsize);
     blk \<leftarrow> write_at (rp_payload p) (packet_data_at p) s;
     Some (p\<lparr>rp_payloadLength := nsize + rp_peerLength p + of_nat PEER_LENGTH, rp_payload := blk\<rparr>)
   }"

text \<open>The characters that go to the TCP server: \<open>data_length()\<close> of them from \<open>data()\<close> on.\<close>

definition packet_bytes :: "router_packet \<Rightarrow> string option" where
  "packet_bytes p = read_at (rp_payload p) 0 (unat (data_length p))"


text \<open>What \<open>async_read\<close> puts into the array: at \<open>data()\<close> the header, at \<open>payload()\<close> the rest.\<close>

definition receive_header :: "string \<Rightarrow> router_packet \<Rightarrow> router_packet option" where
  "receive_header s p = do { blk \<leftarrow> write_at (rp_payload p) 0 s; Some (p\<lparr>rp_payload := blk\<rparr>) }"

definition receive_payload :: "string \<Rightarrow> router_packet \<Rightarrow> router_packet option" where
  "receive_payload s p = do { blk \<leftarrow> write_at (rp_payload p) HEADER_LENGTH s; Some (p\<lparr>rp_payload := blk\<rparr>) }"

text \<open>The data for the UDP peer: \<open>packet_data_length()\<close> characters from \<open>get_packet_data()\<close> on.\<close>

definition packet_data :: "router_packet \<Rightarrow> string option" where
  "packet_data p = read_at (rp_payload p) (packet_data_at p) (unat (packet_data_length p))"

subsection \<open>Frames\<close>

text \<open>What a packet looks like on the TCP connection.\<close>

definition pad4 :: "nat \<Rightarrow> string" where
  "pad4 n = replicate (4 - length (base_string 10 n)) (CHR '' '') @ base_string 10 n"

definition frame :: "string \<Rightarrow> string \<Rightarrow> string" where
  "frame peer data = pad4 (PEER_LENGTH + length peer + length data) @ pad4 (length peer) @ peer @ data"

lemma pad4_length [simp]: "n < 10000 \<Longrightarrow> length (pad4 n) = 4"
  using base10_length [of n 3] by (simp add: pad4_def)

lemma pad4_chars: "CHR 0x00 \<notin> set (pad4 n)"
  using base10_string [of n] by (auto simp: pad4_def list_all_iff isdigit_def)

lemma atoi_pad4: assumes "n < 10000" shows "atoi (pad4 n) = int n"
proof -
  note d = base10_string [of n]
  have n: "n < 2 ^ 31" using assms by simp
  have "dropWhile isspace (pad4 n) = base_string 10 n"
    using scan_number_digits(2) [of "base_string 10 n" n "[]"] d n by (simp add: pad4_def dropWhile_append isspace_def)
  then have "strtol (pad4 n) = int n"
    using scan_number_digits(1) [of "base_string 10 n" n "[]"] d n by (simp add: strtol_def)
  then show ?thesis using n by (simp add: atoi_def to_int32_def)
qed

lemma sprintf_4d_pad4: "n < 10000 \<Longrightarrow> sprintf_4d (of_nat n) = Some (pad4 n)"
  using base10_length [of n 3] by (simp add: sprintf_4d_def pad4_def Let_def signed_of_nat signed_take_bit_int_eq_self)

lemma strn_pad4: "n < 10000 \<Longrightarrow> drop i blk = pad4 n @ rest \<Longrightarrow> strn blk i 4 = Some (pad4 n)"
proof -
  assume n: "n < 10000" and b: "drop i blk = pad4 n @ rest"
  have "length (drop i blk) \<ge> 4" using n b by simp
  then have "i + 4 \<le> length blk" by (simp only: length_drop)
  moreover have "takeWhile (\<lambda>c. c \<noteq> CHR 0x00) (pad4 n) = pad4 n"
    using pad4_chars [of n] by (auto simp: takeWhile_eq_all_conv)
  moreover have "take 4 (drop i blk) = pad4 n" using n b by simp
  ultimately show "strn blk i 4 = Some (pad4 n)" unfolding strn_def Let_def by simp
qed

lemma unat_of_nat32: "n < 2 ^ 32 \<Longrightarrow> unat (of_nat n :: 32 word) = n"
  by (simp add: unsigned_of_nat take_bit_nat_eq_self)

text \<open>Building a packet, as \<open>deliver_from_udp_peer\<close> does.\<close>

definition build_packet :: "string \<Rightarrow> string \<Rightarrow> router_packet option" where
  "build_packet peer data = do {
     p \<leftarrow> set_peer_data peer (of_nat (length peer)) rp_clear;
     p \<leftarrow> set_packet_data data (of_nat (length data)) p;
     encode_header p
   }"

definition frame_packet :: "string \<Rightarrow> string \<Rightarrow> router_packet" where
  "frame_packet peer data = \<lparr>rp_payloadLength = of_nat (PEER_LENGTH + length peer + length data), rp_peerLength = of_nat (length peer),
     rp_payload = frame peer data @ replicate (MAX_PAYLOAD_SIZE - length peer - length data) (CHR 0x00)\<rparr>"

lemma build_packet_fits:
  assumes "length peer + length data \<le> MAX_PAYLOAD_SIZE"
  shows "build_packet peer data = Some (frame_packet peer data)"
proof -
  let ?z = "\<lambda>n. replicate n (CHR 0x00)"
  have l: "length peer + length data \<le> 1024" using assms by (simp add: packet_sizes)
  have lp: "unat (of_nat (length peer) :: 32 word) = length peer" and ld: "unat (of_nat (length data) :: 32 word) = length data"
    using l by (simp_all add: unat_of_nat32)
  let ?p1 = "\<lparr>rp_payloadLength = 0, rp_peerLength = of_nat (length peer), rp_payload = ?z 8 @ peer @ ?z (1024 - length peer)\<rparr>"
  let ?n = "PEER_LENGTH + length peer + length data"
  let ?p2 = "\<lparr>rp_payloadLength = of_nat ?n, rp_peerLength = of_nat (length peer),
     rp_payload = ?z 8 @ peer @ data @ ?z (1024 - length peer - length data)\<rparr>"
  have 1: "set_peer_data peer (of_nat (length peer)) rp_clear = Some ?p1"
    using l by (simp add: set_peer_data_def rp_clear_def packet_sizes read_at_def write_at_def lp)
  have 2: "set_packet_data data (of_nat (length data)) ?p1 = Some ?p2"
    using l by (simp add: set_packet_data_def packet_data_at_def packet_sizes read_at_def write_at_def lp ld)
  have h: "sprintf_4d (4 + of_nat (length peer) + of_nat (length data)) = Some (pad4 (4 + length peer + length data))"
    using sprintf_4d_pad4 [of "4 + length peer + length data"] l by simp
  have 3: "encode_header ?p2 = Some (frame_packet peer data)"
    using l by (simp add: encode_header_def frame_packet_def frame_def packet_sizes h sprintf_4d_pad4 write_at_def replicate_add [symmetric])
  show ?thesis unfolding build_packet_def 1 2 3 bind.bind_lunit ..
qed

lemma build_packet_None:
  assumes "MAX_PAYLOAD_SIZE < length peer + length data" and "length peer < 2 ^ 32" and "length data < 2 ^ 32"
  shows "build_packet peer data = None"
proof -
  have lp: "unat (of_nat (length peer) :: 32 word) = length peer" and ld: "unat (of_nat (length data) :: 32 word) = length data"
    using assms by (simp_all add: unat_of_nat32)
  have "set_packet_data data (of_nat (length data)) p = None" if "set_peer_data peer (of_nat (length peer)) rp_clear = Some p" for p
    using that assms(1)
    by (auto simp: set_peer_data_def set_packet_data_def rp_clear_def packet_data_at_def packet_sizes read_at_def write_at_def lp ld bind_eq_Some_conv
        split: if_splits)
  then show ?thesis by (cases "set_peer_data peer (of_nat (length peer)) rp_clear") (simp_all add: build_packet_def)
qed

lemma frame_length: "length peer + length data \<le> MAX_PAYLOAD_SIZE \<Longrightarrow> length (frame peer data) = 8 + length peer + length data"
  by (simp add: frame_def packet_sizes)

lemma unat_frame:
  assumes "a + b \<le> 1024"
  shows "unat (4 + of_nat a + of_nat b :: 32 word) = 4 + a + b" and "unat (8 + (of_nat a + of_nat b) :: 32 word) = 8 + a + b"
  using assms unat_of_nat32 [of "4 + a + b"] unat_of_nat32 [of "8 + a + b"] by (simp_all add: add.assoc)

lemma frame_packet_bytes:
  assumes "length peer + length data \<le> MAX_PAYLOAD_SIZE"
  shows "packet_bytes (frame_packet peer data) = Some (frame peer data)"
proof -
  have l: "length peer + length data \<le> 1024" using assms by (simp add: packet_sizes)
  have "unat (data_length (frame_packet peer data)) = 8 + length peer + length data"
    using unat_frame(2) [OF l] by (simp add: data_length_def frame_packet_def packet_sizes)
  then show ?thesis
    using l frame_length [OF assms] by (simp add: packet_bytes_def read_at_def frame_packet_def packet_sizes)
qed

text \<open>A copy sends the same characters; it is defined only where the four characters that it reads and writes too many exist.\<close>

definition frame_copy :: "string \<Rightarrow> string \<Rightarrow> string \<Rightarrow> router_packet" where
  "frame_copy raw peer data = \<lparr>rp_payloadLength = 4 + of_nat (length peer) + of_nat (length data), rp_peerLength = of_nat (length peer),
     rp_payload = frame peer data @ replicate 4 (CHR 0x00) @ drop (12 + (length peer + length data)) raw\<rparr>"

lemma frame_length_word_pos: "a + b \<le> 1024 \<Longrightarrow> 0 < (4 + of_nat a + of_nat b :: 32 word)"
  using unat_frame(1) [of a b] by (metis add_is_0 numeral_eq_iff unat_0 word_gt_0 zero_neq_numeral)

lemma rp_copy_frame:
  assumes "length raw = PACKET_SIZE" and "PEER_LENGTH + length peer + length data \<le> MAX_PAYLOAD_SIZE"
  shows "rp_copy raw (frame_packet peer data) = Some (frame_copy raw peer data)"
    and "packet_bytes (frame_copy raw peer data) = Some (frame peer data)"
proof -
  have l: "length peer + length data \<le> 1024" "4 + length peer + length data \<le> 1024" using assms(2) by (simp_all add: packet_sizes)
  then have fl: "length (frame peer data) = 8 + length peer + length data" using frame_length [of peer data] by (simp add: packet_sizes)
  have k: "4 \<le> 1024 - (length peer + length data)" using l by linarith
  show "rp_copy raw (frame_packet peer data) = Some (frame_copy raw peer data)"
    using l fl k unat_frame(1) [OF l(1)] frame_length_word_pos [OF l(1)] assms(1)
    by (simp add: rp_copy_def frame_packet_def frame_copy_def packet_sizes read_at_def write_at_def min_def)
  show "packet_bytes (frame_copy raw peer data) = Some (frame peer data)"
    using l fl unat_frame(2) [OF l(1)] by (simp add: packet_bytes_def data_length_def frame_copy_def packet_sizes read_at_def)
qed

lemma rp_copy_frame_None:
  assumes "length peer + length data \<le> MAX_PAYLOAD_SIZE" and "MAX_PAYLOAD_SIZE < PEER_LENGTH + length peer + length data"
  shows "rp_copy raw (frame_packet peer data) = None"
  using assms unat_frame(1) [of "length peer" "length data"] frame_length_word_pos [of "length peer" "length data"] frame_length [OF assms(1)]
  by (simp add: rp_copy_def frame_packet_def packet_sizes read_at_def)

lemma receive_header_frame:
  assumes "PEER_LENGTH + length peer + length data \<le> MAX_PAYLOAD_SIZE"
  shows "(receive_header (take HEADER_LENGTH (frame peer data)) rp_clear \<bind> decode_header) =
    Some (True, \<lparr>rp_payloadLength = of_nat (PEER_LENGTH + length peer + length data), rp_peerLength = 0,
      rp_payload = pad4 (PEER_LENGTH + length peer + length data) @ replicate 1028 (CHR 0x00)\<rparr>)"
proof -
  let ?n = "4 + length peer + length data"
  have n: "?n \<le> 1024" and l: "length peer + length data \<le> 1024" using assms by (simp_all add: packet_sizes)
  have t: "take 4 (frame peer data) = pad4 ?n" using n by (simp add: frame_def packet_sizes)
  let ?p = "\<lparr>rp_payloadLength = 0, rp_peerLength = 0, rp_payload = pad4 ?n @ replicate 1028 (CHR 0x00)\<rparr>"
  have 1: "receive_header (pad4 ?n) rp_clear = Some ?p"
    using n by (simp add: receive_header_def rp_clear_def write_at_def packet_sizes)
  have 2: "strn (rp_payload ?p) 0 4 = Some (pad4 ?n)"
    by (rule strn_pad4 [where rest = "replicate 1028 (CHR 0x00)"]) (use n in simp_all)
  have 3: "(word_of_int (atoi (pad4 ?n)) :: 32 word) = of_nat ?n" using n atoi_pad4 [of ?n] by simp
  have 4: "\<not> (of_nat ?n :: 32 word) > of_nat MAX_PAYLOAD_SIZE"
    using n unat_of_nat32 [of ?n] unat_of_nat32 [of 1024] by (simp add: word_less_nat_alt packet_sizes)
  show ?thesis
    unfolding HEADER_LENGTH_def PEER_LENGTH_def t 1 bind.bind_lunit decode_header_def Let_def 2 3 using 4 by simp
qed

lemma receive_payload_frame:
  assumes "PEER_LENGTH + length peer + length data \<le> MAX_PAYLOAD_SIZE"
  shows "(receive_payload (drop HEADER_LENGTH (frame peer data))
      \<lparr>rp_payloadLength = of_nat (PEER_LENGTH + length peer + length data), rp_peerLength = 0,
       rp_payload = pad4 (PEER_LENGTH + length peer + length data) @ replicate 1028 (CHR 0x00)\<rparr> \<bind> decode_peer)
    = Some (True, frame_packet peer data)"
proof -
  let ?n = "4 + length peer + length data"
  have n: "?n \<le> 1024" and l: "length peer + length data \<le> 1024" using assms by (simp_all add: packet_sizes)
  have d: "drop 4 (frame peer data) = pad4 (length peer) @ peer @ data" using n by (simp add: frame_def packet_sizes)
  let ?p = "(frame_packet peer data)\<lparr>rp_peerLength := 0\<rparr>"
  have 1: "receive_payload (pad4 (length peer) @ peer @ data)
      \<lparr>rp_payloadLength = of_nat ?n, rp_peerLength = 0, rp_payload = pad4 ?n @ replicate 1028 (CHR 0x00)\<rparr> = Some ?p"
    using n by (simp add: receive_payload_def write_at_def packet_sizes frame_packet_def frame_def)
  have 2: "strn (rp_payload ?p) 4 4 = Some (pad4 (length peer))"
    by (rule strn_pad4 [where rest = "peer @ data @ replicate (1024 - length peer - length data) (CHR 0x00)"])
       (use n in \<open>simp_all add: frame_packet_def frame_def packet_sizes\<close>)
  have 3: "(word_of_int (atoi (pad4 (length peer))) :: 32 word) = of_nat (length peer)" using n atoi_pad4 [of "length peer"] by simp
  have 4: "\<not> of_nat (length peer) > rp_payloadLength ?p"
    using n unat_of_nat32 [of "length peer"] unat_frame(1) [OF l] by (simp add: word_less_nat_alt frame_packet_def packet_sizes)
  have 5: "?p\<lparr>rp_peerLength := of_nat (length peer)\<rparr> = frame_packet peer data" by (simp add: frame_packet_def)
  show ?thesis
    unfolding HEADER_LENGTH_def PEER_LENGTH_def d 1 bind.bind_lunit decode_peer_def Let_def 2 3 using 4 5 by simp
qed

text \<open>A packet whose array starts with a frame.\<close>

lemma frame_contents:
  assumes "length peer + length data \<le> MAX_PAYLOAD_SIZE" and "rp_payloadLength p = of_nat (PEER_LENGTH + length peer + length data)"
    and "rp_peerLength p = of_nat (length peer)" and "rp_payload p = frame peer data @ rest"
  shows "0 < length peer \<Longrightarrow> length peer < nsize \<Longrightarrow> CHR 0x00 \<notin> set peer \<Longrightarrow> get_peer_data p [] nsize = Some (True, peer)"
    and "packet_data p = Some data"
proof -
  have l: "length peer + length data \<le> 1024" using assms(1) by (simp add: packet_sizes)
  have lp: "unat (of_nat (length peer) :: 32 word) = length peer" using l by (simp add: unat_of_nat32)
  have w: "(4 + of_nat (length peer) + of_nat (length data) :: 32 word) - of_nat (length peer) - 4 = of_nat (length data)" by simp
  have "unat (packet_data_length p) = length data"
    unfolding packet_data_length_def assms(2,3) using l unat_of_nat32 [of "length data"] by (simp add: packet_sizes w)
  then show "packet_data p = Some data"
    using l frame_length [OF assms(1)] lp assms(3,4) by (simp add: packet_data_def read_at_def packet_data_at_def packet_sizes frame_def)
  assume a: "0 < length peer" "length peer < nsize" "CHR 0x00 \<notin> set peer"
  have t: "takeWhile (\<lambda>c. c \<noteq> CHR 0x00) peer = peer" using a(3) by (auto simp: takeWhile_eq_all_conv)
  have "strn (rp_payload p) 8 (length peer) = Some peer"
    using l t assms(4) by (simp add: strn_def Let_def frame_def packet_sizes)
  moreover have "0 < (of_nat (length peer) :: 32 word)" using a(1) lp by (metis unat_gt_0 word_gt_0)
  ultimately show "get_peer_data p [] nsize = Some (True, peer)"
    using a lp assms(3) by (simp add: get_peer_data_def packet_sizes)
qed

lemma frame_packet_contents:
  assumes "length peer + length data \<le> MAX_PAYLOAD_SIZE"
  shows "0 < length peer \<Longrightarrow> length peer < nsize \<Longrightarrow> CHR 0x00 \<notin> set peer \<Longrightarrow> get_peer_data (frame_packet peer data) [] nsize = Some (True, peer)"
    and "packet_data (frame_packet peer data) = Some data"
  by (rule frame_contents [OF assms], simp_all add: frame_packet_def)+

lemma frame_copy_contents:
  assumes "length peer + length data \<le> MAX_PAYLOAD_SIZE"
  shows "0 < length peer \<Longrightarrow> length peer < nsize \<Longrightarrow> CHR 0x00 \<notin> set peer \<Longrightarrow> get_peer_data (frame_copy raw peer data) [] nsize = Some (True, peer)"
    and "packet_data (frame_copy raw peer data) = Some data"
  by (rule frame_contents [OF assms], simp_all add: frame_copy_def packet_sizes)+

lemma atoi_base: "n < 2 ^ 31 \<Longrightarrow> atoi (base_string 10 n) = int n"
  using base10_string [of n] scan_number_digits [of "base_string 10 n" n "[]"] by (simp add: atoi_def strtol_def to_int32_def)

lemma rp_copy_bytes:
  assumes "rp_copy raw q = Some p" and "0 < rp_payloadLength q" and "length (rp_payload q) = PACKET_SIZE" and "length raw = PACKET_SIZE"
  shows "packet_bytes p = packet_bytes q"
proof -
  let ?n = "unat (rp_payloadLength q)"
  have n: "8 + ?n \<le> 1032" and p: "rp_payload p = take (8 + ?n) (rp_payload q) @ drop (8 + ?n) raw" "rp_payloadLength p = rp_payloadLength q"
    using assms by (auto simp: rp_copy_def read_at_def write_at_def packet_sizes bind_eq_Some_conv split: if_splits)
  have "unat (4 + rp_payloadLength q) = 4 + ?n"
    using n unat_of_nat32 [of "4 + ?n"] by simp
  then show ?thesis
    using n p assms by (simp add: packet_bytes_def data_length_def read_at_def packet_sizes min_def)
qed

lemma build_packet_shape:
  assumes "build_packet peer data = Some p"
  shows "length (rp_payload p) = PACKET_SIZE" and "0 < rp_payloadLength p"
proof -
  let ?a = "of_nat (length peer) :: 32 word" and ?b = "of_nat (length data) :: 32 word"
  obtain p1 p2 where p: "set_peer_data peer ?a rp_clear = Some p1" "set_packet_data data ?b p1 = Some p2" "encode_header p2 = Some p"
    using assms by (auto simp: build_packet_def bind_eq_Some_conv)
  have 1: "length (rp_payload p1) = 1032" "rp_peerLength p1 = ?a" "unat ?a \<le> 1024"
    using p(1) by (auto simp: set_peer_data_def rp_clear_def packet_sizes read_at_def write_at_def bind_eq_Some_conv split: if_splits)
  have 2: "length (rp_payload p2) = 1032" "rp_payloadLength p2 = ?b + ?a + 4" "unat ?b \<le> 1024"
    using p(2) 1 by (auto simp: set_packet_data_def packet_data_at_def packet_sizes read_at_def write_at_def bind_eq_Some_conv split: if_splits)
  have 3: "length (rp_payload p) = length (rp_payload p2)" "rp_payloadLength p = rp_payloadLength p2"
    using p(3) by (auto simp: encode_header_def bind_eq_Some_conv dest!: write_at_length)
  show "length (rp_payload p) = PACKET_SIZE" using 2 3 by (simp add: packet_sizes)
  have "unat (?b + ?a + 4) = unat ?b + unat ?a + 4"
    using 1(3) 2(3) unat_of_nat32 [of "unat ?b + unat ?a + 4"] by simp
  then show "0 < rp_payloadLength p" using 2 3 by (metis add_is_0 unat_gt_0 word_gt_0 zero_neq_numeral not_gr0)
qed

subsection \<open>Properties\<close>

text \<open>C4: A packet made from the address of a peer and data is received back: the header gives the length of the payload, which is what
  follows on the connection, and decoding it gives the same packet, with the same address and data.\<close>

theorem router_packet_roundtrip:
  assumes "0 < length peer" and "length peer < 128" and "CHR 0x00 \<notin> set peer" and "PEER_LENGTH + length peer + length data \<le> MAX_PAYLOAD_SIZE"
  shows "\<exists>p f p1. build_packet peer data = Some p \<and> packet_bytes p = Some f \<and>
    (receive_header (take HEADER_LENGTH f) rp_clear \<bind> decode_header) = Some (True, p1) \<and>
    unat (rp_payloadLength p1) = length (drop HEADER_LENGTH f) \<and>
    (receive_payload (drop HEADER_LENGTH f) p1 \<bind> decode_peer) = Some (True, p) \<and>
    get_peer_data p [] 128 = Some (True, peer) \<and> packet_data p = Some data"
proof -
  have l: "length peer + length data \<le> MAX_PAYLOAD_SIZE" "length peer + length data \<le> 1024" using assms(4) by (simp_all add: packet_sizes)
  have "unat (of_nat (PEER_LENGTH + length peer + length data) :: 32 word) = length (drop HEADER_LENGTH (frame peer data))"
    using unat_frame(1) [OF l(2)] frame_length [OF l(1)] by (simp add: packet_sizes)
  then have u: "unat (rp_payloadLength \<lparr>rp_payloadLength = of_nat (PEER_LENGTH + length peer + length data), rp_peerLength = 0,
      rp_payload = pad4 (PEER_LENGTH + length peer + length data) @ replicate 1028 (CHR 0x00)\<rparr>) = length (drop HEADER_LENGTH (frame peer data))"
    by simp
  show ?thesis
    by (intro exI conjI) (rule build_packet_fits [OF l(1)], rule frame_packet_bytes [OF l(1)], rule receive_header_frame [OF assms(4)], rule u,
      rule receive_payload_frame [OF assms(4)], rule frame_packet_contents(1) [OF l(1) assms(1,2,3)], rule frame_packet_contents(2) [OF l(1)])
qed

theorem router_packet_roundtrip_witness:
  "\<exists>p f p1. build_packet ''10.0.0.1:4000'' ''hello'' = Some p \<and> packet_bytes p = Some f \<and>
    (receive_header (take HEADER_LENGTH f) rp_clear \<bind> decode_header) = Some (True, p1) \<and>
    unat (rp_payloadLength p1) = length (drop HEADER_LENGTH f) \<and>
    (receive_payload (drop HEADER_LENGTH f) p1 \<bind> decode_peer) = Some (True, p) \<and>
    get_peer_data p [] 128 = Some (True, ''10.0.0.1:4000'') \<and> packet_data p = Some ''hello''"
  by (rule router_packet_roundtrip) (simp_all add: packet_sizes)

text \<open>C11: Making a packet and copying it to a queue stays within the array exactly when the length of the address, the data and the four
  characters of the length of the address fit the maximal payload.\<close>

theorem router_packet_fits:
  assumes "length raw = PACKET_SIZE" and "length peer < 2 ^ 32" and "length data < 2 ^ 32"
  shows "(build_packet peer data \<bind> rp_copy raw) \<noteq> None \<longleftrightarrow> PEER_LENGTH + length peer + length data \<le> MAX_PAYLOAD_SIZE"
proof (cases "length peer + length data \<le> MAX_PAYLOAD_SIZE")
  case True
  then show ?thesis
    using build_packet_fits [OF True] rp_copy_frame(1) [OF assms(1)] rp_copy_frame_None [OF True] by (cases "PEER_LENGTH + length peer + length data \<le> MAX_PAYLOAD_SIZE") auto
next
  case False
  then show ?thesis using build_packet_None [of peer data] assms(2,3) by simp
qed

theorem router_packet_fits_witness:
  "(build_packet ''10.0.0.1:4000'' (replicate 1008 (CHR ''x'')) \<bind> rp_copy (replicate PACKET_SIZE (CHR 0x00))) = None"
  using router_packet_fits [of "replicate PACKET_SIZE (CHR 0x00)" "''10.0.0.1:4000''" "replicate 1008 (CHR ''x'')"]
  by (simp add: packet_sizes)

text \<open>A payload whose length is less than that of the address plus four is accepted, and then its data is read far outside the array.\<close>

lemma packet_data_wraps:
  assumes "length (rp_payload p) = PACKET_SIZE" and "rp_payloadLength p \<le> of_nat MAX_PAYLOAD_SIZE" and "decode_peer p = Some (True, q)"
    and "unat (rp_payloadLength q) < unat (rp_peerLength q) + 4"
  shows "packet_data q = None"
proof -
  have q: "length (rp_payload q) = 1032" "rp_payloadLength q = rp_payloadLength p" "rp_peerLength q \<le> rp_payloadLength p"
    using assms(1,3) by (auto simp: decode_peer_def bind_eq_Some_conv Let_def packet_sizes split: if_splits)
  have n: "unat (rp_payloadLength p) \<le> 1024" using assms(2) by (simp add: word_le_nat_alt packet_sizes)
  have m: "unat (rp_payloadLength p - rp_peerLength q) = unat (rp_payloadLength p) - unat (rp_peerLength q)"
    using q(3) by (simp add: unat_sub)
  then have "unat (rp_payloadLength p - rp_peerLength q) < 4" using assms(4) q(2) by simp
  then have "unat (rp_payloadLength p - rp_peerLength q - 4) \<ge> 2 ^ 32 - 4"
    by (simp add: unat_sub_if_size word_size)
  then show ?thesis using q by (simp add: packet_data_def packet_data_length_def read_at_def packet_sizes)
qed

end
