(* ===== verification/Router_Addr.thy ===== *)
theory Router_Addr
  imports Zlog_Numerals Zc_Util
begin

text \<open>
  The addresses of the router: \<^verbatim>\<open>class AdrTuple\<close> (\<^verbatim>\<open>inc/adrTuple.h\<close>, \<^verbatim>\<open>src/adrTuple.cpp\<close>), the key of the table of sessions, and
  \<open>split_addr\<close> of \<^verbatim>\<open>src/common.cpp\<close>. The type \<open>ip::address\<close> is a linearly ordered type parameter; how such an address is printed and
  read is a parameter \<open>asio\<close>.
\<close>

record 'a asio =
  as_to_string :: "'a \<Rightarrow> string"
  as_from_string :: "string \<Rightarrow> 'a option"
  as_default :: 'a

datatype transport = TransportNone | UDP | TCP

fun transport_rank :: "transport \<Rightarrow> nat" where
  "transport_rank TransportNone = 0"
| "transport_rank UDP = 1"
| "transport_rank TCP = 2"

lemma transport_rank_inj: "transport_rank a = transport_rank b \<longleftrightarrow> a = b"
  by (cases a; cases b) auto

instantiation transport :: linorder
begin

definition less_eq_transport :: "transport \<Rightarrow> transport \<Rightarrow> bool" where
  "less_eq_transport a b \<longleftrightarrow> transport_rank a \<le> transport_rank b"

definition less_transport :: "transport \<Rightarrow> transport \<Rightarrow> bool" where
  "less_transport a b \<longleftrightarrow> transport_rank a < transport_rank b"

instance
  by standard (auto simp: less_eq_transport_def less_transport_def transport_rank_inj)

end

datatype 'a adr_tuple = AdrTuple (at_transport: transport) (at_adr: 'a) (at_port: "32 word")

definition adr_eq :: "'a adr_tuple \<Rightarrow> 'a adr_tuple \<Rightarrow> bool" where
  "adr_eq t other \<longleftrightarrow> at_transport t = at_transport other \<and> at_adr t = at_adr other \<and> at_port t = at_port other"

definition adr_neq :: "'a adr_tuple \<Rightarrow> 'a adr_tuple \<Rightarrow> bool" where
  "adr_neq t other \<longleftrightarrow> at_transport t \<noteq> at_transport other \<or> at_adr t \<noteq> at_adr other \<or> at_port t \<noteq> at_port other"

definition adr_less :: "'a::linorder adr_tuple \<Rightarrow> 'a adr_tuple \<Rightarrow> bool" where
  "adr_less t other =
     (if at_transport t < at_transport other then True
      else if at_transport t > at_transport other then False
      else if at_adr t < at_adr other then True
      else if at_adr t = at_adr other then at_port t < at_port other
      else False)"

definition adr_to_string :: "'a asio \<Rightarrow> 'a adr_tuple \<Rightarrow> string" where
  "adr_to_string lib t = as_to_string lib (at_adr t) @ '':'' @ base_string 10 (unat (at_port t))"

definition setTransportType :: "transport \<Rightarrow> 'a adr_tuple \<Rightarrow> 'a adr_tuple" where
  "setTransportType transport t = AdrTuple transport (at_adr t) (at_port t)"

definition setAddress :: "'a \<Rightarrow> 'a adr_tuple \<Rightarrow> 'a adr_tuple" where
  "setAddress adr t = AdrTuple (at_transport t) adr (at_port t)"

definition setPort :: "32 word \<Rightarrow> 'a adr_tuple \<Rightarrow> 'a adr_tuple" where
  "setPort nPort t = AdrTuple (at_transport t) (at_adr t) nPort"

text \<open>The output operator.\<close>

definition adr_stream :: "'a asio \<Rightarrow> 'a adr_tuple \<Rightarrow> string" where
  "adr_stream lib t =
     (case at_transport t of TransportNone \<Rightarrow> ''[None '' | UDP \<Rightarrow> ''[UDP '' | TCP \<Rightarrow> ''[TCP '') @
     as_to_string lib (at_adr t) @ '':'' @ base_string 10 (unat (at_port t)) @ '']''"

text \<open>
  \<open>split_addr\<close>: the text up to a colon, and the rest. Copying a null pointer, or more than the arrays of the caller hold, is
  undefined.
\<close>

definition split_addr :: "string \<Rightarrow> nat \<Rightarrow> nat \<Rightarrow> (string \<times> string) option" where
  "split_addr ip_port ip_size port_size =
     (let t = dropWhile (\<lambda>c. c = CHR '':'') ip_port; ip = takeWhile (\<lambda>c. c \<noteq> CHR '':'') t; port = drop (length ip + 1) t in
      if t = [] \<or> \<not> length ip < ip_size \<or> \<not> length port < port_size then None else Some (ip, port))"

subsection \<open>The order of the table\<close>

lemma adr_less_alt:
  "adr_less x y \<longleftrightarrow> at_transport x < at_transport y \<or>
     at_transport x = at_transport y \<and> (at_adr x < at_adr y \<or> at_adr x = at_adr y \<and> at_port x < at_port y)"
  by (auto simp: adr_less_def)

lemma adr_eq_iff: "adr_eq x y \<longleftrightarrow> x = y"
  by (cases x; cases y) (simp add: adr_eq_def)

instantiation adr_tuple :: (linorder) linorder
begin

definition less_eq_adr_tuple :: "'a adr_tuple \<Rightarrow> 'a adr_tuple \<Rightarrow> bool" where
  "less_eq_adr_tuple x y \<longleftrightarrow> adr_less x y \<or> x = y"

definition less_adr_tuple :: "'a adr_tuple \<Rightarrow> 'a adr_tuple \<Rightarrow> bool" where
  "less_adr_tuple x y \<longleftrightarrow> adr_less x y"

instance
proof
  fix x y z :: "'a adr_tuple"
  show "x < y \<longleftrightarrow> x \<le> y \<and> \<not> y \<le> x" by (auto simp: less_eq_adr_tuple_def less_adr_tuple_def adr_less_alt)
  show "x \<le> x" by (simp add: less_eq_adr_tuple_def)
  show "x \<le> y \<Longrightarrow> y \<le> z \<Longrightarrow> x \<le> z" by (auto simp: less_eq_adr_tuple_def adr_less_alt)
  show "x \<le> y \<Longrightarrow> y \<le> x \<Longrightarrow> x = y" by (auto simp: less_eq_adr_tuple_def adr_less_alt)
  show "x \<le> y \<or> y \<le> x" by (cases x; cases y) (auto simp: less_eq_adr_tuple_def adr_less_alt)
qed

end

text \<open>C16: The operators of \<open>AdrTuple\<close> fit together: \<open>operator==\<close> is equality, \<open>operator!=\<close> its negation, and \<open>operator<\<close> a strict
  total order, as the table of sessions needs it.\<close>

theorem adr_tuple_operators:
  "(adr_eq x y \<longleftrightarrow> x = y) \<and> (adr_neq x y \<longleftrightarrow> \<not> adr_eq x y) \<and> \<not> adr_less x x \<and>
   (adr_less x y \<and> adr_less y z \<longrightarrow> adr_less x z) \<and> (adr_less x y \<or> adr_eq x y \<or> adr_less y x)"
  unfolding less_adr_tuple_def [symmetric] adr_eq_iff by (auto simp: adr_neq_def adr_tuple.expand)

theorem adr_tuple_operators_witness:
  "adr_less (AdrTuple UDP (1 :: nat) 9) (AdrTuple UDP 2 1) \<and> adr_less (AdrTuple UDP 2 1) (AdrTuple TCP 0 (0 :: 32 word))
   \<and> adr_less (AdrTuple UDP (1 :: nat) 9) (AdrTuple TCP 0 0)"
  using adr_tuple_operators [of "AdrTuple UDP (1 :: nat) 9" "AdrTuple UDP 2 1" "AdrTuple TCP 0 0"]
  by (simp add: adr_less_def less_transport_def)

text \<open>Printing an address and splitting it again.\<close>

lemma split_addr_to_string:
  assumes "as_to_string lib (at_adr t) \<noteq> []" and "CHR '':'' \<notin> set (as_to_string lib (at_adr t))" and "length (as_to_string lib (at_adr t)) < n"
    and "length (base_string 10 (unat (at_port t))) < k"
  shows "split_addr (adr_to_string lib t) n k = Some (as_to_string lib (at_adr t), base_string 10 (unat (at_port t)))"
proof -
  let ?a = "as_to_string lib (at_adr t)" and ?p = "base_string 10 (unat (at_port t))"
  have d: "dropWhile (\<lambda>c. c = CHR '':'') (adr_to_string lib t) = adr_to_string lib t"
    using assms(1,2) by (cases ?a) (auto simp: adr_to_string_def)
  have w: "takeWhile (\<lambda>c. c \<noteq> CHR '':'') (adr_to_string lib t) = ?a"
    using assms(2) by (auto simp: adr_to_string_def takeWhile_append takeWhile_eq_all_conv)
  show ?thesis unfolding split_addr_def d w Let_def using assms by (simp add: adr_to_string_def)
qed

end
