(* ===== verification/Router_Relay.thy ===== *)
theory Router_Relay
  imports Router_Packet Router_Addr
begin

text \<open>
  The router: the sessions between a UDP peer and the TCP server (\<^verbatim>\<open>src/routerSession.cpp\<close>), their manager (\<^verbatim>\<open>src/sessionManager.cpp\<close>),
  the UDP server (\<^verbatim>\<open>src/udpRelayServer.cpp\<close>) and the TCP server (\<^verbatim>\<open>src/tcpRelayServer.cpp\<close>). Every operation of \<open>boost::asio\<close> that the code
  starts is entered in a list of pending operations; a step of the router takes one of them, lets the environment complete it in any
  way that \<open>asio\<close> documents, and runs the handler. One thread runs \<open>io_service::run\<close>, so handlers do not overlap. Sessions are
  addresses in a heap, as the code shares pointers to them. The result \<open>None\<close> is undefined behaviour; an exception that leaves a
  handler ends the process. Logging is left out.
\<close>

subsection \<open>State\<close>

text \<open>The last two fields record the history of a session: the frames given to it, and those written to its connection.\<close>

record 'a session =
  se_tuple :: "'a adr_tuple"
  se_packet :: router_packet
  se_queue :: "router_packet list"
  se_open :: bool
  se_received :: "string list"
  se_sent :: "string list"

type_synonym 'a endpoint = "'a \<times> 16 word"

text \<open>An operation in progress, with what is bound to its handler; a write or send holds the characters of its buffer.\<close>

datatype 'a op =
    Resolve nat string string
  | Connect nat "'a endpoint list"
  | ReadHeader nat
  | ReadPayload nat nat
  | WriteTcp nat string
  | Failed nat
  | Receive
  | SendUdp "'a endpoint" string
  | Accept nat

record 'a router =
  rt_heap :: "nat \<rightharpoonup> 'a session"
  rt_brk :: nat
  rt_sessions :: "('a adr_tuple \<times> nat) list"
  rt_tcpQueue :: "router_packet list"
  rt_ops :: "'a op list"
  rt_f1 :: "string \<times> nat"
  rt_dead :: bool

definition async :: "'a op \<Rightarrow> 'a router \<Rightarrow> 'a router" where
  "async x r = r\<lparr>rt_ops := rt_ops r @ [x]\<rparr>"

definition put_session :: "nat \<Rightarrow> 'a session \<Rightarrow> 'a router \<Rightarrow> 'a router" where
  "put_session s se r = r\<lparr>rt_heap := (rt_heap r)(s \<mapsto> se)\<rparr>"

text \<open>The constructor of a session.\<close>

definition new_session :: "'a asio \<Rightarrow> 'a session" where
  "new_session lib = \<lparr>se_tuple = AdrTuple TransportNone (as_default lib) 0, se_packet = rp_clear, se_queue = [], se_open = False,
     se_received = [], se_sent = []\<rparr>"

definition alloc_session :: "'a session \<Rightarrow> 'a router \<Rightarrow> nat \<times> 'a router" where
  "alloc_session se r = (rt_brk r, (put_session (rt_brk r) se r)\<lparr>rt_brk := rt_brk r + 1\<rparr>)"

subsection \<open>The table of sessions\<close>

text \<open>\<open>std::map\<close>, as the list of its entries in the order of the keys.\<close>

fun map_put :: "'k::linorder \<Rightarrow> 'v \<Rightarrow> ('k \<times> 'v) list \<Rightarrow> ('k \<times> 'v) list" where
  "map_put k v [] = [(k, v)]"
| "map_put k v ((k', v') # m) = (if k < k' then (k, v) # (k', v') # m else if k' < k then (k', v') # map_put k v m else (k', v) # m)"

fun map_find :: "'k::linorder \<Rightarrow> ('k \<times> 'v) list \<Rightarrow> 'v option" where
  "map_find k [] = None"
| "map_find k ((k', v') # m) = (if k' < k then map_find k m else if k < k' then None else Some v')"

fun map_erase :: "'k::linorder \<Rightarrow> ('k \<times> 'v) list \<Rightarrow> ('k \<times> 'v) list" where
  "map_erase k [] = []"
| "map_erase k ((k', v') # m) = (if k' < k then (k', v') # map_erase k m else if k < k' then (k', v') # m else m)"

subsection \<open>Sessions: the side of the TCP server\<close>

text \<open>\<open>RouterSession::start\<close>.\<close>

definition start_session :: "nat \<Rightarrow> 'a router \<Rightarrow> 'a router" where
  "start_session s r = async (Resolve s (fst (rt_f1 r)) (base_string 10 (snd (rt_f1 r)))) r"

definition close_session :: "nat \<Rightarrow> 'a router \<Rightarrow> 'a router" where
  "close_session s r = async (Failed s) r"

definition start_read_from_tcp :: "nat \<Rightarrow> 'a router \<Rightarrow> 'a router" where
  "start_read_from_tcp s r = async (ReadHeader s) r"

definition deliver_to_tcp_peer :: "nat \<Rightarrow> 'a router \<Rightarrow> 'a router option" where
  "deliver_to_tcp_peer s r = do {
     se \<leftarrow> rt_heap r s;
     if \<not> se_open se then Some (start_session s r)
     else (case se_queue se of
             [] \<Rightarrow> Some r
           | p # _ \<Rightarrow> do { b \<leftarrow> packet_bytes p; Some (async (WriteTcp s b) r) })
   }"

text \<open>The packet is copied to the queue; \<open>raw\<close> is what the memory for the copy holds.\<close>

definition add_router_packet :: "string \<Rightarrow> nat \<Rightarrow> router_packet \<Rightarrow> 'a router \<Rightarrow> 'a router option" where
  "add_router_packet raw s udpPacket r = do {
     se \<leftarrow> rt_heap r s;
     p \<leftarrow> rp_copy raw udpPacket;
     b \<leftarrow> packet_bytes udpPacket;
     let r = put_session s (se\<lparr>se_queue := se_queue se @ [p], se_received := se_received se @ [b]\<rparr>) r;
     if se_queue se = [] then deliver_to_tcp_peer s r else Some r
   }"

text \<open>\<open>RouterSession::set_udp_buffer\<close> makes the packet itself.\<close>

definition set_udp_buffer :: "'a asio \<Rightarrow> string \<Rightarrow> nat \<Rightarrow> string \<Rightarrow> 'a router \<Rightarrow> 'a router option" where
  "set_udp_buffer lib raw s buf r = do {
     se \<leftarrow> rt_heap r s;
     p \<leftarrow> build_packet (adr_to_string lib (se_tuple se)) buf;
     add_router_packet raw s p r
   }"

text \<open>\<open>async_connect\<close> opens the socket.\<close>

definition connect_next :: "nat \<Rightarrow> 'a endpoint list \<Rightarrow> 'a router \<Rightarrow> 'a router option" where
  "connect_next s eps r = do {
     se \<leftarrow> rt_heap r s;
     (case eps of [] \<Rightarrow> None | _ # eps \<Rightarrow> Some (async (Connect s eps) (put_session s (se\<lparr>se_open := True\<rparr>) r)))
   }"

definition handle_resolve :: "nat \<Rightarrow> bool \<Rightarrow> 'a endpoint list \<Rightarrow> 'a router \<Rightarrow> 'a router option" where
  "handle_resolve s error eps r =
     (if \<not> error then connect_next s eps r
      else if eps \<noteq> [] then connect_next s eps r
      else Some (close_session s r))"

definition handle_connection :: "nat \<Rightarrow> bool \<Rightarrow> 'a endpoint list \<Rightarrow> 'a router \<Rightarrow> 'a router option" where
  "handle_connection s error eps r = do {
     se \<leftarrow> rt_heap r s;
     if \<not> error \<and> se_open se then do {
       r \<leftarrow> deliver_to_tcp_peer s r;
       Some (start_read_from_tcp s r)
     }
     else if eps \<noteq> [] then connect_next s eps r
     else Some (close_session s r)
   }"

text \<open>Not used by the other functions: the iterator is read before it is compared with the end.\<close>

definition start_tcp_connection :: "nat \<Rightarrow> 'a endpoint list \<Rightarrow> 'a router \<Rightarrow> 'a router option" where
  "start_tcp_connection s eps r = do {
     se \<leftarrow> rt_heap r s;
     (case eps of [] \<Rightarrow> None | _ \<Rightarrow> Some (async (Connect s eps) (put_session s (se\<lparr>se_open := True\<rparr>) r)))
   }"

definition handle_deliver_tcp :: "nat \<Rightarrow> bool \<Rightarrow> string \<Rightarrow> 'a router \<Rightarrow> 'a router option" where
  "handle_deliver_tcp s error b r = do {
     se \<leftarrow> rt_heap r s;
     if \<not> error then
       (case se_queue se of
          [] \<Rightarrow> None
        | _ # q \<Rightarrow>
            let r = put_session s (se\<lparr>se_queue := q, se_sent := se_sent se @ [b]\<rparr>) r in
            if q \<noteq> [] then deliver_to_tcp_peer s r else Some r)
     else Some (close_session s r)
   }"

subsection \<open>The manager and the UDP server\<close>

definition remove_session :: "'a::linorder adr_tuple \<Rightarrow> 'a router \<Rightarrow> 'a router" where
  "remove_session t r =
     (if map_find t (rt_sessions r) \<noteq> None then r\<lparr>rt_sessions := map_erase t (rt_sessions r)\<rparr> else r)"

definition add_session :: "nat \<Rightarrow> 'a::linorder router \<Rightarrow> 'a router option" where
  "add_session s r = do { se \<leftarrow> rt_heap r s; Some (r\<lparr>rt_sessions := map_put (se_tuple se) s (rt_sessions r)\<rparr>) }"

definition handle_connection_failed :: "nat \<Rightarrow> 'a::linorder router \<Rightarrow> 'a router option" where
  "handle_connection_failed s r = do { se \<leftarrow> rt_heap r s; Some (remove_session (se_tuple se) r) }"

text \<open>The loop over the table that looks for the session of a peer.\<close>

fun find_session :: "(nat \<rightharpoonup> 'a session) \<Rightarrow> 'a adr_tuple \<Rightarrow> ('a adr_tuple \<times> nat) list \<Rightarrow> nat option option" where
  "find_session h t [] = Some None"
| "find_session h t ((_, s) # m) = do { se \<leftarrow> h s; if adr_eq (se_tuple se) t then Some (Some s) else find_session h t m }"

definition deliver_from_udp_peer ::
  "'a::linorder asio \<Rightarrow> string \<Rightarrow> 'a adr_tuple \<Rightarrow> string \<Rightarrow> 'a router \<Rightarrow> 'a router option" where
  "deliver_from_udp_peer lib raw t buf r = do {
     it \<leftarrow> find_session (rt_heap r) t (rt_sessions r);
     udpPacket \<leftarrow> build_packet (adr_to_string lib t) buf;
     (case it of
        None \<Rightarrow>
          let (s, r) = alloc_session ((new_session lib)\<lparr>se_tuple := t\<rparr>) r in do {
            r \<leftarrow> add_session s r;
            add_router_packet raw s udpPacket r
          }
      | Some s \<Rightarrow> add_router_packet raw s udpPacket r)
   }"

text \<open>
  \<open>UdpRelayServer::deliver_to_udp_peer\<close>, which both functions of that name do: it starts to send the first packet of the queue. A
  packet without an address is dropped; an address that cannot be read is an exception.
\<close>

definition deliver_to_udp_peer :: "'a asio \<Rightarrow> 'a router \<Rightarrow> 'a router option" where
  "deliver_to_udp_peer lib r =
     (case rt_tcpQueue r of
        [] \<Rightarrow> Some r
      | p # q \<Rightarrow> do {
          (res, peer) \<leftarrow> get_peer_data p [] 128;
          if \<not> res then Some (r\<lparr>rt_tcpQueue := q\<rparr>)
          else do {
            (ip, port) \<leftarrow> split_addr peer 32 8;
            (case as_from_string lib ip of
               None \<Rightarrow> Some (r\<lparr>rt_dead := True\<rparr>)
             | Some a \<Rightarrow> do { b \<leftarrow> packet_data p; Some (async (SendUdp (a, word_of_int (atoi port)) b) r) })
          }
        })"

definition add_tcp_packet :: "'a asio \<Rightarrow> string \<Rightarrow> router_packet \<Rightarrow> 'a router \<Rightarrow> 'a router option" where
  "add_tcp_packet lib raw packet r = do {
     let bWriteInProgress = (rt_tcpQueue r = []);
     p \<leftarrow> rp_copy raw packet;
     let r = r\<lparr>rt_tcpQueue := rt_tcpQueue r @ [p]\<rparr>;
     if \<not> bWriteInProgress then deliver_to_udp_peer lib r else Some r
   }"

definition handle_deliver_to_udp_peer :: "'a asio \<Rightarrow> bool \<Rightarrow> 'a router \<Rightarrow> 'a router option" where
  "handle_deliver_to_udp_peer lib error r =
     (if error then Some r
      else case rt_tcpQueue r of [] \<Rightarrow> Some r | _ # q \<Rightarrow> deliver_to_udp_peer lib (r\<lparr>rt_tcpQueue := q\<rparr>))"

definition NETWOR_BUFFER_SIZE :: nat where "NETWOR_BUFFER_SIZE = 1024"

definition start_receive :: "'a router \<Rightarrow> 'a router" where
  "start_receive r = async Receive r"

definition handle_receive :: "'a::linorder asio \<Rightarrow> string \<Rightarrow> bool \<Rightarrow> 'a endpoint \<Rightarrow> string \<Rightarrow> 'a router \<Rightarrow> 'a router option" where
  "handle_receive lib raw error remote buf r = do {
     let t = AdrTuple UDP (fst remote) (ucast (snd remote));
     r \<leftarrow> (if \<not> error \<or> length buf > 0 then deliver_from_udp_peer lib raw t buf r else Some (remove_session t r));
     Some (start_receive r)
   }"

subsection \<open>Sessions: reading from the TCP server\<close>

definition handle_read_header :: "nat \<Rightarrow> bool \<Rightarrow> string \<Rightarrow> 'a router \<Rightarrow> 'a router option" where
  "handle_read_header s error buf r = do {
     se \<leftarrow> rt_heap r s;
     p \<leftarrow> receive_header buf (se_packet se);
     if length buf = 0 then Some (close_session s r)
     else if \<not> error then do {
       (ok, p) \<leftarrow> decode_header p;
       let r = put_session s (se\<lparr>se_packet := p\<rparr>) r;
       if ok then Some (async (ReadPayload s (unat (rp_payloadLength p))) r) else Some (close_session s r)
     }
     else Some (close_session s (put_session s (se\<lparr>se_packet := p\<rparr>) r))
   }"

text \<open>A session that reads no characters is closed, and once more when there is an error.\<close>

definition handle_read_payload :: "'a asio \<Rightarrow> string \<Rightarrow> nat \<Rightarrow> bool \<Rightarrow> string \<Rightarrow> 'a router \<Rightarrow> 'a router option" where
  "handle_read_payload lib raw s error buf r = do {
     se \<leftarrow> rt_heap r s;
     p \<leftarrow> receive_payload buf (se_packet se);
     let r = (if length buf = 0 then close_session s r else r);
     if error then Some (close_session s (put_session s (se\<lparr>se_packet := p\<rparr>) r))
     else if length buf = 0 then Some (put_session s (se\<lparr>se_packet := rp_clear\<rparr>) r)
     else do {
       (ok, p) \<leftarrow> decode_peer p;
       if ok then do {
         r \<leftarrow> add_tcp_packet lib raw p (put_session s (se\<lparr>se_packet := p\<rparr>) r);
         if rt_dead r then Some r
         else do {
           r \<leftarrow> deliver_to_udp_peer lib (put_session s (se\<lparr>se_packet := rp_clear\<rparr>) r);
           if rt_dead r then Some r else Some (start_read_from_tcp s r)
         }
       }
       else Some (put_session s (se\<lparr>se_packet := rp_clear\<rparr>) r)
     }
   }"

subsection \<open>The TCP server\<close>

text \<open>\<open>TcpRelayServer::start\<close> when \<open>open()\<close> succeeds: a session waits for a connection to be accepted.\<close>

definition tcp_relay_start :: "'a asio \<Rightarrow> 'a router \<Rightarrow> 'a router" where
  "tcp_relay_start lib r = (let (s, r) = alloc_session (new_session lib) r in async (Accept s) r)"

definition handle_accept :: "'a asio \<Rightarrow> nat \<Rightarrow> bool \<Rightarrow> 'a router \<Rightarrow> 'a router option" where
  "handle_accept lib s error r = do {
     se \<leftarrow> rt_heap r s;
     let r = start_read_from_tcp s (put_session s (if error then se else se\<lparr>se_open := True\<rparr>) r);
     Some (tcp_relay_start lib r)
   }"

subsection \<open>Laws of the table\<close>

text \<open>What the manager relies on, and what it concludes.\<close>

locale session_table =
  fixes find :: "'k \<Rightarrow> 'm \<Rightarrow> 'v option" and put :: "'k \<Rightarrow> 'v \<Rightarrow> 'm \<Rightarrow> 'm" and erase :: "'k \<Rightarrow> 'm \<Rightarrow> 'm" and ok :: "'m \<Rightarrow> bool"
  assumes find_put: "ok m \<Longrightarrow> find k' (put k v m) = (if k' = k then Some v else find k' m)"
    and find_erase: "ok m \<Longrightarrow> find k' (erase k m) = (if k' = k then None else find k' m)"
    and ok_put: "ok m \<Longrightarrow> ok (put k v m)"
    and ok_erase: "ok m \<Longrightarrow> ok (erase k m)"
begin

definition entries_ok :: "('k \<Rightarrow> 'v \<Rightarrow> bool) \<Rightarrow> 'm \<Rightarrow> bool" where
  "entries_ok P m \<longleftrightarrow> ok m \<and> (\<forall>k v. find k m = Some v \<longrightarrow> P k v)"

lemma entries_ok_put: "entries_ok P m \<Longrightarrow> P k v \<Longrightarrow> entries_ok P (put k v m)"
  by (auto simp: entries_ok_def find_put ok_put)

lemma entries_ok_erase: "entries_ok P m \<Longrightarrow> entries_ok P (erase k m)"
  by (auto simp: entries_ok_def find_erase ok_erase split: if_splits)

lemma entries_ok_mono: "entries_ok P m \<Longrightarrow> (\<And>k v. P k v \<Longrightarrow> Q k v) \<Longrightarrow> entries_ok Q m"
  by (auto simp: entries_ok_def)

end

definition map_ok :: "('k::linorder \<times> 'v) list \<Rightarrow> bool" where
  "map_ok m \<longleftrightarrow> sorted_wrt (<) (map fst m)"

lemma map_put_keys: "set (map fst (map_put k v m)) = insert k (set (map fst m))"
  by (induction k v m rule: map_put.induct) auto

lemma map_erase_keys: "set (map fst (map_erase k m)) \<subseteq> set (map fst m)"
  by (induction k m rule: map_erase.induct) auto

lemma map_ok_put: "map_ok m \<Longrightarrow> map_ok (map_put k v m)"
proof (induction k v m rule: map_put.induct)
  case (2 k v k' v' m)
  then show ?case using map_put_keys [of k v m] by (auto simp: map_ok_def ball_Un simp del: set_map)
qed (simp add: map_ok_def)

lemma map_ok_erase: "map_ok m \<Longrightarrow> map_ok (map_erase k m)"
proof (induction k m rule: map_erase.induct)
  case (2 k k' v' m)
  then show ?case using map_erase_keys [of k m] by (auto simp: map_ok_def simp del: set_map)
qed (simp add: map_ok_def)

lemma map_of_below: "map_ok ((k1, v1) # m) \<Longrightarrow> k \<le> k1 \<Longrightarrow> map_of m k = None"
  by (fastforce simp: map_ok_def map_of_eq_None_iff)

lemma map_find_of: "map_ok m \<Longrightarrow> map_find k m = map_of m k"
proof (induction k m rule: map_find.induct)
  case (2 k k' v' m)
  have "map_of m k = None" if "k < k'" using map_of_below [OF 2(2), of k] that by simp
  then show ?case using 2 by (auto simp: map_ok_def)
qed simp

lemma map_find_put: "map_ok m \<Longrightarrow> map_find k' (map_put k v m) = (if k' = k then Some v else map_find k' m)"
proof (induction k v m rule: map_put.induct)
  case (2 k v k1 v1 m)
  then show ?case by (auto simp: map_ok_def)
qed auto

lemma map_find_erase: "map_ok m \<Longrightarrow> map_find k' (map_erase k m) = (if k' = k then None else map_find k' m)"
proof (induction k m rule: map_erase.induct)
  case (2 k k1 v1 m)
  have "map_of m k' = None" if "k' \<le> k1" using map_of_below [OF 2(2) that] .
  then show ?case using 2 by (auto simp: map_ok_def map_find_of)
qed simp

interpretation st: session_table map_find map_put map_erase map_ok
  by unfold_locales (simp_all add: map_find_put map_find_erase map_ok_put map_ok_erase)

end
