(* ===== verification/Router_System.thy ===== *)
theory Router_System
  imports Router_Relay
begin

text \<open>
  The router as a state machine: the steps that completions of pending operations make, the states reached from the start of
  \<open>run()\<close> (\<^verbatim>\<open>src/main.cpp\<close>), and the invariant of these states.
\<close>

subsection \<open>Steps\<close>

text \<open>How an operation completes: an error or not, the characters transferred, the endpoints found, the sender of a datagram, and
  what the memory for a copy of a packet holds.\<close>

record 'a completion =
  cp_error :: bool
  cp_bytes :: string
  cp_endpoints :: "'a endpoint list"
  cp_remote :: "'a endpoint"
  cp_raw :: string

fun run_handler :: "'a::linorder asio \<Rightarrow> 'a completion \<Rightarrow> 'a op \<Rightarrow> 'a router \<Rightarrow> 'a router option" where
  "run_handler lib c (Resolve s server port) r = handle_resolve s (cp_error c) (cp_endpoints c) r"
| "run_handler lib c (Connect s eps) r = handle_connection s (cp_error c) eps r"
| "run_handler lib c (ReadHeader s) r = handle_read_header s (cp_error c) (cp_bytes c) r"
| "run_handler lib c (ReadPayload s n) r = handle_read_payload lib (cp_raw c) s (cp_error c) (cp_bytes c) r"
| "run_handler lib c (WriteTcp s b) r = handle_deliver_tcp s (cp_error c) b r"
| "run_handler lib c (Failed s) r = handle_connection_failed s r"
| "run_handler lib c Receive r = handle_receive lib (cp_raw c) (cp_error c) (cp_remote c) (cp_bytes c) r"
| "run_handler lib c (SendUdp ep b) r = handle_deliver_to_udp_peer lib (cp_error c) r"
| "run_handler lib c (Accept s) r = handle_accept lib s (cp_error c) r"

text \<open>What \<open>asio\<close> documents: a read that succeeds has filled its buffer, no read overruns it, and a successful resolution has a result.\<close>

fun documented :: "'a op \<Rightarrow> 'a completion \<Rightarrow> bool" where
  "documented (Resolve s server port) c \<longleftrightarrow> length (cp_raw c) = PACKET_SIZE \<and> (cp_error c \<or> cp_endpoints c \<noteq> [])"
| "documented (ReadHeader s) c \<longleftrightarrow>
     length (cp_raw c) = PACKET_SIZE \<and> length (cp_bytes c) \<le> HEADER_LENGTH \<and> (cp_error c \<or> length (cp_bytes c) = HEADER_LENGTH)"
| "documented (ReadPayload s n) c \<longleftrightarrow> length (cp_raw c) = PACKET_SIZE \<and> length (cp_bytes c) \<le> n \<and> (cp_error c \<or> length (cp_bytes c) = n)"
| "documented Receive c \<longleftrightarrow> length (cp_raw c) = PACKET_SIZE \<and> length (cp_bytes c) \<le> NETWOR_BUFFER_SIZE"
| "documented _ c \<longleftrightarrow> length (cp_raw c) = PACKET_SIZE"

definition complete :: "'a::linorder asio \<Rightarrow> 'a completion \<Rightarrow> 'a op \<Rightarrow> 'a router \<Rightarrow> 'a router option" where
  "complete lib c x r = run_handler lib c x (r\<lparr>rt_ops := remove1 x (rt_ops r)\<rparr>)"

inductive router_step :: "'a::linorder asio \<Rightarrow> 'a router \<Rightarrow> 'a router \<Rightarrow> bool" for lib where
  completion: "router_step lib r r'" if "\<not> rt_dead r" "x \<in> set (rt_ops r)" "documented x c" "complete lib c x r = Some r'"
| listen: "router_step lib r (tcp_relay_start lib r)" if "\<not> rt_dead r"

definition router_start :: "string \<times> nat \<Rightarrow> 'a router" where
  "router_start f1 = start_receive \<lparr>rt_heap = Map.empty, rt_brk = 0, rt_sessions = [], rt_tcpQueue = [], rt_ops = [], rt_f1 = f1, rt_dead = False\<rparr>"

inductive reachable :: "'a::linorder asio \<Rightarrow> string \<times> nat \<Rightarrow> 'a router \<Rightarrow> bool" for lib f1 where
  start: "reachable lib f1 (router_start f1)"
| step: "reachable lib f1 r \<Longrightarrow> router_step lib r r' \<Longrightarrow> reachable lib f1 r'"

subsection \<open>The invariant\<close>

text \<open>The operations that move packets of a session towards the server.\<close>

fun drives :: "nat \<Rightarrow> 'a op \<Rightarrow> bool" where
  "drives s (Resolve t _ _) \<longleftrightarrow> t = s"
| "drives s (Connect t _) \<longleftrightarrow> t = s"
| "drives s (WriteTcp t _) \<longleftrightarrow> t = s"
| "drives s _ \<longleftrightarrow> False"

definition drivers :: "nat \<Rightarrow> 'a op list \<Rightarrow> 'a op list" where
  "drivers s xs = filter (drives s) xs"

fun op_ok :: "nat \<Rightarrow> 'a op \<Rightarrow> bool" where
  "op_ok brk (Resolve s _ _) \<longleftrightarrow> s < brk"
| "op_ok brk (Connect s _) \<longleftrightarrow> s < brk"
| "op_ok brk (ReadHeader s) \<longleftrightarrow> s < brk"
| "op_ok brk (ReadPayload s n) \<longleftrightarrow> s < brk \<and> n \<le> MAX_PAYLOAD_SIZE"
| "op_ok brk (WriteTcp s _) \<longleftrightarrow> s < brk"
| "op_ok brk (Failed s) \<longleftrightarrow> s < brk"
| "op_ok brk (Accept s) \<longleftrightarrow> s < brk"
| "op_ok brk _ \<longleftrightarrow> True"

text \<open>The frames given to a session are those written, then those in the queue.\<close>

definition history_ok :: "'a session \<Rightarrow> bool" where
  "history_ok se \<longleftrightarrow> (\<exists>bs. se_received se = se_sent se @ bs \<and> map packet_bytes (se_queue se) = map Some bs)"

text \<open>A session with its driving operations: at most one, there is something to send, and what is being written is the head of
  the queue.\<close>

definition session_ok :: "'a session \<Rightarrow> 'a op list \<Rightarrow> bool" where
  "session_ok se ds \<longleftrightarrow> length (rp_payload (se_packet se)) = PACKET_SIZE \<and> history_ok se \<and>
     (ds = [] \<or> (\<exists>d. ds = [d] \<and> se_queue se \<noteq> [] \<and> (\<forall>s eps. d = Connect s eps \<longrightarrow> se_open se) \<and>
       (\<forall>s b. d = WriteTcp s b \<longrightarrow> se_open se \<and> packet_bytes (hd (se_queue se)) = Some b)))"

definition router_ok :: "'a::linorder router \<Rightarrow> bool" where
  "router_ok r \<longleftrightarrow> (\<forall>s. rt_heap r s \<noteq> None \<longleftrightarrow> s < rt_brk r) \<and> list_all (op_ok (rt_brk r)) (rt_ops r) \<and>
     (\<forall>s se. rt_heap r s = Some se \<longrightarrow> session_ok se (drivers s (rt_ops r))) \<and>
     st.entries_ok (\<lambda>t s. \<exists>se. rt_heap r s = Some se \<and> se_tuple se = t) (rt_sessions r)"

text \<open>What a handler of one session does: it changes that session and starts operations.\<close>

definition acts :: "nat \<Rightarrow> 'a session \<Rightarrow> 'a op list \<Rightarrow> 'a router \<Rightarrow> 'a router \<Rightarrow> bool" where
  "acts s se' xs r r' \<longleftrightarrow> rt_heap r' = (rt_heap r)(s \<mapsto> se') \<and> rt_ops r' = rt_ops r @ xs \<and> rt_brk r' = rt_brk r \<and> rt_sessions r' = rt_sessions r"

lemma acts_trans: "acts s se xs r r1 \<Longrightarrow> acts s se' ys r1 r2 \<Longrightarrow> acts s se' (xs @ ys) r r2"
  by (simp add: acts_def)

lemma acts_put [simp]: "acts s se' xs (put_session s se r) r' \<longleftrightarrow> acts s se' xs r r'"
  by (simp add: acts_def put_session_def)

lemma acts_refl: "rt_heap r s = Some se \<Longrightarrow> acts s se [] r r"
  by (auto simp: acts_def)

lemma acts_async: "acts s se xs r r' \<Longrightarrow> acts s se (xs @ [x]) r (async x r')"
  by (simp add: acts_def async_def)

lemma acts_close: "acts s se xs r r' \<Longrightarrow> acts s se (xs @ [Failed s]) r (close_session s r')"
  by (simp add: close_session_def acts_async)

lemma acts_session: "acts s se xs r (put_session s se r') \<longleftrightarrow> acts s se xs r (put_session s se (put_session s se'' r'))"
  by (simp add: acts_def put_session_def)

lemma drivers_simps [simp]:
  "drivers s [] = []" "drivers s (xs @ ys) = drivers s xs @ drivers s ys"
  "drivers s (x # xs) = (if drives s x then x # drivers s xs else drivers s xs)"
  by (simp_all add: drivers_def)

lemma drivers_remove1: "drivers s (remove1 x xs) = (if drives s x then remove1 x (drivers s xs) else drivers s xs)"
  by (auto simp: drivers_def filter_remove1 remove1_idem)

lemma router_ok_acts:
  assumes "router_ok r" and "rt_heap r s = Some se" and "acts s se' xs (r\<lparr>rt_ops := remove1 x (rt_ops r)\<rparr>) r'" and "se_tuple se' = se_tuple se"
    and "list_all (op_ok (rt_brk r)) xs" and "\<And>t y. t \<noteq> s \<Longrightarrow> y \<in> set (x # xs) \<Longrightarrow> \<not> drives t y"
    and "session_ok se' (drivers s (remove1 x (rt_ops r)) @ drivers s xs)"
  shows "router_ok r'"
proof -
  have h: "rt_heap r' = (rt_heap r)(s \<mapsto> se')" and o: "rt_ops r' = remove1 x (rt_ops r) @ xs" and b: "rt_brk r' = rt_brk r"
    and m: "rt_sessions r' = rt_sessions r" using assms(3) by (simp_all add: acts_def)
  have d: "drivers t (rt_ops r') = drivers t (rt_ops r)" if "t \<noteq> s" for t
    using assms(6) [OF that] by (simp add: o drivers_remove1) (simp add: drivers_def filter_empty_conv)
  have "st.entries_ok (\<lambda>t a. \<exists>se. rt_heap r' a = Some se \<and> se_tuple se = t) (rt_sessions r')"
    unfolding m by (rule st.entries_ok_mono [where P = "\<lambda>t a. \<exists>se. rt_heap r a = Some se \<and> se_tuple se = t"])
      (use assms(1,2,4) h in \<open>auto simp: router_ok_def\<close>)
  moreover have "list_all (op_ok (rt_brk r')) (rt_ops r')"
    using assms(1,5) by (auto simp: router_ok_def o b list_all_iff dest: notin_set_remove1)
  moreover have "session_ok se'' (drivers t (rt_ops r'))" if "rt_heap r' t = Some se''" for t se''
  proof (cases "t = s")
    case True
    then show ?thesis using that assms(7) h by (simp add: o)
  next
    case False
    then show ?thesis using that assms(1) h d [OF False] by (simp add: router_ok_def)
  qed
  moreover have "rt_heap r' t \<noteq> None \<longleftrightarrow> t < rt_brk r'" for t
    using assms(1,2) by (auto simp: router_ok_def h b)
  ultimately show ?thesis unfolding router_ok_def by blast
qed

text \<open>Starting to deliver from a session without a driving operation.\<close>

lemma deliver_to_tcp_peer_acts:
  assumes "deliver_to_tcp_peer s r = Some r'" and "rt_heap r s = Some se" and "se_queue se \<noteq> []"
  obtains d where "acts s se [d] r r'" and "\<And>t. drives t d \<longleftrightarrow> s = t" and "\<And>brk. op_ok brk d \<longleftrightarrow> s < brk"
    and "\<forall>t b. d = WriteTcp t b \<longrightarrow> se_open se \<and> packet_bytes (hd (se_queue se)) = Some b" and "\<forall>t eps. d \<noteq> Connect t eps"
proof (cases "se_open se")
  case False
  then show ?thesis
    using assms that [of "Resolve s (fst (rt_f1 r)) (base_string 10 (snd (rt_f1 r)))"]
    by (auto simp: deliver_to_tcp_peer_def start_session_def acts_def async_def fun_upd_idem)
next
  case True
  then obtain b where b: "packet_bytes (hd (se_queue se)) = Some b" "r' = async (WriteTcp s b) r"
    using assms by (cases "se_queue se") (auto simp: deliver_to_tcp_peer_def bind_eq_Some_conv)
  then show ?thesis using that [of "WriteTcp s b"] True assms(2) by (auto simp: acts_def async_def fun_upd_idem)
qed

subsection \<open>Every handler keeps the invariant\<close>

abbreviation taken :: "'a op \<Rightarrow> 'a router \<Rightarrow> 'a router" where
  "taken x r \<equiv> r\<lparr>rt_ops := remove1 x (rt_ops r)\<rparr>"

lemma session_of_op:
  assumes "router_ok r" and "x \<in> set (rt_ops r)" and "\<And>brk. op_ok brk x \<Longrightarrow> s < brk"
  obtains se where "rt_heap r s = Some se" and "session_ok se (drivers s (rt_ops r))"
proof -
  have "s < rt_brk r" using assms by (auto simp: router_ok_def list_all_iff)
  then show ?thesis using assms(1) that unfolding router_ok_def by blast
qed

lemma driver_alone:
  assumes "session_ok se (drivers s (rt_ops r))" and "x \<in> set (rt_ops r)" and "drives s x"
  shows "drivers s (remove1 x (rt_ops r)) = []" and "se_queue se \<noteq> []"
    and "x = WriteTcp t b \<Longrightarrow> se_open se \<and> packet_bytes (hd (se_queue se)) = Some b" and "x = Connect t eps \<Longrightarrow> se_open se"
proof -
  have "x \<in> set (drivers s (rt_ops r))" using assms(2,3) by (simp add: drivers_def)
  then have d: "drivers s (rt_ops r) = [x]" "se_queue se \<noteq> []" "\<forall>t b. x = WriteTcp t b \<longrightarrow> se_open se \<and> packet_bytes (hd (se_queue se)) = Some b"
    "\<forall>t eps. x = Connect t eps \<longrightarrow> se_open se"
    using assms(1) by (auto simp: session_ok_def)
  show "drivers s (remove1 x (rt_ops r)) = []" using d(1) assms(3) by (simp add: drivers_remove1)
  show "se_queue se \<noteq> []" by (rule d(2))
  show "x = WriteTcp t b \<Longrightarrow> se_open se \<and> packet_bytes (hd (se_queue se)) = Some b" using d(3) by blast
  show "x = Connect t eps \<Longrightarrow> se_open se" using d(4) by blast
qed

lemma session_ok_idle: "session_ok se ds \<Longrightarrow> session_ok se []"
  by (simp add: session_ok_def)

lemma session_ok_open: "session_ok se ds \<Longrightarrow> session_ok (se\<lparr>se_open := True\<rparr>) ds"
  by (auto simp: session_ok_def history_ok_def)

lemma session_ok_packet: "session_ok se ds \<Longrightarrow> length (rp_payload p) = PACKET_SIZE \<Longrightarrow> session_ok (se\<lparr>se_packet := p\<rparr>) ds"
  by (simp add: session_ok_def history_ok_def)

lemma connect_next_acts:
  assumes "connect_next s eps r = Some r'" and "rt_heap r s = Some se"
  obtains eps' where "acts s (se\<lparr>se_open := True\<rparr>) [Connect s eps'] r r'"
  using assms by (cases eps) (auto simp: connect_next_def acts_def async_def put_session_def)

lemma connect_next_ok:
  assumes "router_ok r" and "x \<in> set (rt_ops r)" and "drives s x" and "\<And>t. drives t x \<Longrightarrow> t = s" and "rt_heap r s = Some se"
    and "connect_next s eps (taken x r) = Some r'"
  shows "router_ok r'"
proof -
  have ok: "session_ok se (drivers s (rt_ops r))" and b: "s < rt_brk r" using assms(1,5) by (auto simp: router_ok_def)
  note d = driver_alone [OF ok assms(2,3)]
  obtain eps' where a: "acts s (se\<lparr>se_open := True\<rparr>) [Connect s eps'] (taken x r) r'"
    using connect_next_acts [OF assms(6)] assms(5) by auto
  have "session_ok (se\<lparr>se_open := True\<rparr>) [Connect s eps']" using ok d(2) by (auto simp: session_ok_def history_ok_def)
  then show ?thesis
    by (intro router_ok_acts [OF assms(1,5) a]) (use assms(4) d(1) b in auto)
qed

lemma close_session_ok:
  assumes "router_ok r" and "x \<in> set (rt_ops r)" and "\<And>t. drives t x \<Longrightarrow> t = s" and "rt_heap r s = Some se"
  shows "router_ok (close_session s (taken x r))"
proof -
  have ok: "session_ok se (drivers s (rt_ops r))" and b: "s < rt_brk r" using assms(1,4) by (auto simp: router_ok_def)
  have "acts s se ([] @ [Failed s]) (taken x r) (close_session s (taken x r))"
    by (rule acts_close [OF acts_refl]) (use assms(4) in simp)
  then have a: "acts s se [Failed s] (taken x r) (close_session s (taken x r))" by simp
  have "session_ok se (drivers s (remove1 x (rt_ops r)))"
    using ok driver_alone(1) [OF ok assms(2)] session_ok_idle [OF ok] by (cases "drives s x") (simp_all add: drivers_remove1)
  then show ?thesis
    by (intro router_ok_acts [OF assms(1,4) a]) (use assms(3) b in auto)
qed

lemma handle_resolve_ok:
  assumes "router_ok r" and "Resolve s server port \<in> set (rt_ops r)" and "handle_resolve s error eps (taken (Resolve s server port) r) = Some r'"
  shows "router_ok r'"
proof -
  obtain se where se: "rt_heap r s = Some se" using session_of_op [OF assms(1,2)] by auto
  show ?thesis
    using assms(3) connect_next_ok [OF assms(1,2) _ _ se] close_session_ok [OF assms(1,2) _ se]
    by (auto simp: handle_resolve_def split: if_splits)
qed

text \<open>Delivering from a session that had a driving operation \<open>x\<close>, or none.\<close>

lemma deliver_ok:
  assumes "router_ok r" and "rt_heap r s = Some se" and "\<And>t. drives t x \<Longrightarrow> t = s" and "drivers s (remove1 x (rt_ops r)) = []"
    and "session_ok se' []" and "se_tuple se' = se_tuple se" and "se_queue se' \<noteq> []"
    and "deliver_to_tcp_peer s (put_session s se' (taken x r)) = Some r1"
    and "list_all (op_ok (rt_brk r)) xs" and "\<forall>t. \<forall>y\<in>set xs. \<not> drives t y"
    and "acts s se' xs r1 r2"
  shows "router_ok r2"
proof -
  have h: "rt_heap (put_session s se' (taken x r)) s = Some se'" by (simp add: put_session_def)
  obtain d where d: "acts s se' [d] (put_session s se' (taken x r)) r1" "\<And>t. drives t d \<longleftrightarrow> s = t" "\<And>brk. op_ok brk d \<longleftrightarrow> s < brk"
    "\<forall>t b. d = WriteTcp t b \<longrightarrow> se_open se' \<and> packet_bytes (hd (se_queue se')) = Some b" "\<forall>t eps. d \<noteq> Connect t eps"
    using deliver_to_tcp_peer_acts [OF assms(8) h assms(7)] by blast
  have a: "acts s se' ([d] @ xs) (taken x r) r2" using acts_trans [OF d(1) assms(11)] by simp
  have "drivers s xs = []" using assms(10) by (simp add: drivers_def filter_empty_conv)
  moreover have "session_ok se' [d]" using assms(5,7) d(4,5) by (auto simp: session_ok_def)
  moreover have "s < rt_brk r" using assms(1,2) by (auto simp: router_ok_def)
  ultimately show ?thesis
    by (intro router_ok_acts [OF assms(1,2) a assms(6)]) (use assms(3,4,9,10) d(2,3) in auto)
qed

lemma handle_connection_ok:
  assumes "router_ok r" and "Connect s eps \<in> set (rt_ops r)" and "handle_connection s error eps (taken (Connect s eps) r) = Some r'"
  shows "router_ok r'"
proof -
  let ?r = "taken (Connect s eps) r"
  obtain se where se: "rt_heap r s = Some se" and ok: "session_ok se (drivers s (rt_ops r))"
    using session_of_op [OF assms(1,2)] by auto
  note d = driver_alone [OF ok assms(2)]
  have b: "s < rt_brk r" using assms(1) se by (auto simp: router_ok_def)
  have "router_ok (start_read_from_tcp s r1)" if "deliver_to_tcp_peer s ?r = Some r1" for r1
  proof (rule deliver_ok [OF assms(1) se, where x = "Connect s eps" and se' = se and ?r1.0 = r1 and xs = "[ReadHeader s]"])
    have same: "put_session s se ?r = ?r" using se by (simp add: put_session_def fun_upd_idem)
    show "deliver_to_tcp_peer s (put_session s se ?r) = Some r1" using that same by simp
    have "rt_heap r1 s = Some se"
      using that se by (auto simp: deliver_to_tcp_peer_def start_session_def async_def bind_eq_Some_conv split: if_splits list.splits)
    then show "acts s se [ReadHeader s] r1 (start_read_from_tcp s r1)"
      by (auto simp: acts_def start_read_from_tcp_def async_def fun_upd_idem)
  qed (use d session_ok_idle [OF ok] b in auto)
  then show ?thesis
    using assms(3) se connect_next_ok [OF assms(1,2) _ _ se] close_session_ok [OF assms(1,2) _ se]
    by (auto simp: handle_connection_def bind_eq_Some_conv split: if_splits)
qed

lemma handle_deliver_tcp_ok:
  assumes "router_ok r" and "WriteTcp s b \<in> set (rt_ops r)" and "handle_deliver_tcp s error b (taken (WriteTcp s b) r) = Some r'"
  shows "router_ok r'"
proof (cases error)
  case True
  obtain se where se: "rt_heap r s = Some se" using session_of_op [OF assms(1,2)] by auto
  then show ?thesis using True assms(3) close_session_ok [OF assms(1,2) _ se] by (simp add: handle_deliver_tcp_def)
next
  case False
  let ?r = "taken (WriteTcp s b) r"
  obtain se where se: "rt_heap r s = Some se" and ok: "session_ok se (drivers s (rt_ops r))"
    using session_of_op [OF assms(1,2)] by auto
  have d: "drivers s (remove1 (WriteTcp s b) (rt_ops r)) = []" "packet_bytes (hd (se_queue se)) = Some b" "se_queue se \<noteq> []"
    using driver_alone [OF ok assms(2)] by auto
  obtain p q where q: "se_queue se = p # q" using d(3) by (cases "se_queue se") auto
  let ?se = "se\<lparr>se_queue := q, se_sent := se_sent se @ [b]\<rparr>"
  have h: "history_ok ?se" using ok d(2) q by (auto simp: session_ok_def history_ok_def Cons_eq_map_conv)
  have ok': "session_ok ?se []" using ok h by (simp add: session_ok_def)
  have r': "(if q \<noteq> [] then deliver_to_tcp_peer s (put_session s ?se ?r) else Some (put_session s ?se ?r)) = Some r'"
    using assms(3) False se q by (simp add: handle_deliver_tcp_def Let_def split: if_splits)
  show ?thesis
  proof (cases "q = []")
    case True
    then have "acts s ?se [] ?r r'" using r' by (auto simp: acts_def put_session_def)
    then show ?thesis by (rule router_ok_acts [OF assms(1) se]) (use ok' d(1) in auto)
  next
    case False
    then have r1: "deliver_to_tcp_peer s (put_session s ?se ?r) = Some r'" using r' by simp
    have "rt_heap r' s = Some ?se"
      using r1 by (auto simp: deliver_to_tcp_peer_def start_session_def async_def put_session_def bind_eq_Some_conv split: if_splits list.splits)
    then have "acts s ?se [] r' r'" by (rule acts_refl)
    then show ?thesis
      by (intro deliver_ok [OF assms(1) se, where x = "WriteTcp s b" and se' = ?se and ?r1.0 = r' and xs = "[]"]) (use r1 False ok' d(1) in auto)
  qed
qed

text \<open>An operation that drives no session leaves a session with the operations it had.\<close>

lemma reading_ok:
  assumes "router_ok r" and "rt_heap r s = Some se" and "\<And>t. \<not> drives t x" and "length (rp_payload p) = PACKET_SIZE"
    and "acts s (se\<lparr>se_packet := p\<rparr>) xs (taken x r) r'" and "list_all (op_ok (rt_brk r)) xs" and "\<forall>t. \<forall>y\<in>set xs. \<not> drives t y"
  shows "router_ok r'"
proof -
  have ok: "session_ok se (drivers s (rt_ops r))" using assms(1,2) by (simp add: router_ok_def)
  have "drivers s xs = []" using assms(7) by (simp add: drivers_def filter_empty_conv)
  then show ?thesis
    by (intro router_ok_acts [OF assms(1,2,5)])
       (use assms(3,6,7) session_ok_packet [OF ok assms(4)] in \<open>auto simp: drivers_remove1\<close>)
qed

lemma receive_length:
  "receive_header s p = Some p' \<Longrightarrow> length (rp_payload p') = length (rp_payload p)"
  "receive_payload s p = Some p' \<Longrightarrow> length (rp_payload p') = length (rp_payload p)"
  by (auto simp: receive_header_def receive_payload_def bind_eq_Some_conv dest: write_at_length)

lemma decode_length:
  "decode_header p = Some (res, p') \<Longrightarrow> length (rp_payload p') = length (rp_payload p) \<and> unat (rp_payloadLength p') \<le> MAX_PAYLOAD_SIZE"
  "decode_peer p = Some (res, p') \<Longrightarrow> length (rp_payload p') = length (rp_payload p)"
  by (auto simp: decode_header_def decode_peer_def bind_eq_Some_conv Let_def word_less_nat_alt packet_sizes split: if_splits)

lemma packet_length: "router_ok r \<Longrightarrow> rt_heap r s = Some se \<Longrightarrow> length (rp_payload (se_packet se)) = PACKET_SIZE"
  by (auto simp: router_ok_def session_ok_def)

lemma handle_read_header_ok:
  assumes "router_ok r" and "ReadHeader s \<in> set (rt_ops r)" and "handle_read_header s error buf (taken (ReadHeader s) r) = Some r'"
  shows "router_ok r'"
proof -
  let ?r = "taken (ReadHeader s) r"
  obtain se where se: "rt_heap r s = Some se" using session_of_op [OF assms(1,2)] by auto
  have b: "s < rt_brk r" using assms(1) se by (auto simp: router_ok_def)
  obtain p where p: "receive_header buf (se_packet se) = Some p" using assms(3) se by (auto simp: handle_read_header_def bind_eq_Some_conv)
  have lp: "length (rp_payload p) = PACKET_SIZE" using receive_length(1) [OF p] packet_length [OF assms(1) se] by simp
  have put: "acts s (se\<lparr>se_packet := q\<rparr>) [] ?r (put_session s (se\<lparr>se_packet := q\<rparr>) ?r)" for q by (simp add: acts_def put_session_def)
  consider "r' = close_session s ?r" | "r' = close_session s (put_session s (se\<lparr>se_packet := p\<rparr>) ?r)"
    | res q where "decode_header p = Some (res, q)" "r' = close_session s (put_session s (se\<lparr>se_packet := q\<rparr>) ?r)"
    | res q where "decode_header p = Some (res, q)" "r' = async (ReadPayload s (unat (rp_payloadLength q))) (put_session s (se\<lparr>se_packet := q\<rparr>) ?r)"
    using assms(3) se p by (auto simp: handle_read_header_def bind_eq_Some_conv Let_def split: if_splits)
  then show ?thesis
  proof cases
    case 1
    then show ?thesis using close_session_ok [OF assms(1,2) _ se] by simp
  next
    case 2
    show ?thesis by (rule reading_ok [OF assms(1) se _ lp acts_close [OF put [of p], folded 2]]) (use b in auto)
  next
    case (3 res q)
    then have "length (rp_payload q) = PACKET_SIZE" using decode_length(1) lp by fastforce
    then show ?thesis by (intro reading_ok [OF assms(1) se _ _ acts_close [OF put [of q], folded 3(2)]]) (use b in auto)
  next
    case (4 res q)
    then have "length (rp_payload q) = PACKET_SIZE" "unat (rp_payloadLength q) \<le> MAX_PAYLOAD_SIZE" using decode_length(1) lp by fastforce+
    then show ?thesis by (intro reading_ok [OF assms(1) se _ _ acts_async [OF put [of q], where x = "ReadPayload s (unat (rp_payloadLength q))", folded 4(2)]]) (use b in auto)
  qed
qed

text \<open>Sending to UDP peers only adds operations that send.\<close>

definition sends :: "'a router \<Rightarrow> 'a router \<Rightarrow> 'a op list \<Rightarrow> bool" where
  "sends r r' ys \<longleftrightarrow> rt_heap r' = rt_heap r \<and> rt_brk r' = rt_brk r \<and> rt_sessions r' = rt_sessions r \<and> rt_ops r' = rt_ops r @ ys \<and>
     (\<forall>y\<in>set ys. \<exists>ep b. y = SendUdp ep b)"

lemma sends_drives: "sends r r' ys \<Longrightarrow> y \<in> set ys \<Longrightarrow> \<not> drives t y \<and> op_ok brk y"
  by (auto simp: sends_def)

lemma deliver_to_udp_peer_sends:
  assumes "deliver_to_udp_peer lib r = Some r'"
  obtains ys where "sends r r' ys"
proof -
  consider ys where "r' = r\<lparr>rt_ops := rt_ops r @ ys\<rparr>" "\<forall>y\<in>set ys. \<exists>ep b. y = SendUdp ep b"
    | "r' = r" | "r' = r\<lparr>rt_tcpQueue := tl (rt_tcpQueue r)\<rparr>" | "r' = r\<lparr>rt_dead := True\<rparr>"
    using assms by (auto simp: deliver_to_udp_peer_def async_def bind_eq_Some_conv split: list.splits if_splits option.splits prod.splits)
  then show ?thesis
  proof cases
    case 1
    then show ?thesis using that [of ys] by (auto simp: sends_def)
  qed (use that [of "[]"] in \<open>auto simp: sends_def\<close>)
qed

lemma sends_trans: "sends r r1 xs \<Longrightarrow> sends r1 r2 ys \<Longrightarrow> sends r r2 (xs @ ys)"
  by (auto simp: sends_def)

lemma add_tcp_packet_sends:
  assumes "add_tcp_packet lib raw p r = Some r'"
  obtains ys where "sends r r' ys"
proof -
  obtain p' where p': "rp_copy raw p = Some p'" using assms by (auto simp: add_tcp_packet_def bind_eq_Some_conv)
  let ?r = "r\<lparr>rt_tcpQueue := rt_tcpQueue r @ [p']\<rparr>"
  have q: "sends r ?r []" by (simp add: sends_def)
  have "r' = ?r \<or> deliver_to_udp_peer lib ?r = Some r'"
    using assms p' by (auto simp: add_tcp_packet_def Let_def split: if_splits)
  then show ?thesis
  proof
    assume "r' = ?r"
    then show ?thesis using that [of "[]"] q by simp
  next
    assume "deliver_to_udp_peer lib ?r = Some r'"
    then obtain ys where "sends ?r r' ys" by (rule deliver_to_udp_peer_sends)
    from that [OF sends_trans [OF q this]] show ?thesis .
  qed
qed

lemma acts_sends: "acts s se xs r r1 \<Longrightarrow> sends r1 r2 ys \<Longrightarrow> acts s se (xs @ ys) r r2"
  by (auto simp: acts_def sends_def)

lemma acts_put_after: "acts s se xs r r' \<Longrightarrow> acts s se' xs r (put_session s se' r')"
  by (simp add: acts_def put_session_def)

lemma acts_put_packet: "acts s (se\<lparr>se_packet := q\<rparr>) [] r (put_session s (se\<lparr>se_packet := q\<rparr>) r)"
  by (simp add: acts_def put_session_def)

lemma acts_close_put: "acts s (se\<lparr>se_packet := q\<rparr>) [Failed s] r (put_session s (se\<lparr>se_packet := q\<rparr>) (close_session s r))"
  by (simp add: acts_def put_session_def close_session_def async_def)

lemma rp_clear_length: "length (rp_payload rp_clear) = PACKET_SIZE"
  by (simp add: rp_clear_def)

text \<open>A frame with an address: it is queued for the peer, the queue is sent, and the next header is read.\<close>

lemma relay_payload_acts:
  assumes r1: "add_tcp_packet lib raw q (put_session s (se\<lparr>se_packet := q\<rparr>) r) = Some r1" and lq: "length (rp_payload q) = PACKET_SIZE"
    and rest: "(if rt_dead r1 then Some r1 else do {
         r2 \<leftarrow> deliver_to_udp_peer lib (put_session s (se\<lparr>se_packet := rp_clear\<rparr>) r1);
         if rt_dead r2 then Some r2 else Some (start_read_from_tcp s r2) }) = Some r'"
  obtains p xs where "acts s (se\<lparr>se_packet := p\<rparr>) xs r r'" and "length (rp_payload p) = PACKET_SIZE"
    and "\<forall>y\<in>set xs. y = Failed s \<or> y = ReadHeader s \<or> (\<exists>ep b. y = SendUdp ep b)"
proof -
  obtain ys where ys: "sends (put_session s (se\<lparr>se_packet := q\<rparr>) r) r1 ys" by (rule add_tcp_packet_sends [OF r1])
  note a1 = acts_sends [OF acts_put_packet [of s q se r] ys]
  show ?thesis
  proof (cases "rt_dead r1")
    case True
    then have "r1 = r'" using rest by simp
    show ?thesis by (rule that [OF a1 [unfolded \<open>r1 = r'\<close>] lq]) (use ys in \<open>auto simp: sends_def\<close>)
  next
    case False
    then obtain r2 where r2: "deliver_to_udp_peer lib (put_session s (se\<lparr>se_packet := rp_clear\<rparr>) r1) = Some r2"
      and r': "r' = r2 \<or> r' = start_read_from_tcp s r2"
      using rest by (auto simp: bind_eq_Some_conv split: if_splits)
    obtain zs where zs: "sends (put_session s (se\<lparr>se_packet := rp_clear\<rparr>) r1) r2 zs" by (rule deliver_to_udp_peer_sends [OF r2])
    note a2 = acts_sends [OF acts_put_after [OF a1] zs]
    note a3 = acts_async [OF a2, where x = "ReadHeader s", folded start_read_from_tcp_def]
    from r' show ?thesis
    proof
      assume "r' = r2"
      show ?thesis by (rule that [OF a2 [folded \<open>r' = r2\<close>] rp_clear_length]) (use ys zs in \<open>auto simp: sends_def\<close>)
    next
      assume r': "r' = start_read_from_tcp s r2"
      show ?thesis by (rule that [OF a3 [folded r'] rp_clear_length]) (use ys zs in \<open>auto simp: sends_def\<close>)
    qed
  qed
qed

lemma handle_read_payload_acts:
  assumes "handle_read_payload lib raw s error buf r = Some r'" and "rt_heap r s = Some se" and "length (rp_payload (se_packet se)) = PACKET_SIZE"
  obtains p xs where "acts s (se\<lparr>se_packet := p\<rparr>) xs r r'" and "length (rp_payload p) = PACKET_SIZE"
    and "\<forall>y\<in>set xs. y = Failed s \<or> y = ReadHeader s \<or> (\<exists>ep b. y = SendUdp ep b)"
proof -
  obtain p where p: "receive_payload buf (se_packet se) = Some p" using assms(1,2) by (auto simp: handle_read_payload_def bind_eq_Some_conv)
  have lp: "length (rp_payload p) = PACKET_SIZE" using receive_length(2) [OF p] assms(3) by simp
  show ?thesis
  proof (cases "error \<or> length buf = 0")
    case True
    then consider "r' = close_session s (put_session s (se\<lparr>se_packet := p\<rparr>) r)"
      | "r' = close_session s (put_session s (se\<lparr>se_packet := p\<rparr>) (close_session s r))"
      | "r' = put_session s (se\<lparr>se_packet := rp_clear\<rparr>) (close_session s r)"
      using assms(1,2) p by (auto simp: handle_read_payload_def Let_def split: if_splits)
    then show ?thesis
    proof cases
      case 1
      show ?thesis by (rule that [OF acts_close [OF acts_put_packet [of s p se r], folded 1] lp]) simp
    next
      case 2
      show ?thesis by (rule that [OF acts_close [OF acts_close_put [of s p se r], folded 2] lp]) simp
    next
      case 3
      show ?thesis by (rule that [OF acts_close_put [of s rp_clear se r, folded 3] rp_clear_length]) simp
    qed
  next
    case False
    then obtain res q where q: "decode_peer p = Some (res, q)"
      using assms(1,2) p by (auto simp: handle_read_payload_def bind_eq_Some_conv)
    have lq: "length (rp_payload q) = PACKET_SIZE" using decode_length(2) [OF q] lp by simp
    show ?thesis
    proof (cases res)
      case False
      then have r': "r' = put_session s (se\<lparr>se_packet := rp_clear\<rparr>) r"
        using assms(1,2) p q \<open>\<not> (error \<or> length buf = 0)\<close> by (simp add: handle_read_payload_def)
      show ?thesis by (rule that [OF acts_put_packet [of s rp_clear se r, folded r'] rp_clear_length]) simp
    next
      case True
      then obtain r1 where r1: "add_tcp_packet lib raw q (put_session s (se\<lparr>se_packet := q\<rparr>) r) = Some r1"
        and rest: "(if rt_dead r1 then Some r1 else do {
             r2 \<leftarrow> deliver_to_udp_peer lib (put_session s (se\<lparr>se_packet := rp_clear\<rparr>) r1);
             if rt_dead r2 then Some r2 else Some (start_read_from_tcp s r2) }) = Some r'"
        using assms(1,2) p q \<open>\<not> (error \<or> length buf = 0)\<close> by (auto simp: handle_read_payload_def bind_eq_Some_conv)
      show ?thesis by (rule relay_payload_acts [OF r1 lq rest]) (rule that)
    qed
  qed
qed

lemma handle_read_payload_ok:
  assumes "router_ok r" and "ReadPayload s n \<in> set (rt_ops r)"
    and "handle_read_payload lib raw s error buf (taken (ReadPayload s n) r) = Some r'"
  shows "router_ok r'"
proof -
  obtain se where se: "rt_heap r s = Some se" using session_of_op [OF assms(1,2)] by auto
  have b: "s < rt_brk r" using assms(1) se by (auto simp: router_ok_def)
  have h: "rt_heap (taken (ReadPayload s n) r) s = Some se" using se by simp
  obtain p xs where a: "acts s (se\<lparr>se_packet := p\<rparr>) xs (taken (ReadPayload s n) r) r'" and lp: "length (rp_payload p) = PACKET_SIZE"
    and xs: "\<forall>y\<in>set xs. y = Failed s \<or> y = ReadHeader s \<or> (\<exists>ep b. y = SendUdp ep b)"
    using handle_read_payload_acts [OF assms(3) h packet_length [OF assms(1) se]] by blast
  show ?thesis by (rule reading_ok [OF assms(1) se _ lp a]) (use xs b in \<open>auto simp: list_all_iff\<close>)
qed

lemma taken_ok: "router_ok r \<Longrightarrow> (\<And>t. \<not> drives t x) \<Longrightarrow> router_ok (taken x r)"
  by (auto simp: router_ok_def drivers_remove1 list_all_iff dest: notin_set_remove1)

lemma async_ok: "router_ok r \<Longrightarrow> (\<And>t. \<not> drives t x) \<Longrightarrow> op_ok (rt_brk r) x \<Longrightarrow> router_ok (async x r)"
  by (auto simp: router_ok_def async_def)

lemma sends_ok: "router_ok r \<Longrightarrow> sends r r' ys \<Longrightarrow> router_ok r'"
  using sends_drives [of r r' ys]
  by (auto simp: router_ok_def list_all_iff sends_def drivers_def filter_empty_conv)

lemma remove_session_ok: "router_ok r \<Longrightarrow> router_ok (remove_session t r)"
  by (auto simp: router_ok_def remove_session_def st.entries_ok_erase)

lemma router_ok_fresh:
  assumes "router_ok r"
  shows "drivers (rt_brk r) (rt_ops r) = []" and "rt_heap r (rt_brk r) = None" and "taken (Failed (rt_brk r)) r = r"
proof -
  have ops: "op_ok (rt_brk r) y" if "y \<in> set (rt_ops r)" for y using assms that by (simp add: router_ok_def list_all_iff)
  have "\<not> drives (rt_brk r) y" if "y \<in> set (rt_ops r)" for y using ops [OF that] by (cases y) auto
  then show "drivers (rt_brk r) (rt_ops r) = []" by (simp add: drivers_def filter_empty_conv)
  show "rt_heap r (rt_brk r) = None" using assms unfolding router_ok_def by (metis less_irrefl)
  have "Failed (rt_brk r) \<notin> set (rt_ops r)" using ops by fastforce
  then show "taken (Failed (rt_brk r)) r = r" by (cases r) (simp add: remove1_idem)
qed

lemma op_ok_mono: "op_ok brk x \<Longrightarrow> op_ok (Suc brk) x"
  by (cases x) auto

lemma alloc_session_ok:
  assumes "router_ok r" and "session_ok se []" and "alloc_session se r = (s, r')"
  shows "router_ok r'" and "rt_heap r' s = Some se" and "s < rt_brk r'"
proof -
  note f = router_ok_fresh [OF assms(1)]
  have r': "s = rt_brk r" "rt_heap r' = (rt_heap r)(s \<mapsto> se)" "rt_brk r' = Suc (rt_brk r)" "rt_ops r' = rt_ops r" "rt_sessions r' = rt_sessions r"
    using assms(3) by (auto simp: alloc_session_def put_session_def)
  show "rt_heap r' s = Some se" "s < rt_brk r'" using r' by simp_all
  have "st.entries_ok (\<lambda>t a. \<exists>se. rt_heap r' a = Some se \<and> se_tuple se = t) (rt_sessions r')"
    unfolding r'(5) by (rule st.entries_ok_mono [where P = "\<lambda>t a. \<exists>se. rt_heap r a = Some se \<and> se_tuple se = t"])
      (use assms(1) r' f(2) in \<open>auto simp: router_ok_def\<close>)
  then show "router_ok r'"
    using assms(1,2) f r' by (auto simp: router_ok_def list_all_iff less_Suc_eq intro: op_ok_mono)
qed

lemma add_session_ok: "router_ok r \<Longrightarrow> add_session s r = Some r' \<Longrightarrow> router_ok r'"
  by (auto simp: router_ok_def add_session_def bind_eq_Some_conv st.entries_ok_put)

lemma add_router_packet_ok:
  assumes "router_ok r" and "add_router_packet raw s p r = Some r'" and "length raw = PACKET_SIZE" and "length (rp_payload p) = PACKET_SIZE"
    and "0 < rp_payloadLength p"
  shows "router_ok r'"
proof -
  let ?x = "Failed (rt_brk r)"
  note fresh = router_ok_fresh(3) [OF assms(1)]
  obtain se p' b where se: "rt_heap r s = Some se" and p': "rp_copy raw p = Some p'" and b: "packet_bytes p = Some b"
    using assms(2) by (auto simp: add_router_packet_def bind_eq_Some_conv)
  have b': "packet_bytes p' = Some b" using rp_copy_bytes [OF p' assms(5,4,3)] b by simp
  have ok: "session_ok se (drivers s (rt_ops r))" using assms(1) se by (simp add: router_ok_def)
  let ?se = "se\<lparr>se_queue := se_queue se @ [p'], se_received := se_received se @ [b]\<rparr>"
  have h: "history_ok ?se" using ok b' by (fastforce simp: session_ok_def history_ok_def)
  show ?thesis
  proof (cases "se_queue se = []")
    case True
    then have d: "drivers s (rt_ops r) = []" and r1: "deliver_to_tcp_peer s (put_session s ?se r) = Some r'"
      using ok assms(2) se p' b by (auto simp: session_ok_def add_router_packet_def)
    have idle: "session_ok ?se []" using ok h by (simp add: session_ok_def)
    have "rt_heap r' s = Some ?se"
      using r1 by (auto simp: deliver_to_tcp_peer_def start_session_def async_def put_session_def bind_eq_Some_conv split: if_splits list.splits)
    then have a: "acts s ?se [] r' r'" by (rule acts_refl)
    show ?thesis
      by (rule deliver_ok [OF assms(1) se, where x = ?x and se' = ?se and ?r1.0 = r' and xs = "[]"])
         (use r1 d idle a fresh in \<open>auto simp: drivers_remove1\<close>)
  next
    case False
    then have "acts s ?se [] r r'" using assms(2) se p' b by (auto simp: add_router_packet_def acts_def put_session_def)
    then have a: "acts s ?se [] (taken ?x r) r'" by (simp add: fresh)
    have "session_ok ?se (drivers s (rt_ops r))" using ok h False by (auto simp: session_ok_def)
    then show ?thesis by (intro router_ok_acts [OF assms(1) se a]) (auto simp: drivers_remove1)
  qed
qed

lemma new_session_ok: "session_ok ((new_session lib)\<lparr>se_tuple := t\<rparr>) []" "session_ok (new_session lib) []"
  by (simp_all add: session_ok_def history_ok_def new_session_def rp_clear_def)

lemma handle_receive_ok:
  assumes "router_ok r" and "handle_receive lib raw error remote buf r = Some r'" and "length raw = PACKET_SIZE"
  shows "router_ok r'"
proof -
  let ?t = "AdrTuple UDP (fst remote) (ucast (snd remote))"
  have deliver: "router_ok r1" if r1: "deliver_from_udp_peer lib raw ?t buf r = Some r1" for r1
  proof -
    obtain it p where it: "find_session (rt_heap r) ?t (rt_sessions r) = Some it" and p: "build_packet (adr_to_string lib ?t) buf = Some p"
      using r1 by (auto simp: deliver_from_udp_peer_def bind_eq_Some_conv)
    note shape = build_packet_shape [OF p]
    show ?thesis
    proof (cases it)
      case None
      obtain s r2 where s: "alloc_session ((new_session lib)\<lparr>se_tuple := ?t\<rparr>) r = (s, r2)" by fastforce
      then obtain r3 where r3: "add_session s r2 = Some r3" "add_router_packet raw s p r3 = Some r1"
        using r1 it p None by (auto simp: deliver_from_udp_peer_def bind_eq_Some_conv)
      have "router_ok r3" by (rule add_session_ok [OF alloc_session_ok(1) [OF assms(1) new_session_ok(1) s] r3(1)])
      then show ?thesis by (rule add_router_packet_ok [OF _ r3(2) assms(3) shape])
    next
      case (Some s)
      then show ?thesis using r1 it p add_router_packet_ok [OF assms(1) _ assms(3) shape] by (auto simp: deliver_from_udp_peer_def)
    qed
  qed
  obtain r1 where "router_ok r1" "r' = start_receive r1"
    using assms(2) deliver remove_session_ok [OF assms(1)] by (auto simp: handle_receive_def bind_eq_Some_conv Let_def split: if_splits)
  then show ?thesis by (simp add: start_receive_def async_ok)
qed

lemma tcp_relay_start_ok: assumes "router_ok r" shows "router_ok (tcp_relay_start lib r)"
proof -
  obtain s r1 where s: "alloc_session (new_session lib) r = (s, r1)" by fastforce
  note a = alloc_session_ok [OF assms new_session_ok(2) s]
  show ?thesis using s a(3) async_ok [OF a(1), of "Accept s"] by (simp add: tcp_relay_start_def)
qed

lemma handle_accept_ok:
  assumes "router_ok r" and "Accept s \<in> set (rt_ops r)" and "handle_accept lib s error (taken (Accept s) r) = Some r'"
  shows "router_ok r'"
proof -
  let ?r = "taken (Accept s) r"
  obtain se where se: "rt_heap r s = Some se" and ok: "session_ok se (drivers s (rt_ops r))"
    using session_of_op [OF assms(1,2)] by auto
  define se' where "se' = (if error then se else se\<lparr>se_open := True\<rparr>)"
  have ok': "session_ok se' (drivers s (rt_ops r))" "se_tuple se' = se_tuple se" using ok session_ok_open [OF ok] by (auto simp: se'_def)
  have b: "s < rt_brk r" using assms(1) se by (auto simp: router_ok_def)
  let ?r1 = "start_read_from_tcp s (put_session s se' ?r)"
  have "acts s se' [ReadHeader s] ?r ?r1" by (simp add: acts_def start_read_from_tcp_def async_def put_session_def)
  then have "router_ok ?r1" by (rule router_ok_acts [OF assms(1) se]) (use ok' b in \<open>auto simp: drivers_remove1\<close>)
  then show ?thesis using assms(3) se tcp_relay_start_ok by (auto simp: handle_accept_def se'_def Let_def)
qed

lemma handle_deliver_to_udp_peer_ok:
  assumes "router_ok r" and "handle_deliver_to_udp_peer lib error r = Some r'"
  shows "router_ok r'"
proof -
  have q: "router_ok (r\<lparr>rt_tcpQueue := q\<rparr>)" for q using assms(1) by (simp add: router_ok_def)
  show ?thesis
    using assms q sends_ok [OF q] by (auto simp: handle_deliver_to_udp_peer_def split: if_splits list.splits elim!: deliver_to_udp_peer_sends)
qed

lemma complete_ok:
  assumes "router_ok r" and "x \<in> set (rt_ops r)" and "documented x c" and "complete lib c x r = Some r'"
  shows "router_ok r'"
proof (cases x)
  case (Failed s)
  then show ?thesis
    using assms taken_ok [OF assms(1), of x] remove_session_ok by (auto simp: complete_def handle_connection_failed_def bind_eq_Some_conv)
next
  case Receive
  then show ?thesis using assms handle_receive_ok [OF taken_ok [OF assms(1), of x]] by (auto simp: complete_def)
next
  case (SendUdp ep b)
  then show ?thesis using assms handle_deliver_to_udp_peer_ok [OF taken_ok [OF assms(1), of x]] by (auto simp: complete_def)
qed (use assms handle_resolve_ok handle_connection_ok handle_read_header_ok handle_read_payload_ok handle_deliver_tcp_ok handle_accept_ok
     in \<open>auto simp: complete_def\<close>)

lemma reachable_ok: "reachable lib f1 r \<Longrightarrow> router_ok r"
proof (induction rule: reachable.induct)
  case start
  then show ?case by (simp add: router_ok_def router_start_def start_receive_def async_def st.entries_ok_def map_ok_def)
next
  case (step r r')
  from step.hyps(2) step.IH show ?case by cases (auto intro: complete_ok tcp_relay_start_ok)
qed

subsection \<open>What the reachable states satisfy\<close>

text \<open>C1: In every reachable state a session has at most one resolution, connection or write in progress; the frames written to its
  connection are a prefix of the frames given to it, in order and without repetition; and what is being written is the next of
  them, still at the head of the queue, so the buffer of the write is valid.\<close>

theorem router_writes_in_order:
  assumes "reachable lib f1 r" and "rt_heap r s = Some se"
  shows "length (drivers s (rt_ops r)) \<le> 1 \<and> (\<exists>bs. se_received se = se_sent se @ bs \<and> map packet_bytes (se_queue se) = map Some bs) \<and>
    (\<forall>b. WriteTcp s b \<in> set (rt_ops r) \<longrightarrow>
       (\<exists>bs. se_received se = se_sent se @ b # bs \<and> se_queue se \<noteq> [] \<and> packet_bytes (hd (se_queue se)) = Some b))"
proof -
  have ok: "session_ok se (drivers s (rt_ops r))" using reachable_ok [OF assms(1)] assms(2) by (simp add: router_ok_def)
  then obtain bs where bs: "se_received se = se_sent se @ bs" "map packet_bytes (se_queue se) = map Some bs"
    by (auto simp: session_ok_def history_ok_def)
  have "\<exists>bs. se_received se = se_sent se @ b # bs \<and> se_queue se \<noteq> [] \<and> packet_bytes (hd (se_queue se)) = Some b"
    if w: "WriteTcp s b \<in> set (rt_ops r)" for b
    using driver_alone(2,3) [OF ok w] bs by (cases "se_queue se") auto
  moreover have "length (drivers s (rt_ops r)) \<le> 1" using ok by (auto simp: session_ok_def)
  ultimately show ?thesis using bs by blast
qed

text \<open>The search through the table finds what a lookup of the key would.\<close>

lemma find_session_lookup:
  assumes "map_ok m" and "\<forall>(t, s)\<in>set m. \<exists>se. h s = Some se \<and> se_tuple se = t"
  shows "find_session h t m = Some (map_find t m)"
  using assms
proof (induction m)
  case (Cons e m)
  obtain k s where e: "e = (k, s)" by (cases e)
  then obtain se where se: "h s = Some se" "se_tuple se = k" using Cons.prems(2) by auto
  have ok: "map_ok m" using Cons.prems(1) by (simp add: e map_ok_def)
  have "map_find t m = None" if "t < k"
    using map_of_below [OF Cons.prems(1) [unfolded e], of t] that map_find_of [OF ok] by simp
  then show ?case using Cons.IH [OF ok] Cons.prems(2) se by (auto simp: e adr_eq_iff)
qed simp

lemma entries_ok_set: assumes "st.entries_ok P m" and "(t, s) \<in> set m" shows "P t s"
proof -
  have ok: "map_ok m" using assms(1) by (simp add: st.entries_ok_def)
  then have "distinct (map fst m)" by (simp add: map_ok_def strict_sorted_iff)
  then have "map_find t m = Some s" using assms(2) map_find_of [OF ok] by (simp add: map_of_is_SomeI)
  then show ?thesis using assms(1) by (simp add: st.entries_ok_def)
qed

lemma router_find_session:
  assumes "router_ok r"
  shows "find_session (rt_heap r) t (rt_sessions r) = Some (map_find t (rt_sessions r))"
proof (rule find_session_lookup)
  have e: "st.entries_ok (\<lambda>t s. \<exists>se. rt_heap r s = Some se \<and> se_tuple se = t) (rt_sessions r)" using assms by (simp add: router_ok_def)
  show "map_ok (rt_sessions r)" using e by (simp add: st.entries_ok_def)
  show "\<forall>(t, s)\<in>set (rt_sessions r). \<exists>se. rt_heap r s = Some se \<and> se_tuple se = t" using entries_ok_set [OF e] by fast
qed

text \<open>C12: In every reachable state the loop of \<open>deliver_from_udp_peer\<close> over the table of sessions gives the entry that \<open>find\<close> gives for
  the address, and that entry is a live session of this address.\<close>

theorem router_table_search:
  assumes "reachable lib f1 r"
  shows "find_session (rt_heap r) t (rt_sessions r) = Some (map_find t (rt_sessions r)) \<and>
    (\<forall>s. map_find t (rt_sessions r) = Some s \<longrightarrow> (\<exists>se. rt_heap r s = Some se \<and> se_tuple se = t))"
  using router_find_session [OF reachable_ok [OF assms]] reachable_ok [OF assms] by (auto simp: router_ok_def st.entries_ok_def)

lemma packet_bytes_queue: "session_ok se ds \<Longrightarrow> se_queue se = p # q \<Longrightarrow> \<exists>b. packet_bytes p = Some b"
  by (auto simp: session_ok_def history_ok_def)

lemma deliver_to_tcp_peer_defined: "rt_heap r s = Some se \<Longrightarrow> session_ok se ds \<Longrightarrow> \<exists>r'. deliver_to_tcp_peer s r = Some r'"
  using packet_bytes_queue [of se ds] by (cases "se_queue se") (auto simp: deliver_to_tcp_peer_def)

lemma strn_defined: "i + n \<le> length blk \<Longrightarrow> strn blk i n = Some (takeWhile (\<lambda>c. c \<noteq> CHR 0x00) (take n (drop i blk)))"
  by (simp add: strn_def Let_def)

lemma handle_deliver_tcp_defined:
  assumes "session_ok se (drivers s (rt_ops r))" and "rt_heap r s = Some se" and "WriteTcp s b \<in> set (rt_ops r)"
  shows "\<exists>r'. handle_deliver_tcp s error b (taken (WriteTcp s b) r) = Some r'"
proof -
  obtain p q where q: "se_queue se = p # q" using driver_alone(2) [OF assms(1,3)] by (cases "se_queue se") auto
  let ?se = "se\<lparr>se_queue := q, se_sent := se_sent se @ [b]\<rparr>"
  have "packet_bytes p = Some b" using driver_alone(3) [OF assms(1,3)] q by simp
  then have "session_ok ?se []" using assms(1) q by (auto simp: session_ok_def history_ok_def Cons_eq_map_conv)
  then have "\<exists>r'. deliver_to_tcp_peer s (put_session s ?se (taken (WriteTcp s b) r)) = Some r'"
    by (intro deliver_to_tcp_peer_defined [where se = ?se and ds = "[]"]) (simp_all add: put_session_def)
  then show ?thesis using assms(2) q by (auto simp: handle_deliver_tcp_def Let_def)
qed

text \<open>C7: In a reachable state no completion is undefined behaviour, as far as the connections to the server are concerned: connecting,
  writing, closing, accepting, and reading a header, whatever its characters are.\<close>

theorem router_progress:
  assumes "reachable lib f1 r" and "x \<in> set (rt_ops r)" and "documented x c"
    and "x \<noteq> Receive" and "\<forall>s n. x \<noteq> ReadPayload s n" and "\<forall>ep b. x \<noteq> SendUdp ep b"
  shows "\<exists>r'. complete lib c x r = Some r'"
proof (cases x)
  case (Resolve s server port)
  obtain se where "rt_heap r s = Some se" using session_of_op [OF reachable_ok [OF assms(1)] assms(2), of s] Resolve by auto
  then show ?thesis
    using assms(3) Resolve by (cases "cp_endpoints c") (auto simp: complete_def handle_resolve_def connect_next_def)
next
  case (Connect s eps)
  obtain se where se: "rt_heap r s = Some se" "session_ok se (drivers s (rt_ops r))"
    using session_of_op [OF reachable_ok [OF assms(1)] assms(2), of s] Connect by auto
  have "\<exists>r'. deliver_to_tcp_peer s (taken x r) = Some r'" by (rule deliver_to_tcp_peer_defined [OF _ se(2)]) (use se in simp)
  then show ?thesis using se Connect by (cases eps) (auto simp: complete_def handle_connection_def connect_next_def)
next
  case (ReadHeader s)
  obtain se where se: "rt_heap r s = Some se" using session_of_op [OF reachable_ok [OF assms(1)] assms(2), of s] ReadHeader by auto
  note l = packet_length [OF reachable_ok [OF assms(1)] se]
  obtain p where p: "receive_header (cp_bytes c) (se_packet se) = Some p"
    using assms(3) l ReadHeader by (auto simp: receive_header_def write_at_def packet_sizes)
  have "strn (rp_payload p) 0 HEADER_LENGTH \<noteq> None" using receive_length(1) [OF p] l by (simp add: strn_defined packet_sizes)
  then have "decode_header p \<noteq> None" by (auto simp: decode_header_def Let_def)
  then obtain res q where "decode_header p = Some (res, q)" by auto
  then show ?thesis using se p ReadHeader by (auto simp: complete_def handle_read_header_def Let_def)
next
  case (WriteTcp s b)
  obtain se where se: "rt_heap r s = Some se" "session_ok se (drivers s (rt_ops r))"
    using session_of_op [OF reachable_ok [OF assms(1)] assms(2), of s] WriteTcp by auto
  then show ?thesis using handle_deliver_tcp_defined assms(2) WriteTcp by (auto simp: complete_def)
next
  case (Failed s)
  obtain se where "rt_heap r s = Some se" using session_of_op [OF reachable_ok [OF assms(1)] assms(2), of s] Failed by auto
  then show ?thesis using Failed by (simp add: complete_def handle_connection_failed_def)
next
  case (Accept s)
  obtain se where "rt_heap r s = Some se" using session_of_op [OF reachable_ok [OF assms(1)] assms(2), of s] Accept by auto
  then show ?thesis using Accept by (simp add: complete_def handle_accept_def Let_def)
qed (use assms in auto)

subsection \<open>Datagrams\<close>

text \<open>The frames given to the session of a peer.\<close>

definition frames_of :: "'a::linorder router \<Rightarrow> 'a adr_tuple \<Rightarrow> string list" where
  "frames_of r t = (case map_find t (rt_sessions r) \<bind> rt_heap r of None \<Rightarrow> [] | Some se \<Rightarrow> se_received se)"

lemma deliver_to_tcp_peer_frame:
  assumes "deliver_to_tcp_peer s r = Some r'"
  shows "rt_heap r' = rt_heap r \<and> rt_sessions r' = rt_sessions r \<and> rt_brk r' = rt_brk r \<and> rt_dead r' = rt_dead r"
  using assms by (auto simp: deliver_to_tcp_peer_def start_session_def async_def bind_eq_Some_conv split: if_splits list.splits)

lemma add_router_packet_frame:
  assumes "rt_heap r s = Some se" and "session_ok se ds" and "length raw = PACKET_SIZE" and "PEER_LENGTH + length peer + length buf \<le> MAX_PAYLOAD_SIZE"
  shows "\<exists>r' se'. add_router_packet raw s (frame_packet peer buf) r = Some r' \<and> rt_heap r' = (rt_heap r)(s \<mapsto> se') \<and>
    se_received se' = se_received se @ [frame peer buf] \<and> se_tuple se' = se_tuple se \<and> rt_sessions r' = rt_sessions r"
proof -
  have l: "length peer + length buf \<le> MAX_PAYLOAD_SIZE" using assms(4) by simp
  note c = rp_copy_frame [OF assms(3,4)] frame_packet_bytes [OF l]
  let ?se = "se\<lparr>se_queue := se_queue se @ [frame_copy raw peer buf], se_received := se_received se @ [frame peer buf]\<rparr>"
  have "session_ok ?se []" using assms(2) c(2) by (fastforce simp: session_ok_def history_ok_def)
  then obtain r1 where r1: "deliver_to_tcp_peer s (put_session s ?se r) = Some r1"
    using deliver_to_tcp_peer_defined [of "put_session s ?se r" s ?se "[]"] by (auto simp: put_session_def)
  have "add_router_packet raw s (frame_packet peer buf) r = Some (if se_queue se = [] then r1 else put_session s ?se r)"
    using assms(1) c r1 by (cases "se_queue se = []") (simp_all add: add_router_packet_def Let_def)
  then show ?thesis
    using deliver_to_tcp_peer_frame [OF r1]
    by (intro exI [of _ "if se_queue se = [] then r1 else put_session s ?se r"] exI [of _ ?se]) (simp add: put_session_def)
qed

lemma deliver_from_udp_peer_frame:
  assumes "router_ok r" and "length raw = PACKET_SIZE" and "PEER_LENGTH + length (adr_to_string lib t) + length buf \<le> MAX_PAYLOAD_SIZE"
  shows "\<exists>r'. deliver_from_udp_peer lib raw t buf r = Some r' \<and> frames_of r' t = frames_of r t @ [frame (adr_to_string lib t) buf] \<and>
    (\<forall>t'. t' \<noteq> t \<longrightarrow> frames_of r' t' = frames_of r t')"
proof -
  let ?p = "adr_to_string lib t"
  have l: "length ?p + length buf \<le> MAX_PAYLOAD_SIZE" using assms(3) by simp
  note b = build_packet_fits [OF l] and f = router_find_session [OF assms(1), of t]
  have e: "st.entries_ok (\<lambda>t s. \<exists>se. rt_heap r s = Some se \<and> se_tuple se = t) (rt_sessions r)" using assms(1) by (simp add: router_ok_def)
  have ok: "map_ok (rt_sessions r)" and live: "\<And>t' s. map_find t' (rt_sessions r) = Some s \<Longrightarrow> \<exists>se. rt_heap r s = Some se \<and> se_tuple se = t'"
    using e by (auto simp: st.entries_ok_def)
  show ?thesis
  proof (cases "map_find t (rt_sessions r)")
    case None
    let ?se = "(new_session lib)\<lparr>se_tuple := t\<rparr>" and ?s = "rt_brk r"
    obtain r1 where a: "alloc_session ?se r = (?s, r1)" "rt_heap r1 = (rt_heap r)(?s \<mapsto> ?se)" "rt_sessions r1 = rt_sessions r"
      by (simp add: alloc_session_def put_session_def)
    let ?r2 = "r1\<lparr>rt_sessions := map_put t ?s (rt_sessions r)\<rparr>"
    have add: "add_session ?s r1 = Some ?r2" using a by (simp add: add_session_def)
    have h2: "rt_heap ?r2 ?s = Some ?se" using a(2) by simp
    obtain r' se' where r': "add_router_packet raw ?s (frame_packet ?p buf) ?r2 = Some r'" "rt_heap r' = (rt_heap ?r2)(?s \<mapsto> se')"
      "se_received se' = se_received ?se @ [frame ?p buf]" "rt_sessions r' = rt_sessions ?r2"
      using add_router_packet_frame [OF h2 new_session_ok(1) assms(2,3)] by blast
    have "deliver_from_udp_peer lib raw t buf r = Some r'"
      using f b None a(1) add r'(1) by (simp add: deliver_from_udp_peer_def)
    moreover have "frames_of r' t = frames_of r t @ [frame ?p buf]"
      using r' None ok by (simp add: frames_of_def map_find_put new_session_def)
    moreover have "frames_of r' t' = frames_of r t'" if t': "t' \<noteq> t" for t'
    proof -
      have "rt_heap r' s = rt_heap r s" if "map_find t' (rt_sessions r) = Some s" for s
        using live [OF that] router_ok_fresh(2) [OF assms(1)] r'(2) a(2) by auto
      then show ?thesis using r'(4) t' ok by (cases "map_find t' (rt_sessions r)") (simp_all add: frames_of_def map_find_put)
    qed
    ultimately show ?thesis by blast
  next
    case (Some s)
    then obtain se where se: "rt_heap r s = Some se" "se_tuple se = t" using live by blast
    have sok: "session_ok se (drivers s (rt_ops r))" using assms(1) se by (simp add: router_ok_def)
    obtain r' se' where r': "add_router_packet raw s (frame_packet ?p buf) r = Some r'" "rt_heap r' = (rt_heap r)(s \<mapsto> se')"
      "se_received se' = se_received se @ [frame ?p buf]" "rt_sessions r' = rt_sessions r"
      using add_router_packet_frame [OF se(1) sok assms(2,3)] by blast
    have "deliver_from_udp_peer lib raw t buf r = Some r'" using f b Some r'(1) by (simp add: deliver_from_udp_peer_def)
    moreover have "frames_of r' t = frames_of r t @ [frame ?p buf]" using r' Some se by (simp add: frames_of_def)
    moreover have "frames_of r' t' = frames_of r t'" if t': "t' \<noteq> t" for t'
    proof -
      have "s' \<noteq> s" if "map_find t' (rt_sessions r) = Some s'" for s' using live [OF that] se t' by auto
      then show ?thesis using r'(2,4) by (cases "map_find t' (rt_sessions r)") (auto simp: frames_of_def)
    qed
    ultimately show ?thesis by blast
  qed
qed

text \<open>C2: A datagram from a peer becomes one frame with the address of the peer and the data, given to the session of this peer, which
  is made when there is none; the frames of every other peer stay, and the server waits for the next datagram. This holds for all
  datagrams that fit a packet.\<close>

theorem router_receive_routes:
  assumes "reachable lib f1 r" and "t = AdrTuple UDP a (ucast port)" and "length raw = PACKET_SIZE" and "\<not> error \<or> buf \<noteq> []"
    and "PEER_LENGTH + length (adr_to_string lib t) + length buf \<le> MAX_PAYLOAD_SIZE"
  shows "\<exists>r'. handle_receive lib raw error (a, port) buf r = Some r' \<and> frames_of r' t = frames_of r t @ [frame (adr_to_string lib t) buf] \<and>
    (\<forall>t'. t' \<noteq> t \<longrightarrow> frames_of r' t' = frames_of r t') \<and> Receive \<in> set (rt_ops r')"
proof -
  obtain r' where r': "deliver_from_udp_peer lib raw t buf r = Some r'" "frames_of r' t = frames_of r t @ [frame (adr_to_string lib t) buf]"
    "\<forall>t'. t' \<noteq> t \<longrightarrow> frames_of r' t' = frames_of r t'"
    using deliver_from_udp_peer_frame [OF reachable_ok [OF assms(1)] assms(3,5)] by blast
  have "frames_of (start_receive r') = frames_of r'" by (rule ext) (simp add: frames_of_def start_receive_def async_def)
  moreover have "handle_receive lib raw error (a, port) buf r = Some (start_receive r')"
    using r'(1) assms(2,4) by (simp add: handle_receive_def Let_def)
  moreover have "Receive \<in> set (rt_ops (start_receive r'))" by (simp add: start_receive_def async_def)
  ultimately show ?thesis using r'(2,3) by simp
qed

subsection \<open>Answers of the server\<close>

text \<open>What the router relies on for one address: it is printed without colons and zero characters, in less than 32 characters, and read
  back as the same address.\<close>

definition printable :: "'a asio \<Rightarrow> 'a \<Rightarrow> bool" where
  "printable lib a \<longleftrightarrow> as_from_string lib (as_to_string lib a) = Some a \<and> as_to_string lib a \<noteq> [] \<and> length (as_to_string lib a) < 32 \<and>
     CHR '':'' \<notin> set (as_to_string lib a) \<and> CHR 0x00 \<notin> set (as_to_string lib a)"

lemma printable_peer:
  assumes "printable lib a" and "unat port < 2 ^ 16"
  shows "0 < length (adr_to_string lib (AdrTuple tr a port))" and "length (adr_to_string lib (AdrTuple tr a port)) < 128"
    and "CHR 0x00 \<notin> set (adr_to_string lib (AdrTuple tr a port))"
    and "split_addr (adr_to_string lib (AdrTuple tr a port)) 32 8 = Some (as_to_string lib a, base_string 10 (unat port))"
proof -
  have l: "length (base_string 10 (unat port)) \<le> 5" using base10_length [of "unat port" 4] assms(2) by simp
  show "0 < length (adr_to_string lib (AdrTuple tr a port))" "length (adr_to_string lib (AdrTuple tr a port)) < 128"
    using assms(1) l by (simp_all add: adr_to_string_def printable_def)
  show "CHR 0x00 \<notin> set (adr_to_string lib (AdrTuple tr a port))"
    using assms(1) base10_string [of "unat port"] by (auto simp: adr_to_string_def printable_def list_all_iff isdigit_def)
  show "split_addr (adr_to_string lib (AdrTuple tr a port)) 32 8 = Some (as_to_string lib a, base_string 10 (unat port))"
    using split_addr_to_string [of lib "AdrTuple tr a port" 32 8] assms(1) l by (simp add: printable_def)
qed

text \<open>Sending the first packet of the queue.\<close>

lemma deliver_to_udp_peer_frame:
  assumes "printable lib a" and "unat port < 2 ^ 16" and "t = AdrTuple tr a port" and "length (adr_to_string lib t) + length data \<le> MAX_PAYLOAD_SIZE"
    and "rt_tcpQueue r = frame_copy raw (adr_to_string lib t) data # q"
  shows "deliver_to_udp_peer lib r = Some (async (SendUdp (a, ucast port) data) r)"
proof -
  note p = printable_peer [OF assms(1,2), of tr, folded assms(3)]
  have n: "word_of_int (atoi (base_string 10 (unat port))) = (ucast port :: 16 word)"
    using atoi_base [of "unat port"] assms(2) by simp
  show ?thesis
    using assms(1,5) p(4) n frame_copy_contents(1) [OF assms(4) p(1,2,3)] frame_copy_contents(2) [OF assms(4)]
    by (simp add: deliver_to_udp_peer_def printable_def)
qed

text \<open>C3: A frame that the server sends for a peer, when nothing is being sent to peers, is read, its data is sent to this peer, once,
  and the next frame is waited for; when the data is sent the queue is empty again.\<close>

theorem router_answer_sent:
  assumes "rt_heap r s = Some se" and "se_packet se = rp_clear" and "rt_tcpQueue r = []" and "\<not> rt_dead r" and "length raw = PACKET_SIZE"
    and "printable lib a" and "unat port < 2 ^ 16" and "t = AdrTuple tr a port" and "PEER_LENGTH + length (adr_to_string lib t) + length data \<le> MAX_PAYLOAD_SIZE"
    and "f = frame (adr_to_string lib t) data"
  shows "\<exists>r1 r2. handle_read_header s False (take HEADER_LENGTH f) r = Some r1 \<and>
    rt_ops r1 = rt_ops r @ [ReadPayload s (length (drop HEADER_LENGTH f))] \<and>
    handle_read_payload lib raw s False (drop HEADER_LENGTH f) r1 = Some r2 \<and>
    rt_ops r2 = rt_ops r1 @ [SendUdp (a, ucast port) data, ReadHeader s] \<and> rt_heap r2 = rt_heap r \<and>
    handle_deliver_to_udp_peer lib False r2 = Some (r2\<lparr>rt_tcpQueue := []\<rparr>)"
proof -
  let ?p = "adr_to_string lib t" and ?n = "PEER_LENGTH + length (adr_to_string lib t) + length data"
  have l: "length ?p + length data \<le> MAX_PAYLOAD_SIZE" "length ?p + length data \<le> 1024" using assms(9) by (simp_all add: packet_sizes)
  define p1 where "p1 = \<lparr>rp_payloadLength = of_nat ?n, rp_peerLength = 0, rp_payload = pad4 ?n @ replicate 1028 (CHR 0x00)\<rparr>"
  have h: "(receive_header (take HEADER_LENGTH f) rp_clear \<bind> decode_header) = Some (True, p1)"
    unfolding assms(10) p1_def by (rule receive_header_frame [OF assms(9)])
  have b: "(receive_payload (drop HEADER_LENGTH f) p1 \<bind> decode_peer) = Some (True, frame_packet ?p data)"
    unfolding assms(10) p1_def by (rule receive_payload_frame [OF assms(9)])
  have lf: "length f = 8 + length ?p + length data" using frame_length [OF l(1)] assms(10) by simp
  have u: "unat (rp_payloadLength p1) = length (drop HEADER_LENGTH f)"
    using unat_frame(1) [OF l(2)] lf by (simp add: p1_def packet_sizes)
  define r1 where "r1 = async (ReadPayload s (length (drop HEADER_LENGTH f))) (put_session s (se\<lparr>se_packet := p1\<rparr>) r)"
  obtain q1 where "receive_header (take HEADER_LENGTH f) rp_clear = Some q1" "decode_header q1 = Some (True, p1)"
    using h by (auto simp: bind_eq_Some_conv)
  moreover have "min (length f) HEADER_LENGTH \<noteq> 0" using lf by (simp add: packet_sizes)
  ultimately have 1: "handle_read_header s False (take HEADER_LENGTH f) r = Some r1"
    using assms(1,2) u by (auto simp: handle_read_header_def r1_def Let_def min_def split: if_splits)
  have h1: "rt_heap r1 s = Some (se\<lparr>se_packet := p1\<rparr>)" by (simp add: r1_def async_def put_session_def)
  define r1' where "r1' = put_session s (se\<lparr>se_packet := rp_clear\<rparr>) (r1\<lparr>rt_tcpQueue := [frame_copy raw ?p data]\<rparr>)"
  have add: "add_tcp_packet lib raw (frame_packet ?p data) (put_session s (se\<lparr>se_packet := frame_packet ?p data\<rparr>) r1)
      = Some ((put_session s (se\<lparr>se_packet := frame_packet ?p data\<rparr>) r1)\<lparr>rt_tcpQueue := [frame_copy raw ?p data]\<rparr>)"
    using rp_copy_frame(1) [OF assms(5,9)] assms(3) by (simp add: add_tcp_packet_def r1_def async_def put_session_def)
  have del: "deliver_to_udp_peer lib r1' = Some (async (SendUdp (a, ucast port) data) r1')"
    by (rule deliver_to_udp_peer_frame [OF assms(6,7,8) l(1)]) (simp add: r1'_def put_session_def)
  define r2 where "r2 = start_read_from_tcp s (async (SendUdp (a, ucast port) data) r1')"
  obtain q where q: "receive_payload (drop HEADER_LENGTH f) p1 = Some q" "decode_peer q = Some (True, frame_packet ?p data)"
    using b by (auto simp: bind_eq_Some_conv)
  have same: "put_session s (se\<lparr>se_packet := rp_clear\<rparr>) ((put_session s (se\<lparr>se_packet := frame_packet ?p data\<rparr>) r1)\<lparr>rt_tcpQueue := [frame_copy raw ?p data]\<rparr>) = r1'"
    by (simp add: r1'_def put_session_def)
  have dead: "\<not> rt_dead r1" "\<not> rt_dead r1'" using assms(4) by (simp_all add: r1_def r1'_def async_def put_session_def)
  have 2: "handle_read_payload lib raw s False (drop HEADER_LENGTH f) r1 = Some r2"
    using h1 q add del lf dead by (simp add: handle_read_payload_def packet_sizes same r2_def) (simp add: put_session_def async_def)
  have 3: "rt_heap r2 = rt_heap r"
    using assms(1,2) by (simp add: r2_def r1'_def r1_def start_read_from_tcp_def async_def put_session_def fun_upd_idem_iff)
  have 4: "handle_deliver_to_udp_peer lib False r2 = Some (r2\<lparr>rt_tcpQueue := []\<rparr>)"
    by (simp add: handle_deliver_to_udp_peer_def deliver_to_udp_peer_def r2_def r1'_def start_read_from_tcp_def async_def put_session_def)
  show ?thesis
    using 1 2 3 4 by (intro exI [of _ r1] exI [of _ r2]) (simp add: r1_def r2_def r1'_def start_read_from_tcp_def async_def put_session_def)
qed

text \<open>The flag of \<open>add_tcp_packet\<close> is inverted: a packet that arrives while the first one of the queue is being sent starts to send the
  first one again.\<close>

lemma add_tcp_packet_repeats:
  assumes "printable lib a" and "unat port < 2 ^ 16" and "t = AdrTuple tr a port" and "length (adr_to_string lib t) + length data \<le> MAX_PAYLOAD_SIZE"
    and "rt_tcpQueue r = frame_copy raw' (adr_to_string lib t) data # q" and "rp_copy raw p = Some p'"
  shows "add_tcp_packet lib raw p r = Some (async (SendUdp (a, ucast port) data) (r\<lparr>rt_tcpQueue := rt_tcpQueue r @ [p']\<rparr>))"
  using deliver_to_udp_peer_frame [OF assms(1-4), of "r\<lparr>rt_tcpQueue := rt_tcpQueue r @ [p']\<rparr>"] assms(5,6) by (simp add: add_tcp_packet_def)

text \<open>The report of a failed session removes whatever session its address has by then.\<close>

lemma handle_connection_failed_removes:
  assumes "router_ok r" and "rt_heap r s = Some se"
  shows "\<exists>r'. handle_connection_failed s r = Some r' \<and> map_find (se_tuple se) (rt_sessions r') = None"
  using assms by (auto simp: handle_connection_failed_def remove_session_def router_ok_def st.entries_ok_def map_find_erase)

subsection \<open>Delivery\<close>

text \<open>The completion of an operation without an error.\<close>

definition success :: "'a asio \<Rightarrow> 'a completion" where
  "success lib = \<lparr>cp_error = False, cp_bytes = [], cp_endpoints = [(as_default lib, 0)], cp_remote = (as_default lib, 0),
     cp_raw = replicate PACKET_SIZE (CHR 0x00)\<rparr>"

lemma success_step:
  assumes "\<not> rt_dead r" and "x \<in> set (rt_ops r)" and "drives s x" and "complete lib (success lib) x r = Some r'"
  shows "router_step lib r r'"
  by (rule router_step.completion [where x = x and c = "success lib"]) (use assms in \<open>cases x; simp add: success_def\<close>)+

lemma deliver_writes:
  assumes "rt_heap r s = Some se" and "session_ok se ds" and "se_queue se \<noteq> []" and "se_open se"
  obtains b where "deliver_to_tcp_peer s r = Some (async (WriteTcp s b) r)"
  using packet_bytes_queue [OF assms(2)] assms by (cases "se_queue se") (auto simp: deliver_to_tcp_peer_def)

lemma write_step:
  assumes "router_ok r" and "\<not> rt_dead r" and "rt_heap r s = Some se" and "WriteTcp s b \<in> set (rt_ops r)"
  obtains r' where "router_step lib r r'" and "router_ok r'" and "\<not> rt_dead r'"
    and "rt_heap r' s = Some (se\<lparr>se_queue := tl (se_queue se), se_sent := se_sent se @ [b]\<rparr>)"
    and "tl (se_queue se) \<noteq> [] \<Longrightarrow> \<exists>b. WriteTcp s b \<in> set (rt_ops r')"
proof -
  let ?x = "WriteTcp s b" and ?se = "se\<lparr>se_queue := tl (se_queue se), se_sent := se_sent se @ [b]\<rparr>"
  have ok: "session_ok se (drivers s (rt_ops r))" using assms(1,3) by (simp add: router_ok_def)
  have op: "se_open se" and hd: "packet_bytes (hd (se_queue se)) = Some b" and ne: "se_queue se \<noteq> []" using driver_alone [OF ok assms(4)] by auto
  obtain p q where q: "se_queue se = p # q" using ne by (cases "se_queue se") auto
  have ok': "session_ok ?se []" using ok hd q by (auto simp: session_ok_def history_ok_def Cons_eq_map_conv)
  let ?r = "put_session s ?se (taken ?x r)"
  have h: "rt_heap ?r s = Some ?se" by (simp add: put_session_def)
  have c: "complete lib (success lib) ?x r = (if q \<noteq> [] then deliver_to_tcp_peer s ?r else Some ?r)"
    using assms(3) q by (simp add: complete_def success_def handle_deliver_tcp_def Let_def)
  have step: "router_step lib r r'" and okr: "router_ok r'" if "complete lib (success lib) ?x r = Some r'" for r'
    using success_step [OF assms(2,4) _ that] complete_ok [OF assms(1,4) _ that] by (simp_all add: success_def)
  show ?thesis
  proof (cases "q = []")
    case True
    then show ?thesis using that [of ?r] step okr c q h assms(2) by (simp add: put_session_def)
  next
    case False
    obtain b' where "deliver_to_tcp_peer s ?r = Some (async (WriteTcp s b') ?r)"
      by (rule deliver_writes [OF h ok']) (use q False op in simp_all)
    then show ?thesis using that [of "async (WriteTcp s b') ?r"] step okr c False h assms(2) by (auto simp: async_def put_session_def)
  qed
qed

lemma writes_drain:
  assumes "router_ok r" and "\<not> rt_dead r" and "rt_heap r s = Some se" and "WriteTcp s b \<in> set (rt_ops r)"
  shows "\<exists>r' se'. (router_step lib)\<^sup>*\<^sup>* r r' \<and> rt_heap r' s = Some se' \<and> se_queue se' = [] \<and> se_sent se' = se_received se"
  using assms
proof (induction "length (se_queue se)" arbitrary: r se b rule: less_induct)
  case less
  let ?se = "se\<lparr>se_queue := tl (se_queue se), se_sent := se_sent se @ [b]\<rparr>"
  have ok: "session_ok se (drivers s (rt_ops r))" using less.prems(1,3) by (simp add: router_ok_def)
  note d = driver_alone(2,3) [OF ok less.prems(4)]
  obtain r' where r': "router_step lib r r'" "router_ok r'" "\<not> rt_dead r'" "rt_heap r' s = Some ?se"
    "tl (se_queue se) \<noteq> [] \<Longrightarrow> \<exists>b. WriteTcp s b \<in> set (rt_ops r')"
    using write_step [OF less.prems] by blast
  show ?case
  proof (cases "tl (se_queue se) = []")
    case True
    then have "se_received se = se_sent se @ [b]" using ok d by (cases "se_queue se") (auto simp: session_ok_def history_ok_def Cons_eq_map_conv)
    then show ?thesis using True r'(1,4) by (intro exI [of _ r'] exI [of _ ?se]) (auto intro: r_into_rtranclp)
  next
    case False
    then obtain b' where b': "WriteTcp s b' \<in> set (rt_ops r')" using r'(5) by blast
    have "length (se_queue ?se) < length (se_queue se)" using d(1) by simp
    from less.hyps [OF this r'(2,3,4) b'] r'(1) show ?thesis by (auto intro: converse_rtranclp_into_rtranclp)
  qed
qed

lemma connect_step:
  assumes "router_ok r" and "\<not> rt_dead r" and "rt_heap r s = Some se" and "Connect s eps \<in> set (rt_ops r)"
  obtains r' b where "router_step lib r r'" and "router_ok r'" and "\<not> rt_dead r'" and "rt_heap r' s = Some se" and "WriteTcp s b \<in> set (rt_ops r')"
proof -
  let ?x = "Connect s eps"
  have ok: "session_ok se (drivers s (rt_ops r))" using assms(1,3) by (simp add: router_ok_def)
  have op: "se_open se" and ne: "se_queue se \<noteq> []" using driver_alone [OF ok assms(4)] by auto
  have h: "rt_heap (taken ?x r) s = Some se" using assms(3) by simp
  obtain b where b: "deliver_to_tcp_peer s (taken ?x r) = Some (async (WriteTcp s b) (taken ?x r))"
    using deliver_writes [OF h ok ne op] by blast
  let ?r = "start_read_from_tcp s (async (WriteTcp s b) (taken ?x r))"
  have c: "complete lib (success lib) ?x r = Some ?r" using assms(3) op b by (simp add: complete_def success_def handle_connection_def)
  show ?thesis
    using that [OF success_step [OF assms(2,4) _ c] complete_ok [OF assms(1,4) _ c], where b = b] assms(2,3)
    by (simp add: success_def start_read_from_tcp_def async_def)
qed

lemma resolve_step:
  assumes "router_ok r" and "\<not> rt_dead r" and "rt_heap r s = Some se" and "Resolve s server port \<in> set (rt_ops r)"
  obtains r' where "router_step lib r r'" and "router_ok r'" and "\<not> rt_dead r'" and "rt_heap r' s = Some (se\<lparr>se_open := True\<rparr>)"
    and "Connect s [] \<in> set (rt_ops r')"
proof -
  let ?x = "Resolve s server port"
  let ?r = "async (Connect s []) (put_session s (se\<lparr>se_open := True\<rparr>) (taken ?x r))"
  have c: "complete lib (success lib) ?x r = Some ?r" using assms(3) by (simp add: complete_def success_def handle_resolve_def connect_next_def)
  show ?thesis
    using that [OF success_step [OF assms(2,4) _ c] complete_ok [OF assms(1,4) _ c]] assms(2)
    by (simp add: success_def async_def put_session_def)
qed


subsection \<open>A run of the router\<close>

text \<open>One address, which is printed and read back, and the router after the first datagram.\<close>

definition sample_asio :: "nat asio" where
  "sample_asio = \<lparr>as_to_string = (\<lambda>_. ''10.0.0.1''), as_from_string = (\<lambda>s. if s = ''10.0.0.1'' then Some 1 else None), as_default = 0\<rparr>"

definition sample_tuple :: "nat adr_tuple" where "sample_tuple = AdrTuple UDP 1 4000"

definition sample_raw :: string where "sample_raw = replicate PACKET_SIZE (CHR 0x00)"

definition sample_router :: "nat router" where
  "sample_router = \<lparr>rt_heap = [0 \<mapsto> \<lparr>se_tuple = sample_tuple, se_packet = rp_clear, se_queue = [frame_copy sample_raw ''10.0.0.1:4000'' ''hello''],
       se_open = False, se_received = [frame ''10.0.0.1:4000'' ''hello''], se_sent = []\<rparr>],
     rt_brk = 1, rt_sessions = [(sample_tuple, 0)], rt_tcpQueue = [], rt_ops = [Resolve 0 ''f1'' ''3500'', Receive],
     rt_f1 = (''f1'', 3500), rt_dead = False\<rparr>"

lemma sample_numbers: "base_string 10 4000 = ''4000''" "base_string 10 3500 = ''3500''"
  by code_simp+

lemma sample_string: "adr_to_string sample_asio sample_tuple = ''10.0.0.1:4000''"
  by (simp add: adr_to_string_def sample_asio_def sample_tuple_def sample_numbers)

lemma sample_receive: "handle_receive sample_asio sample_raw False (1, 4000) ''hello'' (taken Receive (router_start (''f1'', 3500))) = Some sample_router"
proof -
  have t: "AdrTuple UDP 1 (ucast (4000 :: 16 word)) = sample_tuple" by (simp add: sample_tuple_def)
  have l: "PEER_LENGTH + length ''10.0.0.1:4000'' + length ''hello'' \<le> MAX_PAYLOAD_SIZE"
    "length ''10.0.0.1:4000'' + length ''hello'' \<le> MAX_PAYLOAD_SIZE" "length sample_raw = PACKET_SIZE"
    by (simp_all add: packet_sizes sample_raw_def)
  note f = build_packet_fits [OF l(2)] rp_copy_frame [OF l(3,1)] frame_packet_bytes [OF l(2)]
  show ?thesis
    unfolding handle_receive_def Let_def fst_conv snd_conv t
    by (simp add: deliver_from_udp_peer_def sample_string f router_start_def start_receive_def async_def alloc_session_def put_session_def add_session_def
        add_router_packet_def deliver_to_tcp_peer_def start_session_def new_session_def sample_numbers sample_router_def)
qed

lemma sample_reachable: "reachable sample_asio (''f1'', 3500) sample_router"
proof (rule reachable.step [OF reachable.start])
  let ?c = "\<lparr>cp_error = False, cp_bytes = ''hello'', cp_endpoints = [], cp_remote = (1, 4000), cp_raw = sample_raw\<rparr>"
  have "complete sample_asio ?c Receive (router_start (''f1'', 3500)) = Some sample_router"
    using sample_receive by (simp add: complete_def)
  then show "router_step sample_asio (router_start (''f1'', 3500)) sample_router"
    by (rule router_step.completion [rotated 3])
       (simp_all add: router_start_def start_receive_def async_def sample_raw_def NETWOR_BUFFER_SIZE_def)
qed

lemma sample_session:
  obtains se where "rt_heap sample_router 0 = Some se" and "se_packet se = rp_clear" and "se_received se = [frame ''10.0.0.1:4000'' ''hello'']"
    and "se_sent se = []"
  by (simp add: sample_router_def)

theorem router_writes_in_order_witness:
  "\<exists>se. rt_heap sample_router 0 = Some se \<and> length (drivers 0 (rt_ops sample_router)) \<le> 1 \<and>
     (\<exists>bs. se_received se = se_sent se @ bs \<and> map packet_bytes (se_queue se) = map Some bs)"
proof -
  obtain se where se: "rt_heap sample_router 0 = Some se" using sample_session by blast
  from router_writes_in_order [OF sample_reachable se] se show ?thesis by blast
qed

theorem router_table_search_witness:
  "find_session (rt_heap sample_router) sample_tuple (rt_sessions sample_router) = Some (Some 0)"
  using router_table_search [OF sample_reachable, of sample_tuple] by (simp add: sample_router_def)

theorem router_progress_witness: "\<exists>r'. complete sample_asio (success sample_asio) (Resolve 0 ''f1'' ''3500'') sample_router = Some r'"
  by (rule router_progress [OF sample_reachable]) (simp_all add: sample_router_def success_def)

theorem router_receive_routes_witness:
  "\<exists>r'. handle_receive sample_asio sample_raw False (1, 4000) ''more'' sample_router = Some r' \<and>
     frames_of r' sample_tuple = frames_of sample_router sample_tuple @ [frame ''10.0.0.1:4000'' ''more''] \<and>
     (\<forall>t'. t' \<noteq> sample_tuple \<longrightarrow> frames_of r' t' = frames_of sample_router t') \<and> Receive \<in> set (rt_ops r')"
  using router_receive_routes [OF sample_reachable, of sample_tuple 1 4000 sample_raw False "''more''"]
  by (simp add: sample_string sample_raw_def packet_sizes) (simp add: sample_tuple_def)

theorem router_answer_sent_witness:
  "\<exists>r1 r2. handle_read_header 0 False (take HEADER_LENGTH (frame ''10.0.0.1:4000'' ''yes'')) sample_router = Some r1 \<and>
     handle_read_payload sample_asio sample_raw 0 False (drop HEADER_LENGTH (frame ''10.0.0.1:4000'' ''yes'')) r1 = Some r2 \<and>
     rt_ops r2 = rt_ops r1 @ [SendUdp (1, 4000) ''yes'', ReadHeader 0]"
proof -
  obtain se where se: "rt_heap sample_router 0 = Some se" "se_packet se = rp_clear" using sample_session by blast
  have "\<exists>r1 r2. handle_read_header 0 False (take HEADER_LENGTH (frame ''10.0.0.1:4000'' ''yes'')) sample_router = Some r1 \<and>
    rt_ops r1 = rt_ops sample_router @ [ReadPayload 0 (length (drop HEADER_LENGTH (frame ''10.0.0.1:4000'' ''yes'')))] \<and>
    handle_read_payload sample_asio sample_raw 0 False (drop HEADER_LENGTH (frame ''10.0.0.1:4000'' ''yes'')) r1 = Some r2 \<and>
    rt_ops r2 = rt_ops r1 @ [SendUdp (1, ucast (4000 :: 32 word)) ''yes'', ReadHeader 0] \<and> rt_heap r2 = rt_heap sample_router \<and>
    handle_deliver_to_udp_peer sample_asio False r2 = Some (r2\<lparr>rt_tcpQueue := []\<rparr>)"
    by (rule router_answer_sent [OF se, where t = sample_tuple and tr = UDP])
       (simp_all add: sample_string, simp_all add: sample_router_def sample_raw_def printable_def sample_asio_def sample_tuple_def packet_sizes)
  then show ?thesis by fastforce
qed


subsection \<open>Giving up\<close>

text \<open>An attempt of the session to connect fails.\<close>

definition connect_fails :: "'a::linorder asio \<Rightarrow> nat \<Rightarrow> 'a router \<Rightarrow> 'a router \<Rightarrow> bool" where
  "connect_fails lib s r r' \<longleftrightarrow> (\<exists>eps c. Connect s eps \<in> set (rt_ops r) \<and> documented (Connect s eps) c \<and> cp_error c \<and> complete lib c (Connect s eps) r = Some r')"

lemma connect_fails_drivers: "connect_fails lib s r r' \<Longrightarrow> drivers s (rt_ops r) \<noteq> []"
  by (force simp: connect_fails_def drivers_def filter_empty_conv)

lemma connect_fails_iff:
  assumes "drivers s (rt_ops r) = [Connect s eps]" and "rt_heap r s = Some se"
  shows "connect_fails lib s r r' \<longleftrightarrow> r' = (case eps of [] \<Rightarrow> close_session s (taken (Connect s eps) r)
    | _ # es \<Rightarrow> async (Connect s es) (put_session s (se\<lparr>se_open := True\<rparr>) (taken (Connect s eps) r)))"
proof -
  have "Connect s eps' \<in> set (rt_ops r) \<longleftrightarrow> Connect s eps' \<in> set (drivers s (rt_ops r))" for eps' by (simp add: drivers_def)
  then have m: "Connect s eps' \<in> set (rt_ops r) \<longleftrightarrow> eps' = eps" for eps' using assms(1) by simp
  have f: "complete lib c (Connect s eps) r = Some r' \<longleftrightarrow> r' = (case eps of [] \<Rightarrow> close_session s (taken (Connect s eps) r)
    | _ # es \<Rightarrow> async (Connect s es) (put_session s (se\<lparr>se_open := True\<rparr>) (taken (Connect s eps) r)))" if "cp_error c" for c
    using that assms(2) by (auto simp: complete_def handle_connection_def connect_next_def split: list.splits)
  have c: "\<exists>c :: 'a completion. documented (Connect s eps) c \<and> cp_error c"
    by (rule exI [of _ "(success lib)\<lparr>cp_error := True\<rparr>"]) (simp add: success_def)
  have "connect_fails lib s r r' \<longleftrightarrow> (\<exists>c. (documented (Connect s eps) c \<and> cp_error c) \<and> complete lib c (Connect s eps) r = Some r')"
    unfolding connect_fails_def m by simp
  then show ?thesis using f c by metis
qed

lemma connect_fails_next:
  assumes "drivers s (rt_ops r) = [Connect s (e # es)]" and "rt_heap r s \<noteq> None"
  obtains r1 where "connect_fails lib s r r1" and "\<And>r'. connect_fails lib s r r' \<Longrightarrow> r' = r1"
    and "drivers s (rt_ops r1) = [Connect s es]" and "rt_heap r1 s \<noteq> None"
proof -
  obtain se where se: "rt_heap r s = Some se" using assms(2) by auto
  show ?thesis
    by (rule that [of "async (Connect s es) (put_session s (se\<lparr>se_open := True\<rparr>) (taken (Connect s (e # es)) r))"])
      (use assms(1) in \<open>simp_all add: connect_fails_iff [OF assms(1) se] async_def put_session_def drivers_remove1\<close>)
qed

lemma connect_fails_last:
  assumes "drivers s (rt_ops r) = [Connect s []]" and "rt_heap r s \<noteq> None"
  obtains r1 where "connect_fails lib s r r1" and "\<And>r'. connect_fails lib s r r' \<Longrightarrow> r' = r1"
    and "drivers s (rt_ops r1) = []" and "Failed s \<in> set (rt_ops r1)"
proof -
  obtain se where se: "rt_heap r s = Some se" using assms(2) by auto
  show ?thesis
    by (rule that [of "close_session s (taken (Connect s []) r)"])
      (use assms(1) in \<open>simp_all add: connect_fails_iff [OF assms(1) se] close_session_def async_def drivers_remove1\<close>)
qed

lemma connect_fails_exactly:
  assumes "drivers s (rt_ops r) = [Connect s eps]" and "rt_heap r s \<noteq> None"
  shows "\<exists>r1. (connect_fails lib s ^^ Suc (length eps)) r r1 \<and> Failed s \<in> set (rt_ops r1) \<and> drivers s (rt_ops r1) = [] \<and>
    (\<forall>n r'. (connect_fails lib s ^^ n) r r' \<longrightarrow> n \<le> length eps \<or> n = Suc (length eps) \<and> r' = r1)"
  using assms
proof (induction eps arbitrary: r)
  case Nil
  obtain r1 where r1: "connect_fails lib s r r1" "\<And>r'. connect_fails lib s r r' \<Longrightarrow> r' = r1" "drivers s (rt_ops r1) = []" "Failed s \<in> set (rt_ops r1)"
    by (rule connect_fails_last [OF Nil.prems, of lib]) blast
  have "n = 0 \<or> n = 1 \<and> r' = r1" if "(connect_fails lib s ^^ n) r r'" for n r'
  proof (cases n)
    case (Suc m)
    then have m: "(connect_fails lib s ^^ m) r1 r'" using relpowp_Suc_D2 [OF that [unfolded Suc]] r1(2) by blast
    then have "m = 0" using r1(3) connect_fails_drivers relpowp_Suc_D2 [of _ "connect_fails lib s" r1 r'] by (cases m) blast+
    then show ?thesis using m Suc by simp
  qed simp
  then show ?case using r1(1,3,4) by (intro exI [of _ r1]) auto
next
  case (Cons e es)
  obtain r2 where r2: "connect_fails lib s r r2" "\<And>r'. connect_fails lib s r r' \<Longrightarrow> r' = r2" "drivers s (rt_ops r2) = [Connect s es]" "rt_heap r2 s \<noteq> None"
    by (rule connect_fails_next [OF Cons.prems, of lib]) blast
  obtain r1 where r1: "(connect_fails lib s ^^ Suc (length es)) r2 r1" "Failed s \<in> set (rt_ops r1)" "drivers s (rt_ops r1) = []"
    "\<And>n r'. (connect_fails lib s ^^ n) r2 r' \<Longrightarrow> n \<le> length es \<or> n = Suc (length es) \<and> r' = r1"
    using Cons.IH [OF r2(3,4)] by blast
  have "n \<le> Suc (length es) \<or> n = Suc (Suc (length es)) \<and> r' = r1" if "(connect_fails lib s ^^ n) r r'" for n r'
  proof (cases n)
    case (Suc m)
    then have "(connect_fails lib s ^^ m) r2 r'" using relpowp_Suc_D2 [OF that [unfolded Suc]] r2(2) by blast
    then show ?thesis using r1(4) Suc by fastforce
  qed simp
  moreover have "(connect_fails lib s ^^ Suc (Suc (length es))) r r1" using r2(1) r1(1) by (rule relpowp_Suc_I2)
  ultimately show ?case using r1(2,3) by (intro exI [of _ r1]) auto
qed

text \<open>C9: Trying to connect ends: when every attempt fails, exactly one attempt is made for each endpoint that is left, and then the
  session is closed, with nothing of it in progress; no sequence of failures is longer.\<close>

theorem router_gives_up:
  assumes "reachable lib f1 r" and "Connect s eps \<in> set (rt_ops r)"
  shows "\<exists>r1. (connect_fails lib s ^^ Suc (length eps)) r r1 \<and> Failed s \<in> set (rt_ops r1) \<and> drivers s (rt_ops r1) = [] \<and>
    (\<forall>n r'. (connect_fails lib s ^^ n) r r' \<longrightarrow> n \<le> length eps \<or> n = Suc (length eps) \<and> r' = r1)"
proof -
  note ok = reachable_ok [OF assms(1)]
  have "s < rt_brk r" using ok assms(2) by (auto simp: router_ok_def list_all_iff)
  then obtain se where se: "rt_heap r s = Some se" using ok by (fastforce simp: router_ok_def)
  have "session_ok se (drivers s (rt_ops r))" using ok se by (simp add: router_ok_def)
  moreover have "Connect s eps \<in> set (drivers s (rt_ops r))" using assms(2) by (simp add: drivers_def)
  ultimately have "drivers s (rt_ops r) = [Connect s eps]" by (auto simp: session_ok_def)
  then show ?thesis using connect_fails_exactly se by blast
qed

text \<open>The resolution of the server gives two endpoints.\<close>

lemma sample_connecting: "\<exists>r. reachable sample_asio (''f1'', 3500) r \<and> Connect 0 [(1, 7)] \<in> set (rt_ops r)"
proof -
  let ?c = "\<lparr>cp_error = False, cp_bytes = [], cp_endpoints = [(1, 6), (1, 7)], cp_remote = (1, 0), cp_raw = sample_raw\<rparr>"
  have x: "Resolve 0 ''f1'' ''3500'' \<in> set (rt_ops sample_router)" "rt_heap sample_router 0 \<noteq> None" "\<not> rt_dead sample_router"
    by (simp_all add: sample_router_def)
  then obtain r' where "complete sample_asio ?c (Resolve 0 ''f1'' ''3500'') sample_router = Some r'" "Connect 0 [(1, 7)] \<in> set (rt_ops r')"
    by (auto simp: complete_def handle_resolve_def connect_next_def async_def put_session_def)
  moreover have "router_step sample_asio sample_router r'"
    by (rule router_step.completion [OF x(3,1) _ calculation(1)]) (simp add: sample_raw_def)
  ultimately show ?thesis using reachable.step [OF sample_reachable] by blast
qed

theorem router_gives_up_witness:
  "\<exists>r r1. reachable sample_asio (''f1'', 3500) r \<and> (connect_fails sample_asio 0 ^^ 2) r r1 \<and> Failed 0 \<in> set (rt_ops r1)"
proof -
  obtain r where r: "reachable sample_asio (''f1'', 3500) r" "Connect 0 [(1, 7)] \<in> set (rt_ops r)" using sample_connecting by blast
  from router_gives_up [OF r] r(1) show ?thesis by (auto simp: numeral_2_eq_2)
qed

end
