(* ===== verification/Router_Params.thy ===== *)
theory Router_Params
  imports Router_Packet
begin

text \<open>
  The parameters of the router (\<^verbatim>\<open>src/paramsManager.cpp\<close>). The parser of configuration files, \<open>config_file_iterator\<close> of
  \<open>boost::program_options\<close>, is a parameter: for the text of a file, the entries it yields and whether it ends without an exception.
  Files are a map from paths to texts. The field \<open>m_nTcpPort\<close>, which the constructor leaves alone, starts with what the memory holds.
\<close>

definition RART_CONFIG_FILE_PATH :: string where "RART_CONFIG_FILE_PATH = ''raRt.cfg''"

definition LOG_USER_VALUE :: int where "LOG_USER_VALUE = 8"

record params =
  pm_sF1Adr :: string
  pm_nF1Port :: nat
  pm_nUDpPort :: nat
  pm_nTcpPort :: nat
  pm_nSessionTimeout :: int
  pm_nLogLevel :: int
  pm_sConfigPath :: string

definition params_new :: "nat \<Rightarrow> string \<Rightarrow> params" where
  "params_new raw path = \<lparr>pm_sF1Adr = ''127.0.0.1'', pm_nF1Port = 3500, pm_nUDpPort = 3500, pm_nTcpPort = raw, pm_nSessionTimeout = 30 * 60 * 1000,
     pm_nLogLevel = LOG_USER_VALUE, pm_sConfigPath = path\<rparr>"

text \<open>Numbers as the streams print them, and the conversion of an \<open>int\<close> to \<open>size_t\<close>.\<close>

definition show_int :: "int \<Rightarrow> string" where
  "show_int v = (if v < 0 then CHR ''-'' # base_string 10 (nat (- v)) else base_string 10 (nat v))"

definition int_to_size_t :: "int \<Rightarrow> nat" where
  "int_to_size_t v = nat (v mod 2 ^ 64)"

definition config_line :: "string \<times> string \<Rightarrow> string" where
  "config_line e = fst e @ ''='' @ snd e @ [CHR 0x0A]"

text \<open>The entries that \<open>save\<close> writes, one to a line.\<close>

definition params_entries :: "params \<Rightarrow> (string \<times> string) list" where
  "params_entries pm = [(''f1serveradr'', pm_sF1Adr pm), (''f1serverport'', base_string 10 (pm_nF1Port pm)), (''udpport'', base_string 10 (pm_nUDpPort pm)),
     (''tcpport'', base_string 10 (pm_nTcpPort pm)), (''tcpsessiontimeout'', show_int (pm_nSessionTimeout pm)), (''loglevel'', show_int (pm_nLogLevel pm))]"

definition params_save :: "params \<Rightarrow> (string \<rightharpoonup> string) \<Rightarrow> int \<times> (string \<rightharpoonup> string)" where
  "params_save pm fs = (0, fs(RART_CONFIG_FILE_PATH \<mapsto> concat (map config_line (params_entries pm))))"

text \<open>One round of the loop of \<open>load\<close>.\<close>

definition params_set :: "string \<times> string \<Rightarrow> params \<Rightarrow> params" where
  "params_set e pm =
     (if fst e = ''f1serveradr'' then pm\<lparr>pm_sF1Adr := snd e\<rparr>
      else if fst e = ''f1serverport'' then pm\<lparr>pm_nF1Port := int_to_size_t (atoi (snd e))\<rparr>
      else if fst e = ''tcpsessiontimeout'' then pm\<lparr>pm_nSessionTimeout := strtol (snd e)\<rparr>
      else if fst e = ''loglevel'' then pm\<lparr>pm_nLogLevel := atoi (snd e)\<rparr>
      else if fst e = ''udpport'' then pm\<lparr>pm_nUDpPort := int_to_size_t (atoi (snd e))\<rparr>
      else if fst e = ''tcpport'' then pm\<lparr>pm_nTcpPort := int_to_size_t (atoi (snd e))\<rparr>
      else pm)"

definition params_load :: "(string \<Rightarrow> (string \<times> string) list \<times> bool) \<Rightarrow> (string \<rightharpoonup> string) \<Rightarrow> params \<Rightarrow> int \<times> params" where
  "params_load parse fs pm =
     (let pm = pm\<lparr>pm_sConfigPath := pm_sConfigPath pm @ ''/'' @ RART_CONFIG_FILE_PATH\<rparr> in
      case fs (pm_sConfigPath pm) of
        None \<Rightarrow> (-1, pm)
      | Some txt \<Rightarrow> (case parse txt of (es, ok) \<Rightarrow> (if ok then 0 else -1, fold params_set es pm)))"

text \<open>The setters.\<close>

definition setSessionTimeout :: "int \<Rightarrow> params \<Rightarrow> params" where
  "setSessionTimeout n pm = pm\<lparr>pm_nSessionTimeout := n\<rparr>"

definition setF1Port :: "nat \<Rightarrow> params \<Rightarrow> params" where
  "setF1Port n pm = pm\<lparr>pm_nF1Port := n\<rparr>"

definition setUDpPort :: "nat \<Rightarrow> params \<Rightarrow> params" where
  "setUDpPort n pm = pm\<lparr>pm_nUDpPort := n\<rparr>"

definition setF1ServerAdr :: "string \<Rightarrow> params \<Rightarrow> params" where
  "setF1ServerAdr s pm = pm\<lparr>pm_sF1Adr := s\<rparr>"

definition setTcpPort :: "nat \<Rightarrow> params \<Rightarrow> params" where
  "setTcpPort n pm = pm\<lparr>pm_nTcpPort := n\<rparr>"

subsection \<open>Reading numbers back\<close>

lemma strtol_base: "n < 2 ^ 31 \<Longrightarrow> strtol (base_string 10 n) = int n"
  using base10_string [of n] scan_number_digits [of "base_string 10 n" n "[]"] by (simp add: strtol_def)

lemma strtol_show_int:
  assumes "- (2 ^ 31) < v" and "v < 2 ^ 31"
  shows "strtol (show_int v) = v"
proof (cases "v < 0")
  case False
  then show ?thesis using strtol_base [of "nat v"] assms(2) by (simp add: show_int_def)
next
  case True
  let ?d = "base_string 10 (nat (- v))"
  note d = base10_string [of "nat (- v)"]
  have tw: "takeWhile isdigit ?d = ?d" using d by (simp add: takeWhile_eq_all_conv list_all_iff)
  have "scan_number 10 (CHR ''-'' # ?d) = Some (v, [])"
    using True d assms unfolding scan_number_def Let_def isdigit_bound by (simp add: tw clamp_long_def)
  then show ?thesis using True by (simp add: strtol_def show_int_def isspace_def)
qed

text \<open>C15: Parameters that are saved and loaded again are the same, apart from the path: for every parser that yields the entries of
  the file that \<open>save\<close> writes, when the numbers fit an \<open>int\<close>.\<close>

theorem params_save_load:
  assumes "parse (concat (map config_line (params_entries pm))) = (params_entries pm, True)"
    and "pm_nF1Port pm < 2 ^ 31" and "pm_nUDpPort pm < 2 ^ 31" and "pm_nTcpPort pm < 2 ^ 31"
    and "\<bar>pm_nSessionTimeout pm\<bar> < 2 ^ 31" and "\<bar>pm_nLogLevel pm\<bar> < 2 ^ 31"
    and "fs (path @ ''/'' @ RART_CONFIG_FILE_PATH) = snd (params_save pm fs0) RART_CONFIG_FILE_PATH"
  shows "params_load parse fs (params_new raw path) = (0, pm\<lparr>pm_sConfigPath := path @ ''/'' @ RART_CONFIG_FILE_PATH\<rparr>)"
proof -
  have n: "int_to_size_t (atoi (base_string 10 n)) = n" if "n < 2 ^ 31" for n
    using atoi_base [OF that] that by (simp add: int_to_size_t_def)
  have "strtol (show_int (pm_nSessionTimeout pm)) = pm_nSessionTimeout pm" and l: "strtol (show_int (pm_nLogLevel pm)) = pm_nLogLevel pm"
    using assms(5,6) by (auto intro!: strtol_show_int)
  moreover have "atoi (show_int (pm_nLogLevel pm)) = pm_nLogLevel pm" using l assms(6) by (simp add: atoi_def to_int32_def)
  ultimately show ?thesis
    using assms(1,7) n [OF assms(2)] n [OF assms(3)] n [OF assms(4)]
    by (simp add: params_load_def params_save_def params_new_def params_entries_def params_set_def)
qed

definition sample_params :: params where
  "sample_params = \<lparr>pm_sF1Adr = ''10.0.0.9'', pm_nF1Port = 3501, pm_nUDpPort = 3502, pm_nTcpPort = 3503, pm_nSessionTimeout = -5,
     pm_nLogLevel = 3, pm_sConfigPath = []\<rparr>"

theorem params_save_load_witness:
  "params_load (\<lambda>_. (params_entries sample_params, True)) [''/etc/raRt.cfg'' \<mapsto> concat (map config_line (params_entries sample_params))] (params_new 0 ''/etc'')
   = (0, sample_params\<lparr>pm_sConfigPath := ''/etc/raRt.cfg''\<rparr>)"
  using params_save_load [of "\<lambda>_. (params_entries sample_params, True)" sample_params
    "[''/etc/raRt.cfg'' \<mapsto> concat (map config_line (params_entries sample_params))]" "''/etc''" "Map.empty" 0]
  by (simp add: sample_params_def params_save_def RART_CONFIG_FILE_PATH_def)

end
