(* ===== verification/Router_Main.thy ===== *)
theory Router_Main
  imports Router_Params Router_System Zlog_Chk_Conf
begin

text \<open>
  The program: the use of the logging library (\<^verbatim>\<open>src/rartlog.cpp\<close>) and the start of the process (\<^verbatim>\<open>src/main.cpp\<close>). The parser of the
  command line, of \<open>boost::program_options\<close>, is a parameter, as are the answers of \<open>getppid\<close>, \<open>fork\<close> and of the binding of the UDP socket.
  The messages the program logs and the lines it appends to \<open>raRt_events.log\<close> are left out.
\<close>

subsection \<open>Logging\<close>

text \<open>The global variables of \<^verbatim>\<open>rartlog.cpp\<close>, beside those of the library.\<close>

record 'f rart_log =
  rl_env :: "'f zlog_env"
  rl_rc :: int
  rl_category :: "nat option"

definition rart_log_start :: "'f rart_log" where
  "rart_log_start = \<lparr>rl_env = env_start, rl_rc = 0, rl_category = None\<rparr>"

text \<open>An inner \<open>Some\<close> is the status of \<open>exit\<close>.\<close>

definition log_init :: "libc \<Rightarrow> string \<Rightarrow> 'f rart_log \<Rightarrow> 'z os_scheme \<Rightarrow> (int option \<times> 'f rart_log \<times> 'z os_scheme) option" where
  "log_init lc conf g w = do {
     (rc, e, w) \<leftarrow> zlog_init lc (Some conf) (rl_env g) w;
     let g = g\<lparr>rl_rc := rc, rl_env := e\<rparr>;
     if rc \<noteq> 0 then Some (Some (-1), g, w)
     else do {
       (a, e, w) \<leftarrow> zlog_get_category ''rart_cat'' e w;
       let g = g\<lparr>rl_category := a, rl_env := e\<rparr>;
       if a = None then do { (e, w) \<leftarrow> zlog_fini e w; Some (Some (-2), g\<lparr>rl_env := e\<rparr>, w) }
       else Some (None, g, w)
     }
   }"

definition log_fini :: "'f rart_log \<Rightarrow> 'z os_scheme \<Rightarrow> ('f rart_log \<times> 'z os_scheme) option" where
  "log_fini g w = do { (e, w) \<leftarrow> zlog_fini (rl_env g) w; Some (g\<lparr>rl_env := e\<rparr>, w) }"

definition log_reload :: "libc \<Rightarrow> string \<Rightarrow> 'f rart_log \<Rightarrow> 'z os_scheme \<Rightarrow> ('f rart_log \<times> 'z os_scheme) option" where
  "log_reload lc conf g w = do { (rc, e, w) \<leftarrow> zlog_reload lc (ReloadPath conf) (rl_env g) w; Some (g\<lparr>rl_rc := rc, rl_env := e\<rparr>, w) }"

subsection \<open>The command line\<close>

record options =
  opt_daemon :: bool
  opt_verbose :: "int option"
  opt_config :: "string option"
  opt_log :: "string option"
  opt_help :: bool
  opt_version :: bool

text \<open>The paths are arrays of 256 bytes, and \<open>strcpy\<close> and \<open>strcat\<close> do not look at the length.\<close>

definition PATH_ARRAY :: nat where "PATH_ARRAY = 256"

definition copy_path :: "string \<Rightarrow> string option" where
  "copy_path s = (if length s < PATH_ARRAY then Some s else None)"

record paths =
  pa_config :: string
  pa_log :: string
  pa_log_config :: string

definition default_paths :: paths where
  "default_paths = \<lparr>pa_config = ''/ERMO/param'', pa_log = ''/ERMO/log/tech'', pa_log_config = ''/ERMO/param''\<rparr>"

definition read_options :: "options \<Rightarrow> paths option" where
  "read_options opts = do {
     pa \<leftarrow> (case opt_config opts of
        None \<Rightarrow> Some default_paths
      | Some p \<Rightarrow> do { p \<leftarrow> copy_path p; Some (default_paths\<lparr>pa_config := p, pa_log_config := p\<rparr>) });
     (case opt_log opts of None \<Rightarrow> Some pa | Some p \<Rightarrow> do { p \<leftarrow> copy_path p; Some (pa\<lparr>pa_log := p\<rparr>) })
   }"

subsection \<open>The process\<close>

text \<open>
  \<open>make_daemon\<close> before it calls \<open>log_init\<close>: the status with which the calling process exits, or \<open>None\<close> in the process that goes on.
  The parent of each \<open>fork\<close> exits.
\<close>

definition daemon_forks :: "int \<Rightarrow> int \<Rightarrow> int \<Rightarrow> int option" where
  "daemon_forks ppid pid1 pid2 =
     (if ppid = 1 then None
      else if pid1 < 0 then Some 1
      else if pid1 > 0 then Some 0
      else if pid2 < 0 then Some 1
      else if pid2 > 0 then Some 0
      else None)"

text \<open>What the system answers: the forks, what the files look like from the root directory, and the binding of the UDP port.\<close>

record 'z process =
  pr_ppid :: int
  pr_pid1 :: int
  pr_pid2 :: int
  pr_at_root :: "'z \<Rightarrow> 'z"
  pr_bind :: "nat \<Rightarrow> bool"

definition make_daemon ::
  "libc \<Rightarrow> 'z os_scheme process \<Rightarrow> string \<Rightarrow> 'f rart_log \<Rightarrow> 'z os_scheme \<Rightarrow> (int option \<times> 'f rart_log \<times> 'z os_scheme) option" where
  "make_daemon lc pr conf g w =
     (case daemon_forks (pr_ppid pr) (pr_pid1 pr) (pr_pid2 pr) of
        Some status \<Rightarrow> Some (Some status, g, w)
      | None \<Rightarrow> log_init lc conf g (pr_at_root pr w))"

text \<open>How \<open>main\<close> goes: it exits, it returns without a service, or it serves; the service starts with a receive on the UDP socket.\<close>

datatype 'a outcome = Exits int | Returns | Serves params "'a router"

definition run :: "'z process \<Rightarrow> params \<Rightarrow> 'a outcome" where
  "run pr pm = (if pr_bind pr (pm_nUDpPort pm) then Serves pm (router_start (pm_sF1Adr pm, pm_nF1Port pm)) else Returns)"

definition rart_main ::
  "libc \<Rightarrow> 'z os_scheme process \<Rightarrow> (string \<Rightarrow> (string \<times> string) list \<times> bool) \<Rightarrow> (string \<rightharpoonup> string) \<Rightarrow> nat \<Rightarrow> options option \<Rightarrow>
   'f rart_log \<Rightarrow> 'z os_scheme \<Rightarrow> ('a outcome \<times> 'f rart_log \<times> 'z os_scheme) option" where
  "rart_main lc pr parse fs raw cmd g w =
     (case cmd of
        None \<Rightarrow> Some (Exits 1, g, w)
      | Some opts \<Rightarrow> do {
          pa \<leftarrow> read_options opts;
          if opt_help opts \<or> opt_version opts then Some (Exits 0, g, w)
          else
            let (nRes, pm) = params_load parse fs (params_new raw (pa_config pa)) in do {
              conf \<leftarrow> copy_path (pa_log_config pa @ ''/rart_log.conf'');
              if nRes \<noteq> 0 then Some (Returns, g, w)
              else do {
                (status, g, w) \<leftarrow> (if opt_daemon opts then make_daemon lc pr conf g w else log_init lc conf g w);
                (case status of
                   Some n \<Rightarrow> Some (Exits n, g, w)
                 | None \<Rightarrow> Some (run pr pm, g, w))
              }
            }
        })"

text \<open>
  \<open>reload_config\<close>: the parameters are read into an object of its own, which is dropped, and only the configuration of the log is
  reloaded, from the array to which \<open>main\<close> has appended the name of the file.
\<close>

definition reload_config ::
  "libc \<Rightarrow> (string \<Rightarrow> (string \<times> string) list \<times> bool) \<Rightarrow> (string \<rightharpoonup> string) \<Rightarrow> nat \<Rightarrow> paths \<Rightarrow> 'f rart_log \<Rightarrow> 'z os_scheme \<Rightarrow>
   ('f rart_log \<times> 'z os_scheme) option" where
  "reload_config lc parse fs raw pa g w =
     (let (nRes, pm) = params_load parse fs (params_new raw (pa_config pa)) in log_reload lc (pa_log_config pa) g w)"

text \<open>\<open>makeHex\<close>: the characters up to the first null character, whatever the size.\<close>

definition makeHex :: "string \<Rightarrow> nat \<Rightarrow> string" where
  "makeHex buf nSize = takeWhile (\<lambda>c. c \<noteq> CHR 0x00) buf"

subsection \<open>What the logging start leaves\<close>

lemma rart_log_start_init: "\<not> en_is_init (rl_env rart_log_start)"
  by (simp add: rart_log_start_def env_start_def)

lemma zlog_init_tables:
  assumes "zlog_init lc path e w = Some (0, e', w')"
  shows "\<exists>m m'. zlog_category_table_new m = (en_categories e', m')"
proof -
  obtain e1 where i: "zlog_init_inner lc path e w = Some (0, e1, w')" "en_categories e' = en_categories e1"
    using assms by (auto simp: zlog_init_def bind_eq_Some_conv split: if_splits)
  then obtain w1 where "init_tables lc path e w1 = Some (True, e1, w')"
    by (auto simp: zlog_init_inner_def bind_eq_Some_conv Let_def split: prod.splits if_splits)
  then show ?thesis unfolding i(2)
    by (fastforce simp: init_tables_def bind_eq_Some_conv Let_def split: prod.splits if_splits)
qed

lemma fresh_table: "zlog_category_table_new m = (Some t, m') \<Longrightarrow> str_table t \<and> zc_hashtable_get t k = Some None"
  using str_table_new [of 20 False True m t m'] str_get [of t k] by (simp add: zlog_category_table_new_def)

lemma fetch_live:
  assumes "en_categories e = Some t" and "zc_hashtable_get t cname = Some None" and "env_fetch_category cname e w = Some (a, e', w')"
  shows "a = None \<or> (\<exists>i c. a = Some i \<and> ch_map (en_cats e') i = Some c)"
proof -
  obtain conf rules t' h m where f: "zlog_category_table_fetch_category (rs_map (en_rules e)) t (en_cats e) cname rules (sy_mem w) = Some (a, t', h, m)"
    "e' = e\<lparr>en_categories := Some t', en_cats := h\<rparr>"
    using assms(1,3) by (auto simp: env_fetch_category_def bind_eq_Some_conv)
  then obtain c m1 where n: "zlog_category_new (rs_map (en_rules e)) cname rules (sy_mem w) = Some (c, m1)"
    using assms(2) by (auto simp: zlog_category_table_fetch_category_def bind_eq_Some_conv)
  show ?thesis
  proof (cases c)
    case None
    then show ?thesis using f n assms(2) by (simp add: zlog_category_table_fetch_category_def)
  next
    case (Some ct)
    then show ?thesis using f n assms(2) by (auto simp: zlog_category_table_fetch_category_def bind_eq_Some_conv Let_def split: if_splits)
  qed
qed

lemma log_init_result:
  assumes "\<not> en_is_init (rl_env g)" and "log_init lc conf g w = Some (status, g', w')"
  shows "env_ok (rl_env g') \<and>
    (case status of
       None \<Rightarrow> rl_rc g' = 0 \<and> en_is_init (rl_env g') \<and> (\<exists>a c. rl_category g' = Some a \<and> ch_map (en_cats (rl_env g')) a = Some c)
     | Some n \<Rightarrow> (n = -1 \<or> n = -2) \<and> \<not> en_is_init (rl_env g'))"
proof -
  obtain rc e1 w1 where i: "zlog_init lc (Some conf) (rl_env g) w = Some (rc, e1, w1)" using assms(2) by (auto simp: log_init_def bind_eq_Some_conv)
  have ok0: "env_ok (rl_env g)" using assms(1) by (simp add: env_ok_def)
  note r = zlog_init_fails [OF assms(1) i]
  show ?thesis
  proof (cases "rc = 0")
    case False
    then show ?thesis using assms(2) i r zlog_init_ok [OF ok0 i] by (auto simp: log_init_def)
  next
    case True
    then have init: "en_is_init e1" "env_ok e1" using r zlog_init_ok [OF ok0 i] by auto
    obtain a e2 w2 where f: "env_fetch_category ''rart_cat'' e1 w1 = Some (a, e2, w2)"
      using assms(2) i True init(1) by (auto simp: log_init_def zlog_get_category_def bind_eq_Some_conv)
    obtain t where t: "en_categories e1 = Some t" using init by (auto simp: env_ok_def)
    then have "zc_hashtable_get t ''rart_cat'' = Some None" using zlog_init_tables [of lc "Some conf" "rl_env g" w e1 w1] i True fresh_table by fastforce
    note live = fetch_live [OF t this f]
    show ?thesis
    proof (cases a)
      case None
      then obtain e3 where "zlog_fini e2 w2 = Some (e3, w')" "status = Some (-2)" "rl_env g' = e3"
        using assms(2) i True init(1) f by (auto simp: log_init_def zlog_get_category_def bind_eq_Some_conv)
      moreover have "\<not> en_is_init e3" using calculation(1) by (auto simp: zlog_fini_def bind_eq_Some_conv split: if_splits)
      ultimately show ?thesis by (simp add: env_ok_def)
    next
      case (Some i')
      then have "status = None" "g' = g\<lparr>rl_rc := 0, rl_env := e2, rl_category := a\<rparr>"
        using assms(2) i True init(1) f by (auto simp: log_init_def zlog_get_category_def)
      then show ?thesis using live Some env_fetch_category_ok [OF init(2) f] env_fetch_category_frame [OF f] init(1) by simp
    qed
  qed
qed

text \<open>C13: Starting the log of the program either succeeds, with the library initialised, its invariant in place and the category
  \<open>rart_cat\<close> allocated, or ends the process with the status -1 or -2, with the library shut down again.\<close>

theorem log_init_outcome:
  assumes "\<not> en_is_init (rl_env g)" and "log_init lc conf g w = Some (status, g', w')"
  shows "env_ok (rl_env g') \<and>
    (case status of
       None \<Rightarrow> rl_rc g' = 0 \<and> en_is_init (rl_env g') \<and> (\<exists>a c. rl_category g' = Some a \<and> ch_map (en_cats (rl_env g')) a = Some c)
     | Some n \<Rightarrow> (n = -1 \<or> n = -2) \<and> \<not> en_is_init (rl_env g'))"
  using assms by (rule log_init_result)

text \<open>A configuration without rules: the category is made.\<close>

lemma sample_log_init:
  assumes "path = c # cs" and "length path \<le> MAXLEN_PATH"
  shows "\<exists>g w. log_init sample_libc path (rart_log_start :: unit rart_log) (sample_conf_os path) = Some (None, g, w)"
proof -
  obtain e :: "unit zlog_env" and conf where i: "zlog_init sample_libc (Some path) env_start (sample_conf_os path) = Some (0, e, sample_conf_os path)"
    "en_is_init e" "en_conf e = Some conf" "co_rules conf = fst (zc_arraylist_new True [])" "en_categories e = fst (zlog_category_table_new [])"
    using sample_init [OF assms] by blast
  obtain t where t: "zlog_category_table_new [] = (Some t, [])" by (simp add: zlog_category_table_new_def zc_hashtable_new_def)
  obtain rules :: "nat zc_arraylist" where ru: "zc_arraylist_new True [] = (Some rules, [])" by (simp add: zc_arraylist_new_def)
  have el: "al_elems rules []" using zc_arraylist_new_rep [OF ru] by (simp add: al_elems_def)
  have "\<exists>c. zlog_category_new (rs_map (en_rules e)) ''rart_cat'' rules [] = Some (Some c, [])"
    using foreach_elems [OF el]
    by (simp add: zlog_category_new_def zlog_category_obtain_rules_def del_rules_def zc_arraylist_new_def MAXLEN_PATH_def Let_def)
  then obtain ct where ct: "zlog_category_new (rs_map (en_rules e)) ''rart_cat'' rules [] = Some (Some ct, [])" by blast
  obtain ds t' where p: "zc_hashtable_put t (ca_name ct) (ch_brk (en_cats e)) [] = Some (0, ds, t', [])"
    using str_put [OF conjunct1 [OF fresh_table [OF t]], of "ca_name ct" "ch_brk (en_cats e)" "[]"] by auto
  have "\<exists>a e' w'. zlog_get_category ''rart_cat'' e (sample_conf_os path) = Some (Some a, e', w')"
    using i(2-5) t ru ct p conjunct2 [OF fresh_table [OF t]]
    by (simp add: zlog_get_category_def env_fetch_category_def zlog_category_table_fetch_category_def Let_def)
  then show ?thesis using i(1) by (auto simp: log_init_def rart_log_start_def)
qed

theorem log_init_outcome_witness:
  "\<exists>g w. log_init sample_libc ''c'' (rart_log_start :: unit rart_log) (sample_conf_os ''c'') = Some (None, g, w) \<and> en_is_init (rl_env g)"
proof -
  obtain g w where l: "log_init sample_libc ''c'' (rart_log_start :: unit rart_log) (sample_conf_os ''c'') = Some (None, g, w)"
    using sample_log_init [OF sample_init_path] by blast
  from log_init_outcome [OF rart_log_start_init l] show ?thesis using l by simp
qed


definition sample_process :: "os process" where
  "sample_process = \<lparr>pr_ppid = 1, pr_pid1 = 0, pr_pid2 = 0, pr_at_root = id, pr_bind = (\<lambda>_. True)\<rparr>"

definition sample_options :: options where
  "sample_options = \<lparr>opt_daemon = True, opt_verbose = None, opt_config = Some ''c'', opt_log = None, opt_help = False, opt_version = False\<rparr>"


end
