(* ===== verification/Spec2Isabelle.thy ===== *)
theory Spec2Isabelle
  imports Zc_Arraylist Zc_Hashtable Zlog_Buf Zlog_Level Zlog_Mdc Zlog_Category Zc_Util Zlog_Rule Zlog_Env Zlog_Api Zlog_Routes Zlog_Chk_Conf
    Router_Packet Router_Addr Router_Relay Router_System Router_Params Router_Main
begin

text \<open>
  A verification of \<^verbatim>\<open>raRt\<close>, a router between UDP peers and a TCP server, and of the logging library zlog that it ships.

  \<^bold>\<open>The program.\<close> \<^verbatim>\<open>src/src/main.cpp\<close> reads the command line and the parameters, starts the log and runs the service. The UDP server
  (\<^verbatim>\<open>udpRelayServer.cpp\<close>) receives datagrams and gives each to the session manager (\<^verbatim>\<open>sessionManager.cpp\<close>), which keeps one session
  for each peer address (\<^verbatim>\<open>adrTuple.cpp\<close>). A session (\<^verbatim>\<open>routerSession.cpp\<close>) wraps the datagram into a frame with the address of the peer
  (\<^verbatim>\<open>class RouterPacket\<close>), and writes the frames of its queue one after another to a TCP connection of its own; what the server
  answers is a frame again, whose data goes out as a datagram to the address in it. All of this runs as handlers of one
  \<open>boost::asio\<close> event loop. The log front end (\<^verbatim>\<open>rartlog.cpp\<close>) uses zlog (\<^verbatim>\<open>src/zlog-latest-stable/src\<close>): a configuration file is read into
  levels, formats and rules; a category holds the rules that match its name; a logging call fills the event of the thread, and
  each rule of the category renders it through the specifiers of a format into the buffer of the thread and writes it to a file,
  with rotation, a pipe, syslog, a stream or a function of the user.

  \<^bold>\<open>Conventions.\<close> A result \<open>None\<close> is undefined behaviour of the C or C++ code: an access outside a block, a null or freed pointer, a
  number that does not fit. Error codes are the integers the code returns, and an inner \<open>None\<close> is a null pointer. \<open>mem\<close> is a
  script of what the next allocations answer, so that every failure path runs; \<open>sys\<close> and \<open>os\<close> hold memory, clock, files, descriptors and
  the answers of system calls, and \<open>libc\<close> the answers that do not change. Machine integers are words where the code relies on their
  width, and \<open>int\<close> or \<open>nat\<close> with the bounds written out elsewhere. Rules and categories of zlog and sessions of the router are
  addresses in a store, because the code shares pointers to them.

  \<^bold>\<open>The theories of the library zlog.\<close>
  \<^item> \<open>Zlog_Prelude\<close>, \<open>Zlog_Libc\<close>, \<open>Zlog_Numerals\<close>, \<open>Zlog_Os\<close>: lists as memory blocks, the allocation script, the parts of the C library that are
    used (\<open>sscanf\<close>, \<open>strtol\<close>, \<open>snprintf\<close>), numerals and their digits, and the file system.
  \<^item> \<open>Zc_Arraylist\<close>, \<open>Zc_Hashtable\<close>: the containers (\<^verbatim>\<open>zc_arraylist.c\<close>, \<^verbatim>\<open>zc_hashtable.c\<close>) over explicit blocks and nodes. The list stores what
    it is given and inserts in order; any sequence of operations on a table of strings implements a finite map; iteration
    meets every entry once and deletion frees every entry. The contract of a key is the locale \<open>hash_key\<close>.
  \<^item> \<open>Zlog_Buf\<close> (\<^verbatim>\<open>buf.c\<close>): every append adds the text, or cuts it at the limit with the mark, or loses the buffer when memory runs
    out; the number printers give the padded numeral; \<open>adjust_append\<close> is \<open>append\<close> of the adjusted text.
  \<^item> \<open>Zlog_Level\<close>, \<open>Zlog_Mdc\<close>, \<open>Zc_Util\<close>: levels and their list, the diagnostic context of a thread, sizes and environment references.
  \<^item> \<open>Zlog_Event\<close>, \<open>Zlog_Spec\<close>, \<open>Zlog_Format\<close>: events and threads, the specifiers, and formats. Specifiers of a parsed format spell its
    pattern; a message is the concatenation of the texts of the specifiers, whatever the caches hold.
  \<^item> \<open>Zlog_Rotater\<close> (\<^verbatim>\<open>rotater.c\<close>): a rotation moves every archive by one and loses none over a run of numbers, and always leaves the
    rotater idle and unlocked.
  \<^item> \<open>Zlog_Selector\<close>, \<open>Zlog_Rule\<close> (\<^verbatim>\<open>rule.c\<close>): parsing a rule, its level bitmap and its output functions; a message is written once and whole
    or an error is returned, with rotation too.
  \<^item> \<open>Zlog_Category\<close> (\<^verbatim>\<open>category.c\<close>, \<^verbatim>\<open>category_table.c\<close>, \<^verbatim>\<open>record.c\<close>): a category has exactly the matching rules and its bitmap filters exactly the levels
    nobody outputs; an update commits or rolls back.
  \<^item> \<open>Zlog_Conf\<close>, \<open>Zlog_Env\<close> (\<^verbatim>\<open>conf.c\<close>, \<^verbatim>\<open>zlog.c\<close>): configurations and every function of the interface over the global variables.
  \<^item> \<open>Zlog_Api\<close>: the interface as a state machine: a program calls any functions in any order. The invariant of the states it reaches
    says that an initialised process has its configuration and tables and only live rules with exact selectors; a failed reload keeps them.
  \<^item> \<open>Zlog_Routes\<close>: the lists of rules of the categories, followed through all calls. Unless memory runs out in the middle of a reload,
    every category has exactly the rules of the configuration in force that match its name.
  \<^item> \<open>Zlog_Chk_Conf\<close> (\<^verbatim>\<open>zlog.h\<close>, \<^verbatim>\<open>zlog-chk-conf.c\<close>): levels, macros and the tool that checks configuration files.

  \<^bold>\<open>The theories of the router.\<close>
  \<^item> \<open>Router_Packet\<close>: \<open>RouterPacket\<close> on its array of characters. A frame decodes to the address and data it was made from; making and
    copying it stays within the array exactly when it fits the maximal payload.
  \<^item> \<open>Router_Addr\<close>: addresses and their operators, an instance of \<open>linorder\<close>, and \<open>split_addr\<close>.
  \<^item> \<open>Router_Relay\<close>: the state of the router (sessions, the table, the queue to the peers, pending operations) and one definition for
    each handler. The table of sessions is used through the locale \<open>session_table\<close>, interpreted on the model of \<open>std::map\<close>.
  \<^item> \<open>Router_System\<close>: the step relation, in which any pending operation completes in any way that \<open>asio\<close> documents, the reachable states and their
    invariant. Frames of a peer are written in order, none lost or twice; a datagram reaches the session of its sender and an answer
    its peer; reading and connecting is never undefined; a queue drains when operations succeed, and a session gives up after
    as many attempts as there are endpoints.
  \<^item> \<open>Router_Params\<close>, \<open>Router_Main\<close>: the parameters, which are saved and loaded back, and the program: what holds when it serves.

  \<^bold>\<open>Termination and fuel.\<close> Loops of the code are recursive functions with a termination proof, on the list, the rest of the text, or the length of
    a chain; a chain of nodes is followed by \<open>partial_function (option)\<close>, and the theorems show that it returns. No definition has fuel.

  \<^bold>\<open>Parameters.\<close> The code outside the repository: how \<open>ip::address\<close> is printed and read, completions of \<open>boost::asio\<close>, the parsers of
    \<open>boost::program_options\<close>, the expansion of \<open>strftime\<close>, \<open>localtime\<close>, the functions of the user for records.

  \<^bold>\<open>Not modelled.\<close> Output without state: \<^verbatim>\<open>zc_profile.c\<close> and the functions that print a state through it, the log messages of the router,
    syslog of \<^verbatim>\<open>common.h\<close>, \<open>raRt_events.log\<close>. The table of signals of \<^verbatim>\<open>main.cpp\<close>. Locks: handlers of the router run in one thread, and
    logging calls of zlog, which may overlap as readers, are run one after another. \<^verbatim>\<open>logging.h\<close>, a header of another project that
    \<^verbatim>\<open>common.h\<close> switches off, \<^verbatim>\<open>tcpSession.cpp\<close>, whose methods are empty, tests and build files.
\<close>

end
